(* ===== verification/Prelude.thy ===== *)
theory Prelude
  imports Main "HOL-Library.Char_ord" "HOL-Library.List_Lexorder"
begin

text \<open>
  Shared vocabulary of the development: the faults a C++ statement can end in, the result type that
  carries them, sequencing, the two ways of stating what a result satisfies, the fixed-width size
  arithmetic, and the parts of the C and C++ standard libraries the program uses on strings
  (\<open>std::to_string\<close>, \<open>std::hex\<close>, \<open>find\<close>, \<open>find_last_of\<close>, \<open>substr\<close>).
\<close>

section \<open>Faults and results\<close>

text \<open>
  The program is built without \<open>NDEBUG\<close>, so a failed \<open>assert\<close> ends it. The other faults stand for
  undefined behaviour (a null or out-of-range access, an indeterminate byte read, a signed overflow,
  an access to a destroyed object) and for exceptions that leave the operation.
\<close>

datatype fault =
    Assertion_Failed
  | Null_Dereference
  | Out_Of_Bounds
  | Indeterminate_Value
  | Signed_Overflow
  | Use_After_Free
  | Bad_Alloc
  | Out_Of_Range
  | Bad_Lexical_Cast
  | Uncaught_Exception

type_synonym 'a result = "fault + 'a"

fun bind_res :: "'a result \<Rightarrow> ('a \<Rightarrow> 'b result) \<Rightarrow> 'b result" where
  "bind_res (Inl e) f = Inl e"
| "bind_res (Inr x) f = f x"

definition assert_that :: "bool \<Rightarrow> unit result" where
  "assert_that b = (if b then Inr () else Inl Assertion_Failed)"

primrec fold_res :: "('x \<Rightarrow> 's \<Rightarrow> 's result) \<Rightarrow> 'x list \<Rightarrow> 's \<Rightarrow> 's result" where
  "fold_res f [] s = Inr s"
| "fold_res f (x # xs) s = bind_res (f x s) (fold_res f xs)"

text \<open>Total correctness (a value is returned and satisfies P) and partial correctness.\<close>

definition succeeds :: "'a result \<Rightarrow> ('a \<Rightarrow> bool) \<Rightarrow> bool" where
  "succeeds m P \<longleftrightarrow> (case m of Inl _ \<Rightarrow> False | Inr x \<Rightarrow> P x)"

definition whenever :: "'a result \<Rightarrow> ('a \<Rightarrow> bool) \<Rightarrow> bool" where
  "whenever m P \<longleftrightarrow> (case m of Inl _ \<Rightarrow> True | Inr x \<Rightarrow> P x)"

lemma bind_res_assoc: "bind_res (bind_res m f) g = bind_res m (\<lambda>x. bind_res (f x) g)"
  by (cases m) simp_all

lemma bind_res_cong: "m = m' \<Longrightarrow> (\<And>x. m' = Inr x \<Longrightarrow> f x = g x) \<Longrightarrow> bind_res m f = bind_res m' g"
  by (cases m') simp_all

lemma bind_res_Inr_eq [simp]: "bind_res m Inr = m"
  by (cases m) simp_all

lemma bind_res_eq_Inr: "bind_res m f = Inr y \<longleftrightarrow> (\<exists>x. m = Inr x \<and> f x = Inr y)"
  by (cases m) simp_all

lemma bind_res_InrE [elim]:
  assumes "bind_res m f = Inr y"
  obtains x where "m = Inr x" and "f x = Inr y"
  using assms by (cases m) simp_all

lemma fold_res_Nil_fun: "fold_res f [] = Inr"
  by (rule ext) simp

lemma fold_res_Cons_fun: "fold_res f (x # xs) = (\<lambda>s. bind_res (f x s) (fold_res f xs))"
  by (rule ext) simp

lemma fold_res_single [simp]: "fold_res f [x] = f x"
  by (rule ext) (simp add: fold_res_Nil_fun)

lemma fold_res_append: "fold_res f (xs @ ys) s = bind_res (fold_res f xs s) (fold_res f ys)"
proof (induction xs arbitrary: s)
  case (Cons x xs)
  then show ?case by (cases "f x s") simp_all
qed simp

lemma assert_that_simps [simp]:
  "assert_that True = Inr ()" "assert_that False = Inl Assertion_Failed"
  by (simp_all add: assert_that_def)

lemma assert_that_eq_Inr [simp]: "assert_that b = Inr u \<longleftrightarrow> b"
  by (simp add: assert_that_def)

lemma succeeds_simps [simp]:
  "succeeds (Inr x) P = P x"
  "succeeds (Inl e) P = False"
  by (simp_all add: succeeds_def)

lemma whenever_simps [simp]:
  "whenever (Inr x) P = P x"
  "whenever (Inl e) P = True"
  by (simp_all add: whenever_def)

lemma succeeds_bind [simp]: "succeeds (bind_res m f) P = succeeds m (\<lambda>x. succeeds (f x) P)"
  by (cases m) simp_all

lemma whenever_bind [simp]: "whenever (bind_res m f) P = whenever m (\<lambda>x. whenever (f x) P)"
  by (cases m) simp_all

lemma succeeds_mono: "succeeds m P \<Longrightarrow> (\<And>x. P x \<Longrightarrow> Q x) \<Longrightarrow> succeeds m Q"
  by (cases m) simp_all

lemma whenever_mono: "whenever m P \<Longrightarrow> (\<And>x. P x \<Longrightarrow> Q x) \<Longrightarrow> whenever m Q"
  by (cases m) simp_all

lemma whenever_any: "(\<And>x. P x) \<Longrightarrow> whenever m P"
  by (cases m) simp_all

lemma whenever_true [simp]: "whenever m (\<lambda>x. True)"
  by (cases m) simp_all

lemma succeeds_iff: "succeeds m P \<longleftrightarrow> (\<exists>x. m = Inr x \<and> P x)"
  by (cases m) simp_all

lemma whenever_iff: "whenever m P \<longleftrightarrow> (\<forall>x. m = Inr x \<longrightarrow> P x)"
  by (cases m) simp_all

lemma whenever_assert [simp]: "whenever (assert_that b) P = (b \<longrightarrow> P ())"
  by (simp add: assert_that_def)

lemma succeeds_assert [simp]: "succeeds (assert_that b) P = (b \<and> P ())"
  by (simp add: assert_that_def)

lemma whenever_fold_res:
  assumes "\<And>x s. x \<in> set xs \<Longrightarrow> I s \<Longrightarrow> whenever (f x s) I" and "I s"
  shows "whenever (fold_res f xs s) I"
  using assms
proof (induction xs arbitrary: s)
  case Nil
  then show ?case by simp
next
  case (Cons x xs)
  then have "whenever (f x s) I" by simp
  then show ?case
    by (simp, rule whenever_mono) (use Cons in auto)
qed

section \<open>Fixed-width sizes\<close>

text \<open>
  \<open>std::size_t\<close> is 64 bits wide. A size is kept as a natural number and the wrap-around of the
  operations is written out. \<open>npos\<close> is the largest size, and \<open>MAX_ALLOC\<close> is \<open>PTRDIFF_MAX\<close>, the
  largest request an allocation function accepts.
\<close>

definition SIZE_MOD :: nat where "SIZE_MOD = 2 ^ 64"

definition npos :: nat where "npos = SIZE_MOD - 1"

definition MAX_ALLOC :: nat where "MAX_ALLOC = 2 ^ 63 - 1"

definition INT_LIMIT :: nat where "INT_LIMIT = 2 ^ 31"

definition size_add :: "nat \<Rightarrow> nat \<Rightarrow> nat" where
  "size_add a b = (a + b) mod SIZE_MOD"

definition size_mul :: "nat \<Rightarrow> nat \<Rightarrow> nat" where
  "size_mul a b = (a * b) mod SIZE_MOD"

definition size_sub :: "nat \<Rightarrow> nat \<Rightarrow> nat" where
  "size_sub a b = (if b \<le> a then a - b else a + SIZE_MOD - b)"

lemma size_sub_le [simp]: "b \<le> a \<Longrightarrow> size_sub a b = a - b"
  by (simp add: size_sub_def)

lemma size_add_small: "a + b \<le> MAX_ALLOC \<Longrightarrow> size_add a b = a + b"
  by (simp add: size_add_def MAX_ALLOC_def SIZE_MOD_def)

lemma size_add_two: "a \<le> MAX_ALLOC \<Longrightarrow> b \<le> MAX_ALLOC \<Longrightarrow> size_add a b = a + b"
  by (simp add: size_add_def MAX_ALLOC_def SIZE_MOD_def)

lemma size_mul_small: "a * b \<le> MAX_ALLOC \<Longrightarrow> size_mul a b = a * b"
  by (simp add: size_mul_def MAX_ALLOC_def SIZE_MOD_def)

section \<open>Standard library text functions\<close>

definition digit_char :: "nat \<Rightarrow> char" where
  "digit_char d = ''0123456789abcdef'' ! d"

fun digits_in :: "nat \<Rightarrow> nat \<Rightarrow> string" where
  "digits_in b n = (if n < b \<or> b \<le> 1 then [digit_char n] else digits_in b (n div b) @ [digit_char (n mod b)])"

declare digits_in.simps [simp del]

definition to_string_nat :: "nat \<Rightarrow> string" where
  "to_string_nat n = digits_in 10 n"

definition to_string_int :: "int \<Rightarrow> string" where
  "to_string_int i = (if i < 0 then CHR ''-'' # to_string_nat (nat (- i)) else to_string_nat (nat i))"

definition hex_string :: "nat \<Rightarrow> string" where
  "hex_string n = digits_in 16 n"

text \<open>\<open>s.find(c, pos)\<close> and \<open>s.find_last_of(c, pos)\<close>; \<open>npos\<close> when there is none.\<close>

fun find_from :: "char \<Rightarrow> string \<Rightarrow> nat \<Rightarrow> nat" where
  "find_from c [] i = npos"
| "find_from c (x # xs) i = (if x = c then i else find_from c xs (Suc i))"

definition find_char :: "char \<Rightarrow> string \<Rightarrow> nat \<Rightarrow> nat" where
  "find_char c s pos = find_from c (drop pos s) pos"

fun find_last_from :: "char \<Rightarrow> string \<Rightarrow> nat \<Rightarrow> nat" where
  "find_last_from c s 0 = npos"
| "find_last_from c s (Suc i) = (if i < length s \<and> s ! i = c then i else find_last_from c s i)"

definition find_last_of :: "char \<Rightarrow> string \<Rightarrow> nat \<Rightarrow> nat" where
  "find_last_of c s pos = find_last_from c s (min (Suc pos) (length s))"

text \<open>\<open>s.substr(pos)\<close> and \<open>s.substr(pos, n)\<close> throw \<open>std::out_of_range\<close> when \<open>pos > s.size()\<close>.\<close>

definition substr_from :: "string \<Rightarrow> nat \<Rightarrow> string result" where
  "substr_from s pos = (if pos \<le> length s then Inr (drop pos s) else Inl Out_Of_Range)"

definition substr_len :: "string \<Rightarrow> nat \<Rightarrow> nat \<Rightarrow> string result" where
  "substr_len s pos n = (if pos \<le> length s then Inr (take n (drop pos s)) else Inl Out_Of_Range)"

lemma find_from_none: "c \<notin> set s \<Longrightarrow> find_from c s i = npos"
  by (induction s arbitrary: i) auto

lemma find_from_some: "c \<notin> set a \<Longrightarrow> find_from c (a @ c # b) i = i + length a"
  by (induction a arbitrary: i) auto

lemma find_char_none: "c \<notin> set s \<Longrightarrow> find_char c s 0 = npos"
  by (simp add: find_char_def find_from_none)

lemma find_char_some: "c \<notin> set a \<Longrightarrow> find_char c (a @ c # b) 0 = length a"
  by (simp add: find_char_def find_from_some)

lemma find_char_after: "c \<notin> set a \<Longrightarrow> length p = pos \<Longrightarrow> find_char c (p @ a @ c # b) pos = pos + length a"
  by (simp add: find_char_def find_from_some)

lemma find_char_after_none: "c \<notin> set a \<Longrightarrow> length p = pos \<Longrightarrow> find_char c (p @ a) pos = npos"
  by (simp add: find_char_def find_from_none)

lemma find_last_from_skip:
  "(\<forall>j. i \<le> j \<and> j < n \<longrightarrow> j < length s \<longrightarrow> s ! j \<noteq> c) \<Longrightarrow> i \<le> n \<Longrightarrow>
   find_last_from c s n = find_last_from c s i"
proof (induction n)
  case 0
  then show ?case by simp
next
  case (Suc n)
  show ?case
  proof (cases "i = Suc n")
    case False
    with Suc.prems have "find_last_from c s n = find_last_from c s i"
      by (intro Suc.IH) auto
    moreover have "\<not> (n < length s \<and> s ! n = c)"
      using Suc.prems False by auto
    ultimately show ?thesis by (simp only: find_last_from.simps if_False)
  qed simp
qed

lemma find_last_from_here: "i < length s \<Longrightarrow> s ! i = c \<Longrightarrow> find_last_from c s (Suc i) = i"
  by simp

end
