(* ===== verification/ByteBuffer.thy ===== *)
theory ByteBuffer
  imports Prelude
begin

text \<open>
  The growable byte buffer of \<open>include/x/memory/byte_buffer.hpp\<close>. An allocation is a list of cells;
  a cell is \<open>None\<close> while its value is indeterminate (\<open>new char[n]\<close> does not initialise). A pointer is
  the list of the cells readable from it, \<open>None\<close> for \<open>nullptr\<close>. Sizes wrap at 64 bits.
\<close>

section \<open>Memory\<close>

type_synonym cell = "char option"
type_synonym pointer = "cell list option"

record byte_buffer =
  bb_data :: pointer
  bb_size :: nat
  bb_capacity :: nat

record wrapper =
  w_data :: pointer
  w_size :: nat

definition DEFAULT_SIZE :: nat where "DEFAULT_SIZE = 1024"
definition GROW_FACTOR :: nat where "GROW_FACTOR = 2"

definition new_char :: "nat \<Rightarrow> cell list result" where
  "new_char n = (if n \<le> MAX_ALLOC then Inr (replicate n None) else Inl Bad_Alloc)"

text \<open>
  \<open>memcpy(dst + off, src + soff, n)\<close>; \<open>memmove\<close> reads all of its source first, as this function does.
  A copy of no bytes touches nothing, whatever the pointers are.
\<close>

definition mem_copy :: "pointer \<Rightarrow> nat \<Rightarrow> pointer \<Rightarrow> nat \<Rightarrow> nat \<Rightarrow> pointer result" where
  "mem_copy dst off src soff n =
     (if n = 0 then Inr dst else
      case dst of None \<Rightarrow> Inl Null_Dereference
      | Some d \<Rightarrow> (case src of None \<Rightarrow> Inl Null_Dereference
        | Some s \<Rightarrow> if off + n \<le> length d \<and> soff + n \<le> length s
                    then Inr (Some (take off d @ take n (drop soff s) @ drop (off + n) d))
                    else Inl Out_Of_Bounds))"

definition store_char :: "pointer \<Rightarrow> nat \<Rightarrow> char \<Rightarrow> pointer result" where
  "store_char p i c =
     (case p of None \<Rightarrow> Inl Null_Dereference
      | Some d \<Rightarrow> if i < length d then Inr (Some (d[i := Some c])) else Inl Out_Of_Bounds)"

definition load_char :: "pointer \<Rightarrow> nat \<Rightarrow> char result" where
  "load_char p i =
     (case p of None \<Rightarrow> Inl Null_Dereference
      | Some d \<Rightarrow> if i < length d
                  then (case d ! i of None \<Rightarrow> Inl Indeterminate_Value | Some c \<Rightarrow> Inr c)
                  else Inl Out_Of_Bounds)"

section \<open>Construction and assignment\<close>

definition wrap :: "pointer \<Rightarrow> nat \<Rightarrow> wrapper" where
  "wrap p n = \<lparr>w_data = p, w_size = n\<rparr>"

definition new_buffer :: "nat \<Rightarrow> byte_buffer result" where
  "new_buffer n =
     (let c = (if n \<noteq> 0 then n else DEFAULT_SIZE) in
      bind_res (new_char c) (\<lambda>d. Inr \<lparr>bb_data = Some d, bb_size = 0, bb_capacity = c\<rparr>))"

definition buffer_of :: "pointer \<Rightarrow> nat \<Rightarrow> byte_buffer result" where
  "buffer_of p n =
     bind_res (new_buffer n) (\<lambda>b.
     bind_res (assert_that (p \<noteq> None)) (\<lambda>_.
     bind_res (mem_copy (bb_data b) 0 p 0 n) (\<lambda>d.
     Inr (b\<lparr>bb_data := d, bb_size := n\<rparr>))))"

definition copy_buffer :: "byte_buffer \<Rightarrow> byte_buffer result" where
  "copy_buffer b = buffer_of (bb_data b) (bb_size b)"

definition null_buffer :: byte_buffer where
  "null_buffer = \<lparr>bb_data = None, bb_size = 0, bb_capacity = 0\<rparr>"

text \<open>The move constructor: the new buffer and what is left of the source.\<close>

definition move_buffer :: "byte_buffer \<Rightarrow> byte_buffer \<times> byte_buffer" where
  "move_buffer b =
     (\<lparr>bb_data = bb_data b, bb_size = bb_size b, bb_capacity = bb_capacity b\<rparr>,
      b\<lparr>bb_data := None, bb_size := 0, bb_capacity := 0\<rparr>)"

definition assign_copy :: "byte_buffer \<Rightarrow> byte_buffer \<Rightarrow> byte_buffer result" where
  "assign_copy this b =
     bind_res
       (if bb_capacity this < bb_size b
        then bind_res (new_char (bb_size b)) (\<lambda>d.
             Inr (this\<lparr>bb_data := Some d, bb_capacity := bb_size b\<rparr>))
        else Inr this)
       (\<lambda>t. bind_res (mem_copy (bb_data t) 0 (bb_data b) 0 (bb_size b)) (\<lambda>d.
            Inr (t\<lparr>bb_data := d, bb_size := bb_size b\<rparr>)))"

definition assign_move :: "byte_buffer \<Rightarrow> byte_buffer \<Rightarrow> byte_buffer \<times> byte_buffer" where
  "assign_move this b =
     (this\<lparr>bb_data := bb_data b, bb_size := bb_size b, bb_capacity := bb_capacity b\<rparr>,
      b\<lparr>bb_data := None, bb_size := 0, bb_capacity := 0\<rparr>)"

section \<open>Comparison\<close>

text \<open>
  The loop counter of \<open>operator==\<close> is declared \<open>auto i = 0\<close>, an \<open>int\<close>, so its increment overflows
  after index \<open>2^31 - 1\<close>. \<open>same\<close> is the test \<open>this == &buffer\<close>.
\<close>

fun equal_loop :: "byte_buffer \<Rightarrow> byte_buffer \<Rightarrow> nat \<Rightarrow> nat \<Rightarrow> bool result" where
  "equal_loop a b i 0 = Inr True"
| "equal_loop a b i (Suc left) =
     bind_res (load_char (bb_data a) i) (\<lambda>x.
     bind_res (load_char (bb_data b) i) (\<lambda>y.
       if x \<noteq> y then Inr False
       else if Suc i = INT_LIMIT then Inl Signed_Overflow
       else equal_loop a b (Suc i) left))"

definition equals :: "bool \<Rightarrow> byte_buffer \<Rightarrow> byte_buffer \<Rightarrow> bool result" where
  "equals same a b =
     (if same then Inr True
      else if bb_size a \<noteq> bb_size b then Inr False
      else equal_loop a b 0 (bb_size a))"

section \<open>Appending\<close>

definition ensure_size :: "nat \<Rightarrow> byte_buffer \<Rightarrow> byte_buffer result" where
  "ensure_size n b =
     (if size_add (bb_size b) n \<le> bb_capacity b then Inr b
      else let c = size_add (size_mul (bb_capacity b) GROW_FACTOR) n in
        bind_res (new_char c) (\<lambda>d.
        bind_res (mem_copy (Some d) 0 (bb_data b) 0 (bb_size b)) (\<lambda>d'.
        Inr (b\<lparr>bb_data := d', bb_capacity := c\<rparr>))))"

definition put_char :: "char \<Rightarrow> byte_buffer \<Rightarrow> byte_buffer result" where
  "put_char c b =
     bind_res (store_char (bb_data b) (bb_size b) c) (\<lambda>d.
     Inr (b\<lparr>bb_data := d, bb_size := size_add (bb_size b) 1\<rparr>))"

definition append_char :: "char \<Rightarrow> byte_buffer \<Rightarrow> byte_buffer result" where
  "append_char c b = bind_res (ensure_size 1 b) (put_char c)"

definition append_string :: "string \<Rightarrow> byte_buffer \<Rightarrow> byte_buffer result" where
  "append_string s b = bind_res (ensure_size (length s) b) (fold_res put_char s)"

definition append_cstr :: "string \<Rightarrow> byte_buffer \<Rightarrow> byte_buffer result" where
  "append_cstr s b = append_string (takeWhile (\<lambda>c. c \<noteq> CHR 0x00) s) b"

definition append_int :: "int \<Rightarrow> byte_buffer \<Rightarrow> byte_buffer result" where
  "append_int i b = append_string (to_string_int i) b"

definition append_memory :: "pointer \<Rightarrow> nat \<Rightarrow> byte_buffer \<Rightarrow> byte_buffer result" where
  "append_memory p n b =
     bind_res (ensure_size n b) (\<lambda>b'.
     bind_res (mem_copy (bb_data b') (bb_size b') p 0 n) (\<lambda>d.
     Inr (b'\<lparr>bb_data := d, bb_size := size_add (bb_size b') n\<rparr>)))"

definition append_buffer :: "byte_buffer \<Rightarrow> byte_buffer \<Rightarrow> byte_buffer result" where
  "append_buffer x b = append_memory (bb_data x) (bb_size x) b"

definition append_wrapper :: "wrapper \<Rightarrow> byte_buffer \<Rightarrow> byte_buffer result" where
  "append_wrapper w b = append_memory (w_data w) (w_size w) b"

text \<open>
  \<open>b << b\<close>: the argument is the buffer itself, so its \<open>data()\<close> is read after the reallocation.
\<close>

definition append_self :: "byte_buffer \<Rightarrow> byte_buffer result" where
  "append_self b =
     bind_res (ensure_size (bb_size b) b) (\<lambda>b'.
     bind_res (mem_copy (bb_data b') (bb_size b') (bb_data b') 0 (bb_size b')) (\<lambda>d.
     Inr (b'\<lparr>bb_data := d, bb_size := size_add (bb_size b') (bb_size b')\<rparr>)))"

section \<open>Access and removal\<close>

definition buffer_empty :: "byte_buffer \<Rightarrow> bool" where
  "buffer_empty b \<longleftrightarrow> bb_size b = 0"

definition buffer_clear :: "byte_buffer \<Rightarrow> byte_buffer" where
  "buffer_clear b = b\<lparr>bb_size := 0\<rparr>"

definition data_at :: "nat \<Rightarrow> byte_buffer \<Rightarrow> pointer" where
  "data_at pos b = (if pos < bb_size b then map_option (drop pos) (bb_data b) else None)"

definition buffer_erase :: "nat \<Rightarrow> nat \<Rightarrow> byte_buffer \<Rightarrow> byte_buffer result" where
  "buffer_erase first lst b =
     (if first \<ge> lst then Inr b
      else if lst > bb_size b then Inr b
      else if lst = bb_size b then Inr (b\<lparr>bb_size := first\<rparr>)
      else bind_res (mem_copy (bb_data b) first (bb_data b) lst (bb_size b - lst)) (\<lambda>d.
           Inr (b\<lparr>bb_data := d, bb_size := bb_size b - (lst - first)\<rparr>)))"

section \<open>Invariant and abstraction\<close>

text \<open>
  A well-formed buffer owns an allocation of exactly its capacity whose first \<open>size\<close> cells are
  initialised, or is a moved-from buffer. Its abstract value is the string of those cells.
\<close>

definition bb_ok :: "byte_buffer \<Rightarrow> bool" where
  "bb_ok b \<longleftrightarrow>
     bb_size b \<le> bb_capacity b \<and> bb_capacity b \<le> MAX_ALLOC \<and>
     (case bb_data b of None \<Rightarrow> bb_capacity b = 0
      | Some d \<Rightarrow> length d = bb_capacity b \<and> None \<notin> set (take (bb_size b) d))"

definition bytes :: "byte_buffer \<Rightarrow> string" where
  "bytes b = (case bb_data b of None \<Rightarrow> [] | Some d \<Rightarrow> map the (take (bb_size b) d))"

text \<open>The bytes a pointer of known extent points at, when all of them are initialised.\<close>

definition readable :: "pointer \<Rightarrow> string \<Rightarrow> bool" where
  "readable p s \<longleftrightarrow> (if s = [] then True else \<exists>d. p = Some (map Some s @ d))"

text \<open>
  Every well-formed buffer is the moved-from one or an allocation whose initialised part holds its
  bytes; the proofs below work on this representation.
\<close>

definition rep :: "string \<Rightarrow> cell list \<Rightarrow> byte_buffer" where
  "rep xs junk = \<lparr>bb_data = Some (map Some xs @ junk), bb_size = length xs,
                  bb_capacity = length xs + length junk\<rparr>"

lemma rep_simps [simp]:
  "bb_data (rep xs junk) = Some (map Some xs @ junk)"
  "bb_size (rep xs junk) = length xs"
  "bb_capacity (rep xs junk) = length xs + length junk"
  "bytes (rep xs junk) = xs"
  "bb_ok (rep xs junk) \<longleftrightarrow> length xs + length junk \<le> MAX_ALLOC"
  by (auto simp: rep_def bytes_def bb_ok_def comp_def)

lemma rep_update:
  "length xs + length junk = length ys + length j \<Longrightarrow>
   (rep xs junk)\<lparr>bb_data := Some (map Some ys @ j), bb_size := length ys\<rparr> = rep ys j"
  by (simp add: rep_def)

lemma null_buffer_simps [simp]:
  "bb_ok null_buffer" "bytes null_buffer = []" "bb_size null_buffer = 0"
  "bb_capacity null_buffer = 0" "bb_data null_buffer = None"
  by (simp_all add: null_buffer_def bytes_def bb_ok_def)

lemma null_buffer_update [simp]: "null_buffer\<lparr>bb_data := None, bb_size := 0\<rparr> = null_buffer"
  by (simp add: null_buffer_def)

lemma bb_ok_cases [consumes 1, case_names null alloc]:
  assumes "bb_ok b"
  obtains "b = null_buffer"
  | xs junk where "b = rep xs junk" "length xs + length junk \<le> MAX_ALLOC"
proof (cases "bb_data b")
  case None
  with assms have "b = null_buffer"
    by (cases b) (simp add: bb_ok_def null_buffer_def)
  then show ?thesis by (rule that(1))
next
  case (Some d)
  let ?xs = "map the (take (bb_size b) d)"
  have le: "bb_size b \<le> length d" and cap: "bb_capacity b = length d" and lim: "length d \<le> MAX_ALLOC"
    and init: "None \<notin> set (take (bb_size b) d)"
    using assms Some by (auto simp: bb_ok_def)
  have "map Some ?xs = take (bb_size b) d"
    unfolding map_map
  proof (rule map_idI)
    fix x assume "x \<in> set (take (bb_size b) d)"
    with init show "(Some \<circ> the) x = x" by (cases x) auto
  qed
  then have "map Some ?xs @ drop (bb_size b) d = d" by simp
  then have "b = rep ?xs (drop (bb_size b) d)"
    using Some le cap by (cases b) (simp add: rep_def)
  moreover have "length ?xs + length (drop (bb_size b) d) \<le> MAX_ALLOC"
    using le lim by simp
  ultimately show ?thesis by (rule that(2))
qed

lemma length_bytes [simp]: "bb_ok b \<Longrightarrow> length (bytes b) = bb_size b"
  by (cases rule: bb_ok_cases) auto

lemma new_char_simps: "n \<le> MAX_ALLOC \<Longrightarrow> new_char n = Inr (replicate n None)"
  by (simp add: new_char_def)

lemma mem_copy_nothing [simp]: "mem_copy d i s j 0 = Inr d"
  by (simp add: mem_copy_def)

section \<open>Appending extends the bytes\<close>

definition room :: "nat \<Rightarrow> byte_buffer \<Rightarrow> bool" where
  "room n b \<longleftrightarrow> bb_size b + n \<le> bb_capacity b \<or> 2 * bb_capacity b + n \<le> MAX_ALLOC"

definition grown :: "nat \<Rightarrow> byte_buffer \<Rightarrow> nat" where
  "grown n b = (if bb_size b + n \<le> bb_capacity b then bb_capacity b else 2 * bb_capacity b + n)"

definition extends_by :: "string \<Rightarrow> byte_buffer \<Rightarrow> byte_buffer \<Rightarrow> bool" where
  "extends_by s b b' \<longleftrightarrow>
     bb_ok b' \<and> bytes b' = bytes b @ s \<and> bb_capacity b' = grown (length s) b"

lemma room_sum_small: "bb_ok b \<Longrightarrow> room n b \<Longrightarrow> bb_size b + n \<le> MAX_ALLOC"
  by (auto simp: room_def bb_ok_def)

lemma ensure_size_spec:
  assumes "bb_ok b" and "room n b"
  shows "succeeds (ensure_size n b)
           (\<lambda>b'. bb_ok b' \<and> bytes b' = bytes b \<and> bb_capacity b' = grown n b \<and>
                 bb_size b' + n \<le> bb_capacity b')"
proof -
  have sum: "size_add (bb_size b) n = bb_size b + n"
    using room_sum_small[OF assms] by (simp add: size_add_small)
  show ?thesis
  proof (cases "bb_size b + n \<le> bb_capacity b")
    case True
    then show ?thesis using assms sum by (simp add: ensure_size_def grown_def)
  next
    case False
    then have lim: "2 * bb_capacity b + n \<le> MAX_ALLOC" using assms(2) by (simp add: room_def)
    then have c: "size_add (size_mul (bb_capacity b) GROW_FACTOR) n = 2 * bb_capacity b + n"
      by (simp add: GROW_FACTOR_def size_mul_small size_add_small mult.commute)
    from assms(1) show ?thesis
    proof (cases rule: bb_ok_cases)
      case null
      with False sum c lim show ?thesis
        by (simp add: ensure_size_def new_char_simps grown_def)
           (simp add: bb_ok_def bytes_def null_buffer_def)
    next
      case (alloc xs junk)
      let ?c = "2 * (length xs + length junk) + n"
      have "mem_copy (Some (replicate ?c None)) 0 (Some (map Some xs @ junk)) 0 (length xs) =
            Inr (Some (map Some xs @ replicate (?c - length xs) None))"
        by (simp add: mem_copy_def)
      then have "ensure_size n b = Inr (rep xs (replicate (?c - length xs) None))"
        using False sum c lim alloc by (simp add: ensure_size_def new_char_simps rep_def)
      then show ?thesis using alloc False lim by (simp add: grown_def)
    qed
  qed
qed

lemma put_char_spec:
  assumes "bb_ok b" and "bb_size b < bb_capacity b"
  shows "succeeds (put_char c b)
           (\<lambda>b'. bb_ok b' \<and> bytes b' = bytes b @ [c] \<and> bb_capacity b' = bb_capacity b)"
  using assms(1)
proof (cases rule: bb_ok_cases)
  case null
  with assms show ?thesis by simp
next
  case (alloc xs junk)
  with assms(2) obtain j junk' where j: "junk = j # junk'" by (cases junk) auto
  have "size_add (length xs) 1 = Suc (length xs)"
    using alloc(2) j by (simp add: size_add_small)
  then have "put_char c b = Inr (rep (xs @ [c]) junk')"
    using alloc j by (simp add: put_char_def store_char_def rep_def list_update_append)
  then show ?thesis using alloc j by simp
qed

lemma put_chars_spec:
  assumes "bb_ok b" and "bb_size b + length s \<le> bb_capacity b"
  shows "succeeds (fold_res put_char s b)
           (\<lambda>b'. bb_ok b' \<and> bytes b' = bytes b @ s \<and> bb_capacity b' = bb_capacity b)"
  using assms
proof (induction s arbitrary: b)
  case Nil
  then show ?case by simp
next
  case (Cons c s)
  from Cons.prems have "succeeds (put_char c b)
      (\<lambda>b'. bb_ok b' \<and> bytes b' = bytes b @ [c] \<and> bb_capacity b' = bb_capacity b)"
    by (intro put_char_spec) simp_all
  then have "succeeds (put_char c b) (\<lambda>b1. succeeds (fold_res put_char s b1)
      (\<lambda>b'. bb_ok b' \<and> bytes b' = bytes b @ c # s \<and> bb_capacity b' = bb_capacity b))"
  proof (rule succeeds_mono)
    fix b1
    assume b1: "bb_ok b1 \<and> bytes b1 = bytes b @ [c] \<and> bb_capacity b1 = bb_capacity b"
    then have "bb_size b1 = Suc (bb_size b)"
      using Cons.prems(1) length_bytes[of b1] by simp
    with b1 Cons.prems show "succeeds (fold_res put_char s b1)
        (\<lambda>b'. bb_ok b' \<and> bytes b' = bytes b @ c # s \<and> bb_capacity b' = bb_capacity b)"
      using Cons.IH[of b1] by simp
  qed
  then show ?case by simp
qed

lemma append_string_spec:
  assumes "bb_ok b" and "room (length s) b"
  shows "succeeds (append_string s b) (extends_by s b)"
  unfolding append_string_def succeeds_bind
proof (rule succeeds_mono[OF ensure_size_spec[OF assms]])
  fix b1
  assume b1: "bb_ok b1 \<and> bytes b1 = bytes b \<and> bb_capacity b1 = grown (length s) b \<and>
              bb_size b1 + length s \<le> bb_capacity b1"
  then have "succeeds (fold_res put_char s b1)
      (\<lambda>b'. bb_ok b' \<and> bytes b' = bytes b1 @ s \<and> bb_capacity b' = bb_capacity b1)"
    by (intro put_chars_spec) simp_all
  then show "succeeds (fold_res put_char s b1) (extends_by s b)"
    by (rule succeeds_mono) (use b1 in \<open>simp add: extends_by_def\<close>)
qed

lemma append_char_eq: "append_char c b = append_string [c] b"
  by (simp add: append_char_def append_string_def del: fold_res.simps)

lemma append_memory_spec:
  assumes "bb_ok b" and "room (length s) b" and p: "readable p s"
  shows "succeeds (append_memory p (length s) b) (extends_by s b)"
  unfolding append_memory_def succeeds_bind
proof (rule succeeds_mono[OF ensure_size_spec[OF assms(1,2)]])
  fix b1
  assume b1: "bb_ok b1 \<and> bytes b1 = bytes b \<and> bb_capacity b1 = grown (length s) b \<and>
              bb_size b1 + length s \<le> bb_capacity b1"
  then have "bb_ok b1" by simp
  then show "succeeds (mem_copy (bb_data b1) (bb_size b1) p 0 (length s))
      (\<lambda>d. succeeds (Inr (b1\<lparr>bb_data := d, bb_size := size_add (bb_size b1) (length s)\<rparr>))
        (extends_by s b))"
  proof (cases rule: bb_ok_cases)
    case null
    with b1 show ?thesis by (auto simp: extends_by_def size_add_def)
  next
    case (alloc xs junk)
    with b1 have len: "length s \<le> length junk" by simp
    have sum: "size_add (length xs) (length s) = length (xs @ s)"
      using alloc(2) len by (simp add: size_add_small)
    have copy: "mem_copy (Some (map Some xs @ junk)) (length xs) p 0 (length s) =
        Inr (Some (map Some (xs @ s) @ drop (length s) junk))"
      using p len by (auto simp: readable_def mem_copy_def split: if_splits)
    have "extends_by s b (rep (xs @ s) (drop (length s) junk))"
      using alloc b1 len by (auto simp: extends_by_def)
    moreover have "length xs + length junk = length (xs @ s) + length (drop (length s) junk)"
      using len by simp
    ultimately show ?thesis
      unfolding alloc(1) rep_simps copy sum succeeds_simps by (simp only: rep_update)
  qed
qed

section \<open>A buffer as a sink of bytes\<close>

text \<open>
  \<open>fits N b\<close>: the buffer is well formed, holds at most \<open>N\<close> bytes, and its capacity is within the
  geometric growth that \<open>N\<close> bytes can cause. Below \<open>SINK_LIMIT\<close> (2^60 bytes) no append that stays
  within \<open>N\<close> can fail.
\<close>

definition SINK_LIMIT :: nat where "SINK_LIMIT = 2 ^ 60"

definition fits :: "nat \<Rightarrow> byte_buffer \<Rightarrow> bool" where
  "fits N b \<longleftrightarrow> bb_ok b \<and> bb_size b \<le> N \<and> N \<le> SINK_LIMIT \<and> bb_capacity b \<le> 3 * N + DEFAULT_SIZE"

lemma fits_room: "fits N b \<Longrightarrow> bb_size b + n \<le> N \<Longrightarrow> room n b"
  by (auto simp: fits_def room_def SINK_LIMIT_def MAX_ALLOC_def DEFAULT_SIZE_def)

lemma fits_extends:
  assumes "fits N b" and "bb_size b + length s \<le> N" and "extends_by s b b'"
  shows "fits N b' \<and> bytes b' = bytes b @ s"
proof -
  have "bb_ok b" "bb_ok b'" using assms by (simp_all add: fits_def extends_by_def)
  moreover have "bb_size b' = bb_size b + length s"
    using assms length_bytes[OF \<open>bb_ok b\<close>] length_bytes[OF \<open>bb_ok b'\<close>] by (simp add: extends_by_def)
  ultimately show ?thesis
    using assms by (auto simp: fits_def extends_by_def grown_def split: if_splits)
qed

lemma fits_size: "fits N b \<Longrightarrow> bb_size b = length (bytes b)"
  by (simp add: fits_def)

lemma fits_clear: "fits N b \<Longrightarrow> fits N (buffer_clear b) \<and> bytes (buffer_clear b) = []"
  by (auto simp: fits_def buffer_clear_def bb_ok_def bytes_def split: option.splits)

lemma fits_new: "N \<le> SINK_LIMIT \<Longrightarrow> succeeds (new_buffer 0) (\<lambda>b. fits N b \<and> bytes b = [])"
  by (simp add: new_buffer_def new_char_def DEFAULT_SIZE_def MAX_ALLOC_def fits_def bb_ok_def bytes_def)

locale byte_sink =
  fixes put :: "string \<Rightarrow> 'b \<Rightarrow> 'b result"
    and content :: "'b \<Rightarrow> string"
    and good :: "nat \<Rightarrow> 'b \<Rightarrow> bool"
  assumes put_ok: "good N b \<Longrightarrow> length (content b) + length s \<le> N \<Longrightarrow>
      succeeds (put s b) (\<lambda>b'. good N b' \<and> content b' = content b @ s)"
begin

lemma put_all:
  "good N b \<Longrightarrow> length (content b) + length (concat ss) \<le> N \<Longrightarrow>
   succeeds (fold_res put ss b) (\<lambda>b'. good N b' \<and> content b' = content b @ concat ss)"
proof (induction ss arbitrary: b)
  case Nil
  then show ?case by simp
next
  case (Cons s ss)
  from Cons.prems have "succeeds (put s b) (\<lambda>b'. good N b' \<and> content b' = content b @ s)"
    by (intro put_ok) simp_all
  then have "succeeds (put s b) (\<lambda>b1. succeeds (fold_res put ss b1)
      (\<lambda>b'. good N b' \<and> content b' = content b @ s @ concat ss))"
  proof (rule succeeds_mono)
    fix b1
    assume "good N b1 \<and> content b1 = content b @ s"
    with Cons.prems show "succeeds (fold_res put ss b1)
        (\<lambda>b'. good N b' \<and> content b' = content b @ s @ concat ss)"
      using Cons.IH[of b1] by simp
  qed
  then show ?case by simp
qed

lemma put_two:
  assumes "good N b" and "length (content b) + length s + length t \<le> N"
  shows "succeeds (bind_res (put s b) (put t)) (\<lambda>b'. good N b' \<and> content b' = content b @ s @ t)"
  using put_all[OF assms(1), of "[s, t]"] assms(2) by simp

end

interpretation str_sink: byte_sink append_string bytes fits
proof
  fix N b and s :: string
  assume fit: "fits N b" and len: "length (bytes b) + length s \<le> N"
  then have size: "bb_size b + length s \<le> N" by (simp add: fits_size)
  have "succeeds (append_string s b) (extends_by s b)"
    using fit size by (intro append_string_spec fits_room[of N]) (simp_all add: fits_def)
  then show "succeeds (append_string s b) (\<lambda>b'. fits N b' \<and> bytes b' = bytes b @ s)"
    by (rule succeeds_mono) (rule fits_extends[OF fit size])
qed

text \<open>The same contract for \<open>memcpy\<close> from any pointer at which the bytes are readable.\<close>

lemma memory_fits:
  assumes fit: "fits N b" and len: "length (bytes b) + length s \<le> N" and p: "readable p s"
  shows "succeeds (append_memory p (length s) b) (\<lambda>b'. fits N b' \<and> bytes b' = bytes b @ s)"
proof -
  have size: "bb_size b + length s \<le> N" using fit len by (simp add: fits_size)
  have "succeeds (append_memory p (length s) b) (extends_by s b)"
    using fit size p by (intro append_memory_spec fits_room[of N]) (simp_all add: fits_def)
  then show ?thesis by (rule succeeds_mono) (rule fits_extends[OF fit size])
qed

interpretation mem_sink: byte_sink "\<lambda>s. append_memory (Some (map Some s)) (length s)" bytes fits
  by unfold_locales (rule memory_fits, auto simp: readable_def)

section \<open>Removal, copies and comparison\<close>

lemma append_buffer_fits:
  assumes "fits N b" and "bb_ok x" and "length (bytes b) + length (bytes x) \<le> N"
  shows "succeeds (append_buffer x b) (\<lambda>b'. fits N b' \<and> bytes b' = bytes b @ bytes x)"
proof -
  have "readable (bb_data x) (bytes x)"
    using assms(2) by (cases rule: bb_ok_cases) (auto simp: readable_def)
  then show ?thesis
    using memory_fits[OF assms(1,3)] assms(2) by (simp add: append_buffer_def)
qed

lemma append_self_fits:
  assumes "fits N b" and len: "length (bytes b) + length (bytes b) \<le> N"
  shows "succeeds (append_self b) (\<lambda>b'. fits N b' \<and> bytes b' = bytes b @ bytes b)"
proof -
  have ok: "bb_ok b" and room: "room (bb_size b) b"
    using assms fits_room[of N b "bb_size b"] by (simp_all add: fits_def)
  have "succeeds (append_self b) (extends_by (bytes b) b)"
    unfolding append_self_def succeeds_bind
  proof (rule succeeds_mono[OF ensure_size_spec[OF ok room]])
    fix b1
    assume b1: "bb_ok b1 \<and> bytes b1 = bytes b \<and> bb_capacity b1 = grown (bb_size b) b \<and>
                bb_size b1 + bb_size b \<le> bb_capacity b1"
    then have ok1: "bb_ok b1" and size: "bb_size b1 = bb_size b"
      using length_bytes[of b1] ok by auto
    have "readable (bb_data b1) (bytes b1)"
      using ok1 by (cases rule: bb_ok_cases) (auto simp: readable_def)
    moreover have "room (bb_size b1) b1" using b1 size by (simp add: room_def)
    ultimately have "succeeds (append_memory (bb_data b1) (bb_size b1) b1) (extends_by (bytes b1) b1)"
      using append_memory_spec[OF ok1, of "bytes b1" "bb_data b1"] ok1 by simp
    moreover have "append_memory (bb_data b1) (bb_size b1) b1 =
        bind_res (mem_copy (bb_data b1) (bb_size b1) (bb_data b1) 0 (bb_size b1)) (\<lambda>d.
        Inr (b1\<lparr>bb_data := d, bb_size := size_add (bb_size b1) (bb_size b1)\<rparr>))"
      using b1 size ok1
      by (simp add: append_memory_def ensure_size_def size_add_small bb_ok_def)
    ultimately have "succeeds (mem_copy (bb_data b1) (bb_size b1) (bb_data b1) 0 (bb_size b1))
        (\<lambda>d. extends_by (bytes b1) b1 (b1\<lparr>bb_data := d, bb_size := size_add (bb_size b1) (bb_size b1)\<rparr>))"
      by simp
    then show "succeeds (mem_copy (bb_data b1) (bb_size b1) (bb_data b1) 0 (bb_size b1))
        (\<lambda>d. succeeds (Inr (b1\<lparr>bb_data := d, bb_size := size_add (bb_size b1) (bb_size b1)\<rparr>))
              (extends_by (bytes b) b))"
    proof (rule succeeds_mono)
      fix d
      assume "extends_by (bytes b1) b1 (b1\<lparr>bb_data := d, bb_size := size_add (bb_size b1) (bb_size b1)\<rparr>)"
      then show "succeeds (Inr (b1\<lparr>bb_data := d, bb_size := size_add (bb_size b1) (bb_size b1)\<rparr>))
              (extends_by (bytes b) b)"
        using b1 size length_bytes[OF ok] unfolding extends_by_def grown_def by simp
    qed
  qed
  then show ?thesis
    by (rule succeeds_mono) (rule fits_extends[OF assms(1)], use len ok in simp_all)
qed

lemma buffer_erase_spec:
  assumes "bb_ok b"
  shows "succeeds (buffer_erase i j b)
           (\<lambda>b'. bb_ok b' \<and> bb_capacity b' = bb_capacity b \<and> bb_size b' \<le> bb_size b \<and>
                 bytes b' = (if i < j \<and> j \<le> bb_size b then take i (bytes b) @ drop j (bytes b)
                             else bytes b))"
  using assms
proof (cases rule: bb_ok_cases)
  case null
  then show ?thesis by (auto simp: buffer_erase_def)
next
  case (alloc xs junk)
  show ?thesis
  proof (cases "i < j \<and> j \<le> length xs")
    case False
    then show ?thesis using alloc by (auto simp: buffer_erase_def)
  next
    case True
    show ?thesis
    proof (cases "j = length xs")
      case True
      have "b\<lparr>bb_size := i\<rparr> = rep (take i xs) (map Some (drop i xs) @ junk)"
        using \<open>i < j \<and> j \<le> length xs\<close> alloc(1)
        by (simp add: rep_def flip: append_assoc map_append)
      then have "buffer_erase i j b = Inr (rep (take i xs) (map Some (drop i xs) @ junk))"
        using \<open>i < j \<and> j \<le> length xs\<close> True alloc(1) by (simp add: buffer_erase_def)
      then show ?thesis using \<open>i < j \<and> j \<le> length xs\<close> True alloc by simp
    next
      case False
      let ?ys = "take i xs @ drop j xs" and ?j = "drop (i + (length xs - j)) (map Some xs @ junk)"
      have "mem_copy (Some (map Some xs @ junk)) i (Some (map Some xs @ junk)) j (length xs - j) =
            Inr (Some (map Some ?ys @ ?j))"
        using True False by (auto simp: mem_copy_def take_map drop_map)
      moreover have "length xs - (j - i) = length ?ys"
        using True by simp
      moreover have "length xs + length junk = length ?ys + length ?j"
        using \<open>i < j \<and> j \<le> length xs\<close> by simp
      ultimately have "buffer_erase i j b = Inr (rep ?ys ?j)"
        using True False alloc(1)
        unfolding buffer_erase_def rep_simps
        by (simp only: rep_simps bind_res.simps rep_update if_False not_le if_cancel simp_thms split: if_splits) linarith
      then show ?thesis using alloc True by auto
    qed
  qed
qed

lemma erase_fits:
  "fits N b \<Longrightarrow> succeeds (buffer_erase i j b)
     (\<lambda>b'. fits N b' \<and> bytes b' = (if i < j \<and> j \<le> length (bytes b)
                                  then take i (bytes b) @ drop j (bytes b) else bytes b))"
  by (rule succeeds_mono[OF buffer_erase_spec]) (auto simp: fits_def)

lemma data_at_readable:
  assumes "bb_ok b" and "pos \<le> bb_size b"
  shows "readable (data_at pos b) (drop pos (bytes b))"
  using assms(1)
proof (cases rule: bb_ok_cases)
  case null
  then show ?thesis by (simp add: readable_def)
next
  case (alloc xs junk)
  then show ?thesis using assms(2)
    by (auto simp: readable_def data_at_def drop_map)
qed

lemma buffer_of_spec:
  assumes "readable p s" and "p \<noteq> None" and "length s \<le> MAX_ALLOC"
  shows "succeeds (buffer_of p (length s)) (\<lambda>b. bb_ok b \<and> bytes b = s)"
proof (cases "s = []")
  case True
  then show ?thesis using assms(2)
    by (simp add: buffer_of_def new_buffer_def new_char_def DEFAULT_SIZE_def MAX_ALLOC_def bb_ok_def bytes_def)
next
  case False
  with assms(1) obtain d where "p = Some (map Some s @ d)" by (auto simp: readable_def)
  then have "buffer_of p (length s) = Inr (rep s [])"
    using assms(3) False
    by (simp add: buffer_of_def new_buffer_def new_char_def mem_copy_def rep_def Let_def)
  then show ?thesis using assms(3) by simp
qed

lemma copy_buffer_spec:
  assumes "bb_ok b" and "bb_data b \<noteq> None"
  shows "succeeds (copy_buffer b) (\<lambda>c. bb_ok c \<and> bytes c = bytes b)"
  using assms
proof (cases rule: bb_ok_cases)
  case (alloc xs junk)
  then have "readable (bb_data b) xs" by (auto simp: readable_def)
  with alloc show ?thesis using buffer_of_spec[of "bb_data b" xs] by (simp add: copy_buffer_def)
qed simp

lemma assign_copy_spec:
  assumes "bb_ok a" and "bb_ok b"
  shows "succeeds (assign_copy a b) (\<lambda>c. bb_ok c \<and> bytes c = bytes b)"
proof -
  have r: "readable (bb_data b) (bytes b)"
    using assms(2) by (cases rule: bb_ok_cases) (auto simp: readable_def)
  have lim: "bb_size b \<le> MAX_ALLOC" using assms(2) by (simp add: bb_ok_def)
  have copy: "succeeds (mem_copy (bb_data t) 0 (bb_data b) 0 (bb_size b))
      (\<lambda>d. bb_ok (t\<lparr>bb_data := d, bb_size := bb_size b\<rparr>) \<and>
           bytes (t\<lparr>bb_data := d, bb_size := bb_size b\<rparr>) = bytes b)"
    if t: "bb_size b \<le> bb_capacity t" "bb_capacity t \<le> MAX_ALLOC"
      and td: "case bb_data t of None \<Rightarrow> bb_capacity t = 0 | Some d \<Rightarrow> length d = bb_capacity t" for t
  proof (cases "bb_size b = 0")
    case True
    with t td assms(2) show ?thesis by (auto simp: bb_ok_def bytes_def split: option.splits)
  next
    case False
    with t td obtain d where d: "bb_data t = Some d" "length d = bb_capacity t"
      by (cases "bb_data t") auto
    obtain e where e: "bb_data b = Some (map Some (bytes b) @ e)"
      using assms(2) False by (cases rule: bb_ok_cases) auto
    have len: "length (bytes b) = bb_size b" using assms(2) by simp
    have "mem_copy (bb_data t) 0 (bb_data b) 0 (bb_size b) =
          Inr (Some (map Some (bytes b) @ drop (bb_size b) d))"
      using d e t(1) len by (auto simp: mem_copy_def)
    then show ?thesis using t d len by (simp add: bb_ok_def bytes_def comp_def)
  qed
  show ?thesis
  proof (cases "bb_capacity a < bb_size b")
    case True
    then show ?thesis
      using lim copy[of "a\<lparr>bb_data := Some (replicate (bb_size b) None), bb_capacity := bb_size b\<rparr>"]
      by (simp add: assign_copy_def new_char_def)
  next
    case False
    moreover have "case bb_data a of None \<Rightarrow> bb_capacity a = 0 | Some d \<Rightarrow> length d = bb_capacity a"
      using assms(1) by (auto simp: bb_ok_def split: option.splits)
    ultimately show ?thesis
      using assms(1) copy[of a] by (simp add: assign_copy_def bb_ok_def)
  qed
qed

lemma equal_loop_spec:
  assumes "bb_data a = Some (map Some xs @ ja)" and "bb_data b = Some (map Some ys @ jb)"
    and "i + n \<le> length xs" and "i + n \<le> length ys" and "i + n < INT_LIMIT"
  shows "equal_loop a b i n = Inr (take n (drop i xs) = take n (drop i ys))"
  using assms(3-5)
proof (induction n arbitrary: i)
  case 0
  then show ?case by simp
next
  case (Suc n)
  have "load_char (bb_data a) i = Inr (xs ! i)" "load_char (bb_data b) i = Inr (ys ! i)"
    using Suc.prems assms(1,2) by (simp_all add: load_char_def nth_append)
  moreover have "drop i xs = xs ! i # drop (Suc i) xs" "drop i ys = ys ! i # drop (Suc i) ys"
    using Suc.prems by (simp_all add: Cons_nth_drop_Suc)
  ultimately show ?case using Suc.IH[of "Suc i"] Suc.prems by simp
qed

lemma equals_spec:
  assumes "bb_ok a" and "bb_ok b" and "bb_size a < INT_LIMIT"
  shows "equals False a b = Inr (bytes a = bytes b)"
proof (cases "bb_size a = bb_size b")
  case False
  then have "bytes a \<noteq> bytes b" using assms(1,2) by (metis length_bytes)
  with False show ?thesis by (simp add: equals_def)
next
  case True
  have len: "length (bytes a) = bb_size a" "length (bytes b) = bb_size b"
    using assms(1,2) by simp_all
  show ?thesis
  proof (cases "bb_size a = 0")
    case zero: True
    then show ?thesis using True len by (simp add: equals_def)
  next
    case False
    obtain ja where a: "bb_data a = Some (map Some (bytes a) @ ja)"
      using assms(1) False by (cases rule: bb_ok_cases) auto
    obtain jb where b: "bb_data b = Some (map Some (bytes b) @ jb)"
      using assms(2) False True by (cases rule: bb_ok_cases) auto
    from equal_loop_spec[OF a b, of 0 "bb_size a"] show ?thesis
      using True len assms(3) by (simp add: equals_def)
  qed
qed

section \<open>Sequences of operations\<close>

text \<open>
  A client's use of one buffer: any sequence of its mutating operations. \<open>spec_op\<close> says what each
  does to the string the buffer stands for.
\<close>

datatype buffer_op =
    Put_char char
  | Put_string string
  | Put_cstr string
  | Put_int int
  | Put_buffer byte_buffer
  | Put_self
  | Clear
  | Erase nat nat

fun run_op :: "buffer_op \<Rightarrow> byte_buffer \<Rightarrow> byte_buffer result" where
  "run_op (Put_char c) b = append_char c b"
| "run_op (Put_string s) b = append_string s b"
| "run_op (Put_cstr s) b = append_cstr s b"
| "run_op (Put_int i) b = append_int i b"
| "run_op (Put_buffer x) b = append_buffer x b"
| "run_op Put_self b = append_self b"
| "run_op Clear b = Inr (buffer_clear b)"
| "run_op (Erase i j) b = buffer_erase i j b"

fun spec_op :: "buffer_op \<Rightarrow> string \<Rightarrow> string" where
  "spec_op (Put_char c) s = s @ [c]"
| "spec_op (Put_string t) s = s @ t"
| "spec_op (Put_cstr t) s = s @ takeWhile (\<lambda>c. c \<noteq> CHR 0x00) t"
| "spec_op (Put_int i) s = s @ to_string_int i"
| "spec_op (Put_buffer x) s = s @ bytes x"
| "spec_op Put_self s = s @ s"
| "spec_op Clear s = []"
| "spec_op (Erase i j) s = (if i < j \<and> j \<le> length s then take i s @ drop j s else s)"

fun op_arg_ok :: "buffer_op \<Rightarrow> bool" where
  "op_arg_ok (Put_buffer x) = bb_ok x"
| "op_arg_ok _ = True"

text \<open>No prefix of the sequence makes the string longer than \<open>N\<close>.\<close>

fun within :: "nat \<Rightarrow> buffer_op list \<Rightarrow> string \<Rightarrow> bool" where
  "within N [] s = True"
| "within N (p # ps) s = (op_arg_ok p \<and> length (spec_op p s) \<le> N \<and> within N ps (spec_op p s))"

lemma run_op_refines:
  assumes "fits N b" and "op_arg_ok p" and "length (spec_op p (bytes b)) \<le> N"
  shows "succeeds (run_op p b) (\<lambda>b'. fits N b' \<and> bytes b' = spec_op p (bytes b))"
proof (cases p)
  case (Erase i j)
  then show ?thesis using erase_fits[OF assms(1), of i j] by simp
qed (use assms in \<open>auto simp: append_char_eq append_cstr_def append_int_def fits_clear
           intro!: str_sink.put_ok append_buffer_fits append_self_fits\<close>)

lemma run_ops_refine:
  "fits N b \<Longrightarrow> within N ps (bytes b) \<Longrightarrow>
   succeeds (fold_res run_op ps b) (\<lambda>b'. fits N b' \<and> bytes b' = fold spec_op ps (bytes b))"
proof (induction ps arbitrary: b)
  case Nil
  then show ?case by simp
next
  case (Cons p ps)
  then have "succeeds (run_op p b) (\<lambda>b'. fits N b' \<and> bytes b' = spec_op p (bytes b))"
    by (intro run_op_refines) simp_all
  then have "succeeds (run_op p b) (\<lambda>b1. succeeds (fold_res run_op ps b1)
      (\<lambda>b'. fits N b' \<and> bytes b' = fold spec_op (p # ps) (bytes b)))"
  proof (rule succeeds_mono)
    fix b1
    assume "fits N b1 \<and> bytes b1 = spec_op p (bytes b)"
    with Cons.prems(2) Cons.IH[of b1]
    show "succeeds (fold_res run_op ps b1) (\<lambda>b'. fits N b' \<and> bytes b' = fold spec_op (p # ps) (bytes b))"
      by simp
  qed
  then show ?case by simp
qed

section \<open>Properties\<close>

text \<open>
  C14: Refinement of the buffer. Starting from a new buffer, any sequence of appends (characters,
  strings, C strings, integers, other buffers, the buffer itself), clears and erasures whose string
  never exceeds \<open>N\<close> bytes (\<open>N\<close> at most 2^60) runs without a fault, through every reallocation, and
  leaves exactly the string the operations describe, with a capacity of at most \<open>3 N + 1024\<close>.
\<close>

theorem buffer_refines_string:
  assumes "N \<le> SINK_LIMIT" and "within N ps []"
  shows "\<exists>b. bind_res (new_buffer 0) (fold_res run_op ps) = Inr b \<and> bb_ok b \<and>
             bytes b = fold spec_op ps [] \<and> bb_capacity b \<le> 3 * N + DEFAULT_SIZE"
proof -
  have "succeeds (bind_res (new_buffer 0) (fold_res run_op ps))
          (\<lambda>b. fits N b \<and> bytes b = fold spec_op ps [])"
    unfolding succeeds_bind
    by (rule succeeds_mono[OF fits_new[OF assms(1)]]) (use run_ops_refine assms(2) in fastforce)
  then show ?thesis by (auto simp: succeeds_iff fits_def)
qed

theorem buffer_refines_string_witness:
  "\<exists>b. bind_res (new_buffer 0) (fold_res run_op
         [Put_char CHR ''a'', Put_cstr ''bcde'', Put_int 1, Put_self, Erase 1 3]) = Inr b \<and> bb_ok b \<and>
       bytes b = ''ade1abcde1'' \<and> bb_capacity b \<le> 3 * 12 + DEFAULT_SIZE"
proof -
  have one: "to_string_int 1 = ''1''"
    by (simp add: to_string_int_def to_string_nat_def digits_in.simps digit_char_def)
  show ?thesis
    using buffer_refines_string[of 12 "[Put_char CHR ''a'', Put_cstr ''bcde'', Put_int 1, Put_self, Erase 1 3]"]
    by (simp add: SINK_LIMIT_def one)
qed

text \<open>
  Erasure. \<open>erase(first, last)\<close> on a well-formed buffer never faults: it removes exactly the
  bytes from \<open>first\<close> up to \<open>last\<close> when \<open>first < last <= size()\<close>, and otherwise changes nothing; the
  capacity stays.
\<close>

theorem erase_removes_range:
  assumes "bb_ok b"
  shows "\<exists>b'. buffer_erase first lst b = Inr b' \<and> bb_ok b' \<and> bb_capacity b' = bb_capacity b \<and>
              bytes b' = (if first < lst \<and> lst \<le> length (bytes b)
                          then take first (bytes b) @ drop lst (bytes b) else bytes b)"
  using buffer_erase_spec[OF assms, of first lst] assms by (auto simp: succeeds_iff)

theorem erase_removes_range_witness:
  "\<exists>b'. buffer_erase 1 3 (rep ''abcde'' [None]) = Inr b' \<and> bb_ok b' \<and> bytes b' = ''ade''"
  using erase_removes_range[of "rep ''abcde'' [None]" 1 3] by (auto simp: MAX_ALLOC_def)

text \<open>
  Comparison. \<open>operator==\<close> decides equality of the two byte strings for distinct buffers of less than
  2^31 bytes, and for a buffer compared with itself.
\<close>

theorem equals_decides_bytes:
  assumes "bb_ok a" and "bb_ok b" and "bb_size a < INT_LIMIT"
  shows "equals False a b = Inr (bytes a = bytes b) \<and> equals True a a = Inr (bytes a = bytes a)"
  using equals_spec[OF assms] by (simp add: equals_def)

theorem equals_decides_bytes_witness:
  "equals False (rep ''12'' [None]) (rep ''12'' []) = Inr True \<and>
   equals False (rep ''12'' []) (rep ''12a'' []) = Inr False"
  using equals_decides_bytes[of "rep ''12'' [None]" "rep ''12'' []"]
    equals_decides_bytes[of "rep ''12'' []" "rep ''12a'' []"]
  by (simp add: MAX_ALLOC_def INT_LIMIT_def)

text \<open>
  Moved-from buffers. Moving a buffer hands its string to the new one and leaves an empty buffer
  that may be appended to again (the first append allocates), but copying it ends in the failed
  assertion of the pointer constructor.
\<close>

theorem moved_from_buffer:
  assumes "bb_ok b" and "length s \<le> SINK_LIMIT"
  shows "bytes (fst (move_buffer b)) = bytes b \<and> bb_ok (fst (move_buffer b)) \<and>
         copy_buffer (snd (move_buffer b)) = Inl Assertion_Failed \<and>
         (\<exists>b'. append_string s (snd (move_buffer b)) = Inr b' \<and> bb_ok b' \<and> bytes b' = s)"
proof -
  have fst: "fst (move_buffer b) = b" and snd: "snd (move_buffer b) = null_buffer"
    by (simp_all add: move_buffer_def null_buffer_def)
  have copy: "copy_buffer null_buffer = Inl Assertion_Failed"
    by (simp add: copy_buffer_def buffer_of_def new_buffer_def new_char_def DEFAULT_SIZE_def MAX_ALLOC_def)
  have "fits SINK_LIMIT null_buffer" by (simp add: fits_def)
  from str_sink.put_ok[OF this, of s] assms show ?thesis
    by (auto simp: fst snd copy succeeds_iff fits_def)
qed

theorem moved_from_buffer_witness:
  "bytes (fst (move_buffer (rep ''x'' []))) = ''x'' \<and>
   copy_buffer (snd (move_buffer (rep ''x'' []))) = Inl Assertion_Failed \<and>
   (\<exists>b'. append_string ''yz'' (snd (move_buffer (rep ''x'' []))) = Inr b' \<and> bytes b' = ''yz'')"
  using moved_from_buffer[of "rep ''x'' []" "''yz''"] by (auto simp: MAX_ALLOC_def SINK_LIMIT_def)

end
