(* ===== verification/HttpMessage.thy ===== *)
theory HttpMessage
  imports ByteBuffer
begin

text \<open>
  The message objects of \<open>include/x/message/\<close>: \<open>message\<close>, \<open>http_message\<close>, \<open>http_request\<close> and
  \<open>http_response\<close>. The members of the base class are a record; the members a derived class adds are
  one of its fields, so a \<open>dynamic_cast\<close> is a case distinction on that field.
\<close>

section \<open>The header container\<close>

text \<open>
  \<open>std::map<std::string, std::string>\<close>: an association list in the order of its keys (the order of
  \<open>std::string::operator<\<close>, lexicographic on unsigned bytes), which is also the order of iteration.
  \<open>insert\<close> does not change an entry that is already there.
\<close>

type_synonym header_map = "(string \<times> string) list"

fun map_insert :: "string \<Rightarrow> string \<Rightarrow> header_map \<Rightarrow> header_map" where
  "map_insert k v [] = [(k, v)]"
| "map_insert k v ((k', v') # m) =
     (if k < k' then (k, v) # (k', v') # m
      else if k = k' then (k', v') # m
      else (k', v') # map_insert k v m)"

text \<open>The loop of \<open>find_header\<close>: the value of the first entry with that name.\<close>

fun lookup_header :: "header_map \<Rightarrow> string \<Rightarrow> string option" where
  "lookup_header [] name = None"
| "lookup_header ((k, v) # m) name = (if k = name then Some v else lookup_header m name)"

definition headers_ok :: "header_map \<Rightarrow> bool" where
  "headers_ok m \<longleftrightarrow> sorted_wrt (<) (map fst m)"

text \<open>The interface of a container whose \<open>insert\<close> keeps the first value given for a key.\<close>

locale insert_once =
  fixes ins :: "'k \<Rightarrow> 'v \<Rightarrow> 'm \<Rightarrow> 'm"
    and look :: "'m \<Rightarrow> 'k \<Rightarrow> 'v option"
    and valid :: "'m \<Rightarrow> bool"
  assumes ins_valid: "valid m \<Longrightarrow> valid (ins k v m)"
    and look_ins: "valid m \<Longrightarrow>
      look (ins k v m) k' = (if k' = k \<and> look m k = None then Some v else look m k')"
begin

definition ins_all :: "('k \<times> 'v) list \<Rightarrow> 'm \<Rightarrow> 'm" where
  "ins_all kvs m = fold (\<lambda>(k, v). ins k v) kvs m"

lemma ins_all_valid: "valid m \<Longrightarrow> valid (ins_all kvs m)"
  by (induction kvs arbitrary: m) (auto simp: ins_all_def ins_valid)

lemma look_ins_all:
  "valid m \<Longrightarrow> look (ins_all kvs m) k = (case look m k of Some v \<Rightarrow> Some v | None \<Rightarrow> map_of kvs k)"
proof (induction kvs arbitrary: m)
  case Nil
  then show ?case by (simp add: ins_all_def split: option.splits)
next
  case (Cons kv kvs)
  obtain k1 v1 where kv: "kv = (k1, v1)" by (cases kv)
  have "look (ins_all (kv # kvs) m) k =
        (case look (ins k1 v1 m) k of Some v \<Rightarrow> Some v | None \<Rightarrow> map_of kvs k)"
    using Cons.IH[OF ins_valid[OF Cons.prems]] by (simp add: ins_all_def kv)
  then show ?case
    using Cons.prems by (auto simp: kv look_ins split: option.splits)
qed

end

lemma map_insert_keys: "fst ` set (map_insert k v m) = insert k (fst ` set m)"
  by (induction k v m rule: map_insert.induct) (simp_all add: insert_commute)

lemma map_insert_ok:
  assumes "headers_ok m"
  shows "headers_ok (map_insert k v m)"
  using assms
proof (induction m)
  case Nil
  then show ?case by (simp add: headers_ok_def)
next
  case (Cons kv m)
  obtain k1 v1 where kv: "kv = (k1, v1)" by (cases kv)
  have first: "\<forall>x \<in> fst ` set m. k1 < x" and ok: "headers_ok m"
    using Cons.prems by (auto simp: headers_ok_def kv)
  from Cons.IH[OF ok] have "headers_ok (map_insert k v m)" .
  moreover have "k1 < k \<Longrightarrow> \<forall>x \<in> fst ` set (map_insert k v m). k1 < x"
    using first by (auto simp: map_insert_keys)
  ultimately show ?case
    using Cons.prems by (auto simp: headers_ok_def kv dest: less_trans)
qed

lemma lookup_header_less: "headers_ok ((k', v') # m) \<Longrightarrow> k < k' \<Longrightarrow> lookup_header ((k', v') # m) k = None"
proof (induction m)
  case Nil
  then show ?case by auto
next
  case (Cons kv m)
  then show ?case by (cases kv) (auto simp: headers_ok_def)
qed

lemma lookup_map_insert:
  "headers_ok m \<Longrightarrow> lookup_header (map_insert k v m) k' =
     (if k' = k \<and> lookup_header m k = None then Some v else lookup_header m k')"
proof (induction m)
  case Nil
  then show ?case by simp
next
  case (Cons kv m)
  obtain k1 v1 where kv: "kv = (k1, v1)" by (cases kv)
  have ok: "headers_ok m" using Cons.prems by (simp add: headers_ok_def)
  show ?case
  proof (cases "k < k1")
    case True
    then show ?thesis
      using lookup_header_less[of k1 v1 m k] Cons.prems by (auto simp: kv)
  next
    case False
    then show ?thesis using Cons.IH[OF ok] by (auto simp: kv)
  qed
qed

interpretation header_store: insert_once map_insert lookup_header headers_ok
  by unfold_locales (simp_all add: map_insert_ok lookup_map_insert)

section \<open>Messages\<close>

datatype derived_part =
    Request_part (req_method: string) (req_uri: string)
  | Response_part (resp_status: nat) (resp_message: string)

record http_message =
  major_version :: int
  minor_version :: int
  headers_done :: bool
  message_done :: bool
  headers :: header_map
  body :: byte_buffer
  derived :: derived_part

definition new_message :: "derived_part \<Rightarrow> http_message result" where
  "new_message p = bind_res (new_buffer 0) (\<lambda>b.
     Inr \<lparr>major_version = 0, minor_version = 0, headers_done = False, message_done = False,
          headers = [], body = b, derived = p\<rparr>)"

definition new_request :: "http_message result" where
  "new_request = new_message (Request_part [] [])"

definition new_response :: "http_message result" where
  "new_response = new_message (Response_part 0 [])"

fun reset_derived :: "derived_part \<Rightarrow> derived_part" where
  "reset_derived (Request_part m u) = Request_part [] []"
| "reset_derived (Response_part s t) = Response_part 0 []"

definition reset_message :: "http_message \<Rightarrow> http_message" where
  "reset_message m = m\<lparr>major_version := 0, minor_version := 0, headers_done := False,
     message_done := False, headers := [], body := buffer_clear (body m),
     derived := reset_derived (derived m)\<rparr>"

text \<open>The setters of the base class and of the two derived ones.\<close>

definition set_major_version :: "int \<Rightarrow> http_message \<Rightarrow> http_message" where
  [simp]: "set_major_version version m = m\<lparr>major_version := version\<rparr>"

definition set_minor_version :: "int \<Rightarrow> http_message \<Rightarrow> http_message" where
  [simp]: "set_minor_version version m = m\<lparr>minor_version := version\<rparr>"

definition headers_completed :: "bool \<Rightarrow> http_message \<Rightarrow> http_message" where
  [simp]: "headers_completed b m = m\<lparr>headers_done := b\<rparr>"

definition message_completed :: "bool \<Rightarrow> http_message \<Rightarrow> http_message" where
  [simp]: "message_completed b m = m\<lparr>message_done := b\<rparr>"

fun set_method :: "string \<Rightarrow> derived_part \<Rightarrow> derived_part" where
  "set_method x (Request_part meth u) = Request_part x u"
| "set_method x (Response_part s t) = Response_part s t"

fun set_uri :: "string \<Rightarrow> derived_part \<Rightarrow> derived_part" where
  "set_uri x (Request_part meth u) = Request_part meth x"
| "set_uri x (Response_part s t) = Response_part s t"

fun set_status :: "nat \<Rightarrow> derived_part \<Rightarrow> derived_part" where
  "set_status x (Response_part s t) = Response_part x t"
| "set_status x (Request_part meth u) = Request_part meth u"

fun set_message :: "string \<Rightarrow> derived_part \<Rightarrow> derived_part" where
  "set_message x (Response_part s t) = Response_part s x"
| "set_message x (Request_part meth u) = Request_part meth u"

definition completed :: "http_message \<Rightarrow> bool" where
  "completed m = message_done m"

fun deliverable_part :: "derived_part \<Rightarrow> bool \<Rightarrow> bool" where
  "deliverable_part (Request_part m u) c = c"
| "deliverable_part (Response_part s t) c = True"

definition deliverable :: "http_message \<Rightarrow> bool" where
  "deliverable m = deliverable_part (derived m) (completed m)"

definition find_header :: "http_message \<Rightarrow> string \<Rightarrow> string option" where
  "find_header m name = lookup_header (headers m) name"

definition add_header :: "string \<Rightarrow> string \<Rightarrow> http_message \<Rightarrow> http_message" where
  "add_header k v m = m\<lparr>headers := map_insert k v (headers m)\<rparr>"

definition append_body_data :: "pointer \<Rightarrow> nat \<Rightarrow> http_message \<Rightarrow> http_message result" where
  "append_body_data p n m =
     bind_res (append_wrapper (wrap p n) (body m)) (\<lambda>b. Inr (m\<lparr>body := b\<rparr>))"

definition append_body_string :: "string \<Rightarrow> http_message \<Rightarrow> http_message result" where
  "append_body_string s m = bind_res (append_string s (body m)) (\<lambda>b. Inr (m\<lparr>body := b\<rparr>))"

text \<open>
  \<open>dynamic_cast<http_request *>\<close> followed by its assertion and the two setters, and the same for a
  response.
\<close>

definition set_method_uri :: "string \<Rightarrow> string \<Rightarrow> http_message \<Rightarrow> http_message result" where
  "set_method_uri meth u m =
     (case derived m of Request_part _ _ \<Rightarrow> Inr (m\<lparr>derived := set_uri u (set_method meth (derived m))\<rparr>)
      | Response_part _ _ \<Rightarrow> Inl Assertion_Failed)"

definition set_status_message :: "nat \<Rightarrow> string \<Rightarrow> http_message \<Rightarrow> http_message result" where
  "set_status_message s t m =
     (case derived m of Response_part _ _ \<Rightarrow> Inr (m\<lparr>derived := set_message t (set_status s (derived m))\<rparr>)
      | Request_part _ _ \<Rightarrow> Inl Assertion_Failed)"

datatype response_type = SSL_REPLY

definition make_response :: "response_type \<Rightarrow> http_message result" where
  "make_response t = bind_res new_response (\<lambda>r.
     case t of SSL_REPLY \<Rightarrow>
       bind_res (set_status_message 200 ''Connection Established''
                  (set_minor_version 1 (set_major_version 1 r))) (\<lambda>r1.
       Inr (message_completed True (headers_completed True
             (add_header ''Proxy-Connection'' ''keep-alive''
              (add_header ''Connection'' ''keep-alive''
               (add_header ''Content-Length'' ''0'' r1)))))))"

section \<open>Invariant\<close>

definition msg_ok :: "nat \<Rightarrow> http_message \<Rightarrow> bool" where
  "msg_ok N m \<longleftrightarrow> headers_ok (headers m) \<and> fits N (body m)"

definition body_text :: "http_message \<Rightarrow> string" where
  "body_text m = bytes (body m)"

lemma add_header_simps [simp]:
  "body (add_header k v m) = body m" "derived (add_header k v m) = derived m"
  "headers_done (add_header k v m) = headers_done m" "message_done (add_header k v m) = message_done m"
  "major_version (add_header k v m) = major_version m" "minor_version (add_header k v m) = minor_version m"
  "headers (add_header k v m) = map_insert k v (headers m)"
  by (simp_all add: add_header_def)

lemma add_header_ok [simp]: "msg_ok N m \<Longrightarrow> msg_ok N (add_header k v m)"
  by (simp add: msg_ok_def map_insert_ok)

lemma reset_message_ok [simp]: "msg_ok N m \<Longrightarrow> msg_ok N (reset_message m)"
  by (simp add: msg_ok_def reset_message_def headers_ok_def fits_clear)

lemma new_message_ok:
  "N \<le> SINK_LIMIT \<Longrightarrow> succeeds (new_message p)
     (\<lambda>m. msg_ok N m \<and> body_text m = [] \<and> headers m = [] \<and> derived m = p \<and>
          \<not> headers_done m \<and> \<not> message_done m \<and> major_version m = 0 \<and> minor_version m = 0)"
  unfolding new_message_def succeeds_bind
  by (rule succeeds_mono[OF fits_new]) (simp_all add: msg_ok_def headers_ok_def body_text_def)

text \<open>Appending to the body changes nothing but the body.\<close>

definition only_body :: "http_message \<Rightarrow> http_message \<Rightarrow> bool" where
  "only_body m m' \<longleftrightarrow> (\<exists>b. m' = m\<lparr>body := b\<rparr>)"

lemma append_body_string_fits:
  assumes "msg_ok N m" and "length (body_text m) + length s \<le> N"
  shows "succeeds (append_body_string s m) (\<lambda>m'. msg_ok N m' \<and> only_body m m' \<and>
           body_text m' = body_text m @ s)"
proof -
  have "succeeds (append_string s (body m)) (\<lambda>b. fits N b \<and> bytes b = bytes (body m) @ s)"
    using assms by (intro str_sink.put_ok) (simp_all add: msg_ok_def body_text_def)
  then show ?thesis
    unfolding append_body_string_def succeeds_bind
    by (rule succeeds_mono) (use assms(1) in \<open>auto simp: msg_ok_def body_text_def only_body_def\<close>)
qed

lemma append_body_data_fits:
  assumes "msg_ok N m" and "length (body_text m) + length s \<le> N" and "readable p s"
  shows "succeeds (append_body_data p (length s) m) (\<lambda>m'. msg_ok N m' \<and> only_body m m' \<and>
           body_text m' = body_text m @ s)"
proof -
  have "succeeds (append_wrapper (wrap p (length s)) (body m))
          (\<lambda>b. fits N b \<and> bytes b = bytes (body m) @ s)"
    using assms memory_fits[of N "body m" s p]
    by (simp add: append_wrapper_def wrap_def msg_ok_def body_text_def)
  then show ?thesis
    unfolding append_body_data_def succeeds_bind
    by (rule succeeds_mono) (use assms(1) in \<open>auto simp: msg_ok_def body_text_def only_body_def\<close>)
qed

section \<open>Properties\<close>

text \<open>
  Insert and lookup of headers. After a list of \<open>add_header\<close> calls on a message with no headers,
  \<open>find_header\<close> returns the first value that was added under the name and fails for every name that
  was never added; the container stays sorted by name with no duplicate, whatever the calls.
\<close>

theorem find_header_after_adds:
  assumes "headers m = []"
  shows "find_header (fold (\<lambda>(k, v). add_header k v) kvs m) name = map_of kvs name \<and>
         headers_ok (headers (fold (\<lambda>(k, v). add_header k v) kvs m))"
proof -
  have "headers (fold (\<lambda>(k, v). add_header k v) kvs m) = header_store.ins_all kvs (headers m)" for m
    by (induction kvs arbitrary: m) (auto simp: header_store.ins_all_def)
  moreover have "headers_ok []" by (simp add: headers_ok_def)
  ultimately show ?thesis
    using assms header_store.look_ins_all[of "[]" kvs name] header_store.ins_all_valid[of "[]" kvs]
    by (simp add: find_header_def)
qed

theorem find_header_after_adds_witness:
  "find_header (fold (\<lambda>(k, v). add_header k v)
      [(''Host'', ''a''), (''Accept'', ''b''), (''Host'', ''c'')]
      \<lparr>major_version = 0, minor_version = 0, headers_done = False, message_done = False,
       headers = [], body = null_buffer, derived = Request_part [] []\<rparr>) ''Host'' = Some ''a''"
  using find_header_after_adds[of "\<lparr>major_version = 0, minor_version = 0, headers_done = False,
       message_done = False, headers = [], body = null_buffer, derived = Request_part [] []\<rparr>"
       "[(''Host'', ''a''), (''Accept'', ''b''), (''Host'', ''c'')]" "''Host''"]
  by simp

text \<open>
  Reuse of a message object. \<open>reset()\<close> on a well-formed message of either class gives a message
  that differs from a newly constructed one of that class only in the allocation its empty body
  keeps: same flags, versions, headers, derived members and body bytes.
\<close>

theorem reset_message_is_fresh:
  assumes "msg_ok N m" and "N \<le> SINK_LIMIT"
  shows "\<exists>fresh b. new_message (reset_derived (derived m)) = Inr fresh \<and>
           reset_message m = fresh\<lparr>body := b\<rparr> \<and> bytes b = bytes (body fresh) \<and> fits N b"
proof -
  obtain b where b: "new_buffer 0 = Inr b" "bytes b = []"
    using fits_new[OF assms(2)] by (auto simp: succeeds_iff)
  let ?fresh = "\<lparr>major_version = 0, minor_version = 0, headers_done = False, message_done = False,
          headers = [], body = b, derived = reset_derived (derived m)\<rparr>"
  have "new_message (reset_derived (derived m)) = Inr ?fresh"
    using b(1) by (simp add: new_message_def)
  moreover have "reset_message m = ?fresh\<lparr>body := buffer_clear (body m)\<rparr>"
    by (simp add: reset_message_def)
  moreover have "bytes (buffer_clear (body m)) = [] \<and> fits N (buffer_clear (body m))"
    using assms(1) fits_clear[of N "body m"] by (simp add: msg_ok_def)
  ultimately show ?thesis using b(2) by fastforce
qed

theorem reset_message_is_fresh_witness:
  "\<exists>fresh b. new_message (Response_part 0 []) = Inr fresh \<and>
     reset_message \<lparr>major_version = 1, minor_version = 1, headers_done = True, message_done = True,
       headers = [(''A'', ''b'')], body = rep ''xyz'' [], derived = Response_part 404 ''Not Found''\<rparr> =
     fresh\<lparr>body := b\<rparr> \<and> bytes b = bytes (body fresh)"
  using reset_message_is_fresh[of 10 "\<lparr>major_version = 1, minor_version = 1, headers_done = True,
       message_done = True, headers = [(''A'', ''b'')], body = rep ''xyz'' [],
       derived = Response_part 404 ''Not Found''\<rparr>"]
  by (simp add: msg_ok_def headers_ok_def fits_def SINK_LIMIT_def MAX_ALLOC_def DEFAULT_SIZE_def) metis

end
