(* ===== verification/HttpEncoder.thy ===== *)
theory HttpEncoder
  imports HttpMessage
begin

text \<open>
  The message encoder: \<open>include/x/codec/http/http_encoder.hpp\<close> and \<open>src/http_encoder.cpp\<close>. It is a
  state machine that is called once per piece of a message that has arrived and writes the part of
  the message not yet written. The lemmas show that what the calls write is always a prefix of the
  message's serialisation and that together they write all of it.
\<close>

section \<open>State\<close>

datatype parser_type = HTTP_REQUEST | HTTP_RESPONSE

datatype encode_state = BEGIN | FIRST_LINE | HEADERS | BODY | END

text \<open>The states in the order of the enumeration, which is the order they are passed in.\<close>

primrec state_rank :: "encode_state \<Rightarrow> nat" where
  "state_rank BEGIN = 0"
| "state_rank FIRST_LINE = 1"
| "state_rank HEADERS = 2"
| "state_rank BODY = 3"
| "state_rank END = 4"

instantiation encode_state :: linorder
begin

definition less_eq_encode_state :: "encode_state \<Rightarrow> encode_state \<Rightarrow> bool" where
  "less_eq_encode_state a b \<longleftrightarrow> state_rank a \<le> state_rank b"

definition less_encode_state :: "encode_state \<Rightarrow> encode_state \<Rightarrow> bool" where
  "less_encode_state a b \<longleftrightarrow> state_rank a < state_rank b"

instance
proof
  fix a b :: encode_state
  assume "a \<le> b" and "b \<le> a"
  then show "a = b" by (cases a; cases b) (simp_all add: less_eq_encode_state_def)
qed (auto simp: less_eq_encode_state_def less_encode_state_def)

end

record http_encoder =
  enc_type :: parser_type
  enc_state :: encode_state
  body_encoded :: nat

definition new_encoder :: "parser_type \<Rightarrow> http_encoder" where
  "new_encoder t = \<lparr>enc_type = t, enc_state = BEGIN, body_encoded = 0\<rparr>"

definition reset_encoder :: "http_encoder \<Rightarrow> http_encoder" where
  "reset_encoder e = e\<lparr>enc_state := BEGIN, body_encoded := 0\<rparr>"

section \<open>Encoding\<close>

definition CRLF :: string where "CRLF = [CHR 0x0D, CHR 0x0A]"

type_synonym encode_result = "http_encoder \<times> byte_buffer \<times> nat"

definition first_line_text :: "parser_type \<Rightarrow> http_message \<Rightarrow> string result" where
  "first_line_text t m =
     (if t = HTTP_REQUEST then
        (case derived m of
           Request_part meth u \<Rightarrow>
             Inr (meth @ '' '' @ u @ '' '' @ ''HTTP/'' @ to_string_int (major_version m) @ ''.'' @
                  to_string_int (minor_version m) @ CRLF)
         | Response_part _ _ \<Rightarrow> Inl Assertion_Failed)
      else
        (case derived m of
           Response_part s t \<Rightarrow>
             Inr (''HTTP/'' @ to_string_int (major_version m) @ ''.'' @ to_string_int (minor_version m) @
                  '' '' @ to_string_nat s @ '' '' @ t @ CRLF)
         | Request_part _ _ \<Rightarrow> Inl Assertion_Failed))"

definition encode_first_line :: "http_message \<Rightarrow> http_encoder \<Rightarrow> byte_buffer \<Rightarrow> encode_result result" where
  "encode_first_line m e b =
     bind_res (assert_that (headers_done m)) (\<lambda>_.
     bind_res (assert_that (enc_state e = BEGIN)) (\<lambda>_.
     bind_res (first_line_text (enc_type e) m) (\<lambda>l.
     bind_res (append_string l b) (\<lambda>b'.
     Inr (e\<lparr>enc_state := FIRST_LINE\<rparr>, b', length l)))))"

definition put_header :: "string \<times> string \<Rightarrow> byte_buffer \<Rightarrow> byte_buffer result" where
  "put_header h b =
     bind_res (append_string (fst h) b) (\<lambda>b1.
     bind_res (append_cstr '': '' b1) (\<lambda>b2.
     bind_res (append_string (snd h) b2) (append_cstr CRLF)))"

definition encode_headers :: "http_message \<Rightarrow> http_encoder \<Rightarrow> byte_buffer \<Rightarrow> encode_result result" where
  "encode_headers m e b =
     bind_res (assert_that (headers_done m)) (\<lambda>_.
     bind_res (assert_that (enc_state e = FIRST_LINE)) (\<lambda>_.
     bind_res (fold_res put_header (headers m) b) (\<lambda>b1.
     bind_res (append_cstr CRLF b1) (\<lambda>b2.
     Inr (e\<lparr>enc_state := HEADERS\<rparr>, b2, size_sub (bb_size b2) (bb_size b))))))"

definition encode_body :: "http_message \<Rightarrow> http_encoder \<Rightarrow> byte_buffer \<Rightarrow> encode_result result" where
  "encode_body m e b =
     bind_res (assert_that (headers_done m)) (\<lambda>_.
     bind_res (assert_that (enc_state e = HEADERS \<or> enc_state e = BODY)) (\<lambda>_.
     let inc = size_sub (bb_size (body m)) (body_encoded e) in
     bind_res (append_wrapper (wrap (data_at (body_encoded e) (body m)) inc) b) (\<lambda>b'.
     Inr (e\<lparr>body_encoded := size_add (body_encoded e) inc,
            enc_state := (if completed m then END else BODY)\<rparr>, b', inc))))"

definition encode :: "http_message \<Rightarrow> http_encoder \<Rightarrow> byte_buffer \<Rightarrow> encode_result result" where
  "encode m e b =
     (if \<not> headers_done m then Inr (e, b, 0)
      else case enc_state e of
        BEGIN \<Rightarrow>
          bind_res (encode_first_line m e b) (\<lambda>(e1, b1, n1).
          bind_res (encode_headers m e1 b1) (\<lambda>(e2, b2, n2).
          bind_res (encode_body m e2 b2) (\<lambda>(e3, b3, n3).
          Inr (e3, b3, size_add (size_add n1 n2) n3))))
      | FIRST_LINE \<Rightarrow>
          bind_res (encode_headers m e b) (\<lambda>(e2, b2, n2).
          bind_res (encode_body m e2 b2) (\<lambda>(e3, b3, n3).
          Inr (e3, b3, size_add n2 n3)))
      | HEADERS \<Rightarrow> encode_body m e b
      | BODY \<Rightarrow> encode_body m e b
      | END \<Rightarrow> Inr (e, b, 0))"

section \<open>Specification\<close>

definition start_line :: "http_message \<Rightarrow> string" where
  "start_line m =
     (case derived m of
        Request_part meth u \<Rightarrow>
          meth @ '' '' @ u @ '' HTTP/'' @ to_string_int (major_version m) @ ''.'' @
          to_string_int (minor_version m) @ CRLF
      | Response_part s t \<Rightarrow>
          ''HTTP/'' @ to_string_int (major_version m) @ ''.'' @ to_string_int (minor_version m) @
          '' '' @ to_string_nat s @ '' '' @ t @ CRLF)"

definition header_line :: "string \<times> string \<Rightarrow> string" where
  "header_line h = fst h @ '': '' @ snd h @ CRLF"

definition header_block :: "http_message \<Rightarrow> string" where
  "header_block m = concat (map header_line (headers m)) @ CRLF"

definition serialize :: "http_message \<Rightarrow> string" where
  "serialize m = start_line m @ header_block m @ body_text m"

fun matches :: "parser_type \<Rightarrow> derived_part \<Rightarrow> bool" where
  "matches HTTP_REQUEST (Request_part _ _) = True"
| "matches HTTP_RESPONSE (Response_part _ _) = True"
| "matches _ _ = False"

text \<open>What the encoder in its present state has written of a message so far.\<close>

definition emitted :: "http_encoder \<Rightarrow> http_message \<Rightarrow> string" where
  "emitted e m =
     (case enc_state e of
        BEGIN \<Rightarrow> []
      | FIRST_LINE \<Rightarrow> start_line m
      | HEADERS \<Rightarrow> start_line m @ header_block m
      | BODY \<Rightarrow> start_line m @ header_block m @ take (body_encoded e) (body_text m)
      | END \<Rightarrow> serialize m)"

definition enc_ok :: "http_encoder \<Rightarrow> http_message \<Rightarrow> bool" where
  "enc_ok e m \<longleftrightarrow> matches (enc_type e) (derived m) \<and> body_encoded e \<le> length (body_text m) \<and>
     (enc_state e \<in> {BEGIN, FIRST_LINE, HEADERS} \<longrightarrow> body_encoded e = 0) \<and>
     (enc_state e = END \<longrightarrow> completed m \<and> body_encoded e = length (body_text m))"

lemma first_line_text_matches:
  "matches (enc_type e) (derived m) \<Longrightarrow> first_line_text (enc_type e) m = Inr (start_line m)"
  by (cases "enc_type e"; cases "derived m") (simp_all add: first_line_text_def start_line_def)

lemma append_cstr_plain: "CHR 0x00 \<notin> set s \<Longrightarrow> append_cstr s = append_string s"
proof (rule ext)
  fix b
  assume "CHR 0x00 \<notin> set s"
  then have "takeWhile (\<lambda>c. c \<noteq> CHR 0x00) s = s" by (auto simp: takeWhile_eq_all_conv)
  then show "append_cstr s b = append_string s b" by (simp only: append_cstr_def)
qed

lemma append_cstr_literals:
  "append_cstr '': '' = append_string '': ''" "append_cstr CRLF = append_string CRLF"
  by (simp_all add: append_cstr_plain CRLF_def)

definition header_pieces :: "string \<times> string \<Rightarrow> string list" where
  "header_pieces h = [fst h, '': '', snd h, CRLF]"

lemma put_header_eq: "put_header h = fold_res append_string (header_pieces h)"
  by (rule ext)
     (simp add: put_header_def append_cstr_literals header_pieces_def fold_res_Cons_fun fold_res_Nil_fun)

lemma put_headers_eq:
  "fold_res put_header hs b = fold_res append_string (concat (map header_pieces hs)) b"
proof (induction hs arbitrary: b)
  case (Cons h hs)
  have "fold_res put_header hs = fold_res append_string (concat (map header_pieces hs))"
    by (rule ext) (rule Cons.IH)
  then show ?case by (simp add: put_header_eq[of h] fold_res_append)
qed simp

lemma concat_header_pieces: "concat (concat (map header_pieces hs)) = concat (map header_line hs)"
  by (induction hs) (simp_all add: header_pieces_def header_line_def)

section \<open>One call\<close>

lemma encode_first_line_ok:
  assumes "headers_done m" and "enc_state e = BEGIN" and "matches (enc_type e) (derived m)"
    and "fits N b" and "length (bytes b) + length (start_line m) \<le> N"
  shows "\<exists>b'. encode_first_line m e b =
           Inr (e\<lparr>enc_state := FIRST_LINE\<rparr>, b', length (start_line m)) \<and>
         fits N b' \<and> bytes b' = bytes b @ start_line m"
  using str_sink.put_ok[OF assms(4,5)] assms(1-3)
  by (auto simp: succeeds_iff encode_first_line_def first_line_text_matches)

lemma encode_headers_ok:
  assumes "headers_done m" and "enc_state e = FIRST_LINE"
    and "fits N b" and len: "length (bytes b) + length (header_block m) \<le> N"
  shows "\<exists>b'. encode_headers m e b =
           Inr (e\<lparr>enc_state := HEADERS\<rparr>, b', length (header_block m)) \<and>
         fits N b' \<and> bytes b' = bytes b @ header_block m"
proof -
  have "fold_res append_string (concat (map header_pieces (headers m)) @ [CRLF]) b =
        bind_res (fold_res put_header (headers m) b) (append_cstr CRLF)"
    by (simp add: put_headers_eq fold_res_append append_cstr_literals)
  moreover have "concat (concat (map header_pieces (headers m)) @ [CRLF]) = header_block m"
    by (simp add: concat_header_pieces header_block_def)
  ultimately have "succeeds (bind_res (fold_res put_header (headers m) b) (append_cstr CRLF))
      (\<lambda>b'. fits N b' \<and> bytes b' = bytes b @ header_block m)"
    using str_sink.put_all[OF assms(3), of "concat (map header_pieces (headers m)) @ [CRLF]"] len by simp
  then obtain b1 b2 where "fold_res put_header (headers m) b = Inr b1" "append_cstr CRLF b1 = Inr b2"
    and b2: "fits N b2" "bytes b2 = bytes b @ header_block m"
    by (auto simp: succeeds_iff)
  moreover have "size_sub (bb_size b2) (bb_size b) = length (header_block m)"
    using b2 assms(3) by (simp add: fits_size)
  ultimately show ?thesis using assms(1,2) by (simp add: encode_headers_def)
qed

lemma encode_body_ok:
  assumes "headers_done m" and "enc_state e = HEADERS \<or> enc_state e = BODY"
    and "msg_ok M m" and k: "body_encoded e \<le> length (body_text m)"
    and "fits N b" and len: "length (bytes b) + length (drop (body_encoded e) (body_text m)) \<le> N"
  shows "\<exists>b'. encode_body m e b =
           Inr (e\<lparr>body_encoded := length (body_text m), enc_state := if completed m then END else BODY\<rparr>,
                b', length (body_text m) - body_encoded e) \<and>
         fits N b' \<and> bytes b' = bytes b @ drop (body_encoded e) (body_text m)"
proof -
  have ok: "bb_ok (body m)" and size: "bb_size (body m) = length (body_text m)"
    using assms(3) by (simp_all add: msg_ok_def fits_def body_text_def)
  have inc: "size_sub (bb_size (body m)) (body_encoded e) = length (body_text m) - body_encoded e"
    using k size by simp
  have "length (body_text m) \<le> MAX_ALLOC" using ok size by (simp add: bb_ok_def)
  then have sum: "size_add (body_encoded e) (length (body_text m) - body_encoded e) = length (body_text m)"
    using k by (simp add: size_add_small)
  have "readable (data_at (body_encoded e) (body m)) (drop (body_encoded e) (body_text m))"
    using data_at_readable[OF ok] k size by (simp add: body_text_def)
  from memory_fits[OF assms(5) len this] obtain b' where
    "append_wrapper (wrap (data_at (body_encoded e) (body m)) (length (drop (body_encoded e) (body_text m)))) b = Inr b'"
    "fits N b'" "bytes b' = bytes b @ drop (body_encoded e) (body_text m)"
    by (auto simp: succeeds_iff append_wrapper_def wrap_def)
  then show ?thesis
    using assms(1,2) by (simp add: encode_body_def Let_def inc sum)
qed

text \<open>A call that finds the headers complete writes exactly what was missing.\<close>

definition call_result :: "http_message \<Rightarrow> http_encoder \<Rightarrow> byte_buffer \<Rightarrow> nat \<Rightarrow> encode_result \<Rightarrow> bool" where
  "call_result m e b N r \<longleftrightarrow> (case r of (e', b', n) \<Rightarrow>
     enc_ok e' m \<and> enc_type e' = enc_type e \<and> enc_state e \<le> enc_state e' \<and>
     enc_state e' = (if completed m then END else BODY) \<and> emitted e' m = serialize m \<and>
     fits N b' \<and> (\<exists>s. bytes b' = bytes b @ s \<and> emitted e m @ s = serialize m \<and> n = length s))"

lemma call_resultI:
  assumes "enc_ok e m" and "\<not> (completed m \<and> enc_state e = END)"
    and "enc_state e \<noteq> END" and "fits N b'"
    and "bytes b' = bytes b @ s" and "emitted e m @ s = serialize m" and "n = length s"
    and "e' = e\<lparr>body_encoded := length (body_text m), enc_state := if completed m then END else BODY\<rparr>"
  shows "call_result m e b N (e', b', n)"
  using assms
  by (cases "enc_state e")
     (auto simp: call_result_def enc_ok_def emitted_def serialize_def less_eq_encode_state_def)

lemma encode_call:
  assumes hdone: "headers_done m" and ok: "enc_ok e m" and "msg_ok M m" and fit: "fits N b"
    and len: "length (bytes b) + length (serialize m) \<le> N" and "completed m \<or> enc_state e \<noteq> END"
  shows "\<exists>r. encode m e b = Inr r \<and> call_result m e b N r"
proof (cases "enc_state e")
  case BEGIN
  have match: "matches (enc_type e) (derived m)" using ok by (simp add: enc_ok_def)
  obtain b1 where 1: "encode_first_line m e b = Inr (e\<lparr>enc_state := FIRST_LINE\<rparr>, b1, length (start_line m))"
    "fits N b1" "bytes b1 = bytes b @ start_line m"
    using encode_first_line_ok[OF hdone BEGIN match fit] len by (auto simp: serialize_def)
  obtain b2 where 2: "encode_headers m (e\<lparr>enc_state := FIRST_LINE\<rparr>) b1 =
      Inr (e\<lparr>enc_state := HEADERS\<rparr>, b2, length (header_block m))"
    "fits N b2" "bytes b2 = bytes b1 @ header_block m"
    using encode_headers_ok[OF hdone _ 1(2), of "e\<lparr>enc_state := FIRST_LINE\<rparr>"] 1(3) len
    by (auto simp: serialize_def)
  have z: "body_encoded e = 0" using ok BEGIN by (simp add: enc_ok_def)
  obtain b3 where 3: "encode_body m (e\<lparr>enc_state := HEADERS\<rparr>) b2 =
      Inr (e\<lparr>body_encoded := length (body_text m), enc_state := if completed m then END else BODY\<rparr>,
           b3, length (body_text m))"
    "fits N b3" "bytes b3 = bytes b2 @ body_text m"
    using encode_body_ok[OF hdone _ assms(3) _ 2(2), of "e\<lparr>enc_state := HEADERS\<rparr>"] 1(3) 2(3) len z
    by (auto simp: serialize_def)
  have "length (serialize m) \<le> MAX_ALLOC"
    using len fit by (simp add: fits_def SINK_LIMIT_def MAX_ALLOC_def)
  then have "size_add (size_add (length (start_line m)) (length (header_block m))) (length (body_text m)) =
      length (serialize m)"
    by (simp add: serialize_def size_add_small)
  then have "encode m e b =
      Inr (e\<lparr>body_encoded := length (body_text m), enc_state := if completed m then END else BODY\<rparr>,
           b3, length (serialize m))"
    using hdone BEGIN 1(1) 2(1) 3(1) by (simp add: encode_def)
  then show ?thesis
    using 1 2 3 BEGIN ok
    by (auto intro!: call_resultI[where s = "serialize m"] simp: emitted_def serialize_def)
next
  case FIRST_LINE
  have z: "body_encoded e = 0" using ok FIRST_LINE by (simp add: enc_ok_def)
  obtain b2 where 2: "encode_headers m e b =
      Inr (e\<lparr>enc_state := HEADERS\<rparr>, b2, length (header_block m))"
    "fits N b2" "bytes b2 = bytes b @ header_block m"
    using encode_headers_ok[OF hdone FIRST_LINE fit] len by (auto simp: serialize_def)
  obtain b3 where 3: "encode_body m (e\<lparr>enc_state := HEADERS\<rparr>) b2 =
      Inr (e\<lparr>body_encoded := length (body_text m), enc_state := if completed m then END else BODY\<rparr>,
           b3, length (body_text m))"
    "fits N b3" "bytes b3 = bytes b2 @ body_text m"
    using encode_body_ok[OF hdone _ assms(3) _ 2(2), of "e\<lparr>enc_state := HEADERS\<rparr>"] 2(3) len z
    by (auto simp: serialize_def)
  have "length (serialize m) \<le> MAX_ALLOC"
    using len fit by (simp add: fits_def SINK_LIMIT_def MAX_ALLOC_def)
  then have "size_add (length (header_block m)) (length (body_text m)) = length (header_block m @ body_text m)"
    by (simp add: serialize_def size_add_small)
  then have "encode m e b =
      Inr (e\<lparr>body_encoded := length (body_text m), enc_state := if completed m then END else BODY\<rparr>,
           b3, length (header_block m @ body_text m))"
    using hdone FIRST_LINE 2(1) 3(1) by (simp add: encode_def)
  then show ?thesis
    using 2 3 FIRST_LINE ok
    by (auto intro!: call_resultI[where s = "header_block m @ body_text m"] simp: emitted_def serialize_def)
next
  case HEADERS
  have z: "body_encoded e = 0" using ok HEADERS by (simp add: enc_ok_def)
  have "length (bytes b) + length (drop (body_encoded e) (body_text m)) \<le> N"
    using len by (simp add: serialize_def)
  from encode_body_ok[OF hdone disjI1[OF HEADERS] assms(3) _ fit this] obtain b3 where
    "encode m e b = Inr (e\<lparr>body_encoded := length (body_text m), enc_state := if completed m then END else BODY\<rparr>,
           b3, length (body_text m))" "fits N b3" "bytes b3 = bytes b @ body_text m"
    using hdone HEADERS z by (auto simp: encode_def)
  then show ?thesis using HEADERS ok
    by (auto intro!: call_resultI[where s = "body_text m"] simp: emitted_def serialize_def)
next
  case BODY
  have k: "body_encoded e \<le> length (body_text m)" using ok by (simp add: enc_ok_def)
  have "length (bytes b) + length (drop (body_encoded e) (body_text m)) \<le> N"
    using len by (simp add: serialize_def)
  from encode_body_ok[OF hdone disjI2[OF BODY] assms(3) k fit this] obtain b3 where
    "encode m e b = Inr (e\<lparr>body_encoded := length (body_text m), enc_state := if completed m then END else BODY\<rparr>,
           b3, length (body_text m) - body_encoded e)"
    "fits N b3" "bytes b3 = bytes b @ drop (body_encoded e) (body_text m)"
    using hdone BODY by (auto simp: encode_def)
  then show ?thesis using BODY ok
    by (auto intro!: call_resultI[where s = "drop (body_encoded e) (body_text m)"] simp: emitted_def serialize_def)
next
  case END
  then show ?thesis
    using hdone ok fit assms(6) by (auto simp: encode_def call_result_def emitted_def enc_ok_def)
qed

lemma encode_early: "\<not> headers_done m \<Longrightarrow> encode m e b = Inr (e, b, 0)"
  by (simp add: encode_def)

section \<open>A message that arrives in pieces\<close>

text \<open>
  The connection encodes the same message object again after each piece of it has been decoded, every
  time into a new buffer. Once its headers are complete the message only grows at the end of its body.
\<close>

definition grows :: "http_message \<Rightarrow> http_message \<Rightarrow> bool" where
  "grows m m' \<longleftrightarrow> headers_done m' \<and> start_line m' = start_line m \<and> headers m' = headers m \<and>
     length (body_text m) \<le> length (body_text m') \<and>
     take (length (body_text m)) (body_text m') = body_text m"

fun arriving :: "http_message list \<Rightarrow> bool" where
  "arriving [] = True"
| "arriving [m] = True"
| "arriving (m # m' # ms) =
     (\<not> completed m \<and> (headers_done m \<longrightarrow> grows m m') \<and> arriving (m' # ms))"

fun stream :: "http_message list \<Rightarrow> http_encoder \<Rightarrow> (http_encoder \<times> string) result" where
  "stream [] e = Inr (e, [])"
| "stream (m # ms) e =
     bind_res (new_buffer 0) (\<lambda>b.
     bind_res (encode m e b) (\<lambda>(e1, b1, n).
     bind_res (stream ms e1) (\<lambda>(e2, out). Inr (e2, bytes b1 @ out))))"

definition piece_ok :: "parser_type \<Rightarrow> nat \<Rightarrow> nat \<Rightarrow> http_message \<Rightarrow> bool" where
  "piece_ok t M N m \<longleftrightarrow> matches t (derived m) \<and> msg_ok M m \<and> length (serialize m) \<le> N"

lemma emitted_grows:
  assumes "enc_ok e m" and "enc_state e = BODY" and "grows m m'" and "matches (enc_type e) (derived m')"
  shows "enc_ok e m' \<and> emitted e m' = emitted e m"
proof -
  have k: "body_encoded e \<le> length (body_text m)" using assms(1) by (simp add: enc_ok_def)
  have "take (body_encoded e) (body_text m') =
        take (body_encoded e) (take (length (body_text m)) (body_text m'))"
    using k by (simp add: min_absorb1)
  also have "\<dots> = take (body_encoded e) (body_text m)"
    using assms(3) by (simp add: grows_def)
  finally show ?thesis
    using assms k by (auto simp: enc_ok_def emitted_def grows_def header_block_def)
qed

definition ready :: "http_encoder \<Rightarrow> http_message \<Rightarrow> bool" where
  "ready e m \<longleftrightarrow> (if headers_done m then enc_ok e m \<and> enc_state e \<noteq> END
                  else enc_state e = BEGIN \<and> body_encoded e = 0)"

lemma stream_writes_message:
  assumes "arriving ms" and "ms \<noteq> []" and "N \<le> SINK_LIMIT" and "headers_done (last ms)"
    and "list_all (piece_ok (enc_type e) M N) ms" and "ready e (hd ms)"
  shows "\<exists>e' out. stream ms e = Inr (e', out) \<and> emitted e (hd ms) @ out = serialize (last ms) \<and>
           enc_state e' = (if completed (last ms) then END else BODY)"
  using assms
proof (induction ms arbitrary: e rule: arriving.induct)
  case 1
  then show ?case by simp
next
  case (2 m)
  obtain b where b: "new_buffer 0 = Inr b" "fits N b" "bytes b = []"
    using fits_new[OF 2(3)] by (auto simp: succeeds_iff)
  have e: "enc_ok e m" "enc_state e \<noteq> END" and hd: "headers_done m" and m: "msg_ok M m" "length (serialize m) \<le> N"
    using 2 by (auto simp: ready_def piece_ok_def)
  obtain e' b' n where call: "encode m e b = Inr (e', b', n)" "call_result m e b N (e', b', n)"
    using encode_call[OF hd e(1) m(1) b(2)] b(3) m(2) e(2) by auto
  then show ?case using b by (auto simp: call_result_def)
next
  case (3 m m' ms)
  obtain b where b: "new_buffer 0 = Inr b" "fits N b" "bytes b = []"
    using fits_new[OF 3(4)] by (auto simp: succeeds_iff)
  have arr: "arriving (m' # ms)" and inc: "\<not> completed m"
    using 3(2) by simp_all
  have ok: "list_all (piece_ok (enc_type e) M N) (m' # ms)"
    using 3(6) by simp
  have m: "msg_ok M m" "length (serialize m) \<le> N" and mt': "matches (enc_type e) (derived m')"
    using 3(6) by (simp_all add: piece_ok_def)
  show ?case
  proof (cases "headers_done m")
    case False
    then have beg: "enc_state e = BEGIN" "body_encoded e = 0" using 3(7) by (simp_all add: ready_def)
    then have "ready e m'" using mt' by (simp add: ready_def enc_ok_def)
    then obtain e' out where "stream (m' # ms) e = Inr (e', out)"
      "emitted e m' @ out = serialize (last (m' # ms))"
      "enc_state e' = (if completed (last (m' # ms)) then END else BODY)"
      using "3.IH"[OF arr _ 3(4), of e] 3(5) ok by auto
    then show ?thesis using False b beg by (auto simp: encode_early emitted_def)
  next
    case True
    then have e: "enc_ok e m" "enc_state e \<noteq> END" using 3(7) by (simp_all add: ready_def)
    obtain e1 b1 n where call: "encode m e b = Inr (e1, b1, n)" "call_result m e b N (e1, b1, n)"
      using encode_call[OF True e(1) m(1) b(2)] b(3) m(2) e(2) by auto
    have e1: "enc_ok e1 m" "enc_type e1 = enc_type e" "enc_state e1 = BODY" "emitted e1 m = serialize m"
      and s: "emitted e m @ bytes b1 = serialize m"
      using call(2) inc b(3) by (auto simp: call_result_def)
    have g: "grows m m'" using 3(2) True by simp
    have em: "enc_ok e1 m'" "emitted e1 m' = serialize m"
      using emitted_grows[OF e1(1,3) g] mt' e1(2,4) by auto
    then have "ready e1 m'" using g e1(3) by (simp add: ready_def grows_def)
    then obtain e' out where st: "stream (m' # ms) e1 = Inr (e', out)"
      "emitted e1 m' @ out = serialize (last (m' # ms))"
      "enc_state e' = (if completed (last (m' # ms)) then END else BODY)"
      using "3.IH"[OF arr _ 3(4), of e1] 3(5) ok e1(2) by auto
    moreover have "emitted e m @ bytes b1 @ out = serialize (last (m' # ms))"
      using st(2) em(2) s by (simp flip: append_assoc)
    ultimately show ?thesis using b call(1) by auto
  qed
qed

section \<open>Properties\<close>

text \<open>
  C13: Streaming. A message encoded again and again while it arrives (first with incomplete headers,
  then with a body that grows at its end, the last time possibly completed) is written exactly once:
  the bytes of all the calls together are the start line, the headers in the order of the container,
  the blank line and the body of the last version, nothing lost, repeated or reordered; and the encoder
  ends in \<open>END\<close> exactly when that version is complete.
\<close>

theorem encoder_streams_message:
  assumes "arriving ms" and "ms \<noteq> []" and "headers_done (last ms)" and "N \<le> SINK_LIMIT"
    and "list_all (piece_ok t M N) ms"
  shows "\<exists>e. stream ms (new_encoder t) = Inr (e, serialize (last ms)) \<and>
             enc_state e = (if completed (last ms) then END else BODY)"
proof -
  have "matches t (derived (hd ms))"
    using assms(2,5) by (cases ms) (auto simp: piece_ok_def)
  then have "ready (new_encoder t) (hd ms)"
    by (simp add: ready_def new_encoder_def enc_ok_def)
  then show ?thesis
    using stream_writes_message[OF assms(1,2,4,3), of "new_encoder t" M] assms(5)
    by (auto simp: new_encoder_def emitted_def)
qed

definition sample_response :: "bool \<Rightarrow> string \<Rightarrow> http_message" where
  "sample_response c s = \<lparr>major_version = 1, minor_version = 1, headers_done = True, message_done = c,
     headers = [(''A'', ''b'')], body = rep s [], derived = Response_part 200 ''OK''\<rparr>"

lemma sample_response_ok:
  "length s \<le> 100 \<Longrightarrow> piece_ok HTTP_RESPONSE 100 1000 (sample_response c s)"
  by (simp add: piece_ok_def sample_response_def msg_ok_def headers_ok_def fits_def SINK_LIMIT_def
      MAX_ALLOC_def DEFAULT_SIZE_def serialize_def start_line_def header_block_def header_line_def
      body_text_def to_string_int_def to_string_nat_def digits_in.simps digit_char_def CRLF_def)

theorem encoder_streams_message_witness:
  "\<exists>e. stream [sample_response False ''he'', sample_response True ''hello''] (new_encoder HTTP_RESPONSE) =
         Inr (e, serialize (sample_response True ''hello'')) \<and> enc_state e = END"
proof -
  have "grows (sample_response False ''he'') (sample_response True ''hello'')"
    by (simp add: grows_def sample_response_def start_line_def body_text_def)
  then have "arriving [sample_response False ''he'', sample_response True ''hello'']"
    by (simp add: completed_def sample_response_def)
  from encoder_streams_message[OF this, of 1000 HTTP_RESPONSE 100] show ?thesis
    using sample_response_ok by (simp add: SINK_LIMIT_def completed_def) (simp add: sample_response_def)
qed

text \<open>The message behind the reply to CONNECT.\<close>

definition connect_reply :: string where
  "connect_reply = ''HTTP/1.1 200 Connection Established'' @ CRLF @ ''Connection: keep-alive'' @ CRLF @
     ''Content-Length: 0'' @ CRLF @ ''Proxy-Connection: keep-alive'' @ CRLF @ CRLF"

lemma ssl_reply_message:
  assumes "N \<le> SINK_LIMIT"
  shows "\<exists>m. make_response SSL_REPLY = Inr m \<and> headers_done m \<and> completed m \<and> msg_ok N m \<and>
           enc_ok (new_encoder HTTP_RESPONSE) m \<and> serialize m = connect_reply"
proof -
  obtain r where r: "new_response = Inr r" "msg_ok N r" "body_text r = []" "headers r = []"
    "derived r = Response_part 0 []"
    using new_message_ok[OF assms, of "Response_part 0 []"] by (auto simp: new_response_def succeeds_iff)
  define m where "m = (add_header ''Proxy-Connection'' ''keep-alive''
      (add_header ''Connection'' ''keep-alive'' (add_header ''Content-Length'' ''0''
        (r\<lparr>major_version := 1, minor_version := 1, derived := Response_part 200 ''Connection Established''\<rparr>))))
      \<lparr>headers_done := True, message_done := True\<rparr>"
  have "make_response SSL_REPLY = Inr m"
    unfolding make_response_def r(1) by (simp add: set_status_message_def r(5) m_def)
  moreover have "msg_ok N m"
    using r(2) by (auto simp: m_def msg_ok_def intro!: map_insert_ok)
  moreover have "serialize m = connect_reply"
    using r(3,4)
    by (simp add: m_def serialize_def start_line_def header_block_def header_line_def body_text_def
        to_string_int_def to_string_nat_def digits_in.simps digit_char_def less_char_def connect_reply_def)
  ultimately show ?thesis
    by (intro exI[of _ m]) (simp add: m_def completed_def enc_ok_def new_encoder_def)
qed

text \<open>
  The reply to a CONNECT request. The response built by \<open>make_response(SSL_REPLY)\<close> is encoded by a
  new response encoder to exactly the text of a "200 Connection Established" reply, and the encoder is
  then in its final state.
\<close>

theorem ssl_reply_text:
  "\<exists>e b n. bind_res (make_response SSL_REPLY) (\<lambda>m.
             bind_res (new_buffer 0) (encode m (new_encoder HTTP_RESPONSE))) = Inr (e, b, n) \<and>
     enc_state e = END \<and>
     bytes b = ''HTTP/1.1 200 Connection Established'' @ CRLF @
               ''Connection: keep-alive'' @ CRLF @ ''Content-Length: 0'' @ CRLF @
               ''Proxy-Connection: keep-alive'' @ CRLF @ CRLF"
proof -
  obtain m where m: "make_response SSL_REPLY = Inr m" "headers_done m" "completed m" "msg_ok 1000 m"
    "enc_ok (new_encoder HTTP_RESPONSE) m" "serialize m = connect_reply"
    using ssl_reply_message[of 1000] by (auto simp: SINK_LIMIT_def)
  obtain b where b: "new_buffer 0 = Inr b" "fits 1000 b" "bytes b = []"
    using fits_new[of 1000] by (auto simp: succeeds_iff SINK_LIMIT_def)
  have "length (bytes b) + length (serialize m) \<le> 1000"
    by (simp add: b(3) m(6) connect_reply_def CRLF_def)
  from encode_call[OF m(2,5,4) b(2) this] m(3) show ?thesis
    using m(1,6) b by (auto simp: call_result_def emitted_def new_encoder_def connect_reply_def)
qed

end
