(* ===== verification/HttpDecoder.thy ===== *)
theory HttpDecoder
  imports HttpEncoder
begin

text \<open>
  The message decoder: \<open>include/x/codec/http/http_decoder.hpp\<close> and \<open>src/http_decoder.cpp\<close>. The parser it
  drives, \<open>http_parser\<close>, is a git submodule whose code is not part of the repository. It is a parameter
  of the model (\<open>parser_api\<close>): executing it on a piece of input gives its next state, the callbacks it
  makes in order, each with the parser members the callback reads, and the number of bytes consumed.
  The callbacks always return 0 and change no member of the parser, so the sequence of callbacks does
  not depend on them. What a callback does to the decoder and to the message is modelled here.
\<close>

section \<open>The parser's interface\<close>

record parser_view =
  pv_method :: string
  pv_is_connect :: bool
  pv_major :: int
  pv_minor :: int
  pv_status :: nat
  pv_chunked :: bool

datatype callback =
    On_message_begin
  | On_url string
  | On_status string
  | On_header_field string
  | On_header_value string
  | On_headers_complete
  | On_body string
  | On_message_complete

record 'p parser_api =
  api_init :: "parser_type \<Rightarrow> 'p"
  api_execute :: "'p \<Rightarrow> string \<Rightarrow> 'p \<times> (parser_view \<times> callback) list \<times> nat"
  api_errno_ok :: "'p \<Rightarrow> bool"
  api_should_keep_alive :: "'p \<Rightarrow> bool"

section \<open>State\<close>

record 'p http_decoder =
  dec_type :: parser_type
  dec_has_message :: bool
  dec_headers_done :: bool
  dec_message_done :: bool
  dec_chunked :: bool
  current_field :: string
  current_value :: string
  dec_parser :: 'p

definition new_decoder :: "'p parser_api \<Rightarrow> parser_type \<Rightarrow> 'p http_decoder" where
  "new_decoder api t = \<lparr>dec_type = t, dec_has_message = False, dec_headers_done = False,
     dec_message_done = False, dec_chunked = False, current_field = [], current_value = [],
     dec_parser = api_init api t\<rparr>"

definition reset_decoder :: "'p parser_api \<Rightarrow> 'p http_decoder \<Rightarrow> 'p http_decoder" where
  "reset_decoder api d = d\<lparr>dec_parser := api_init api (dec_type d), dec_has_message := False,
     dec_headers_done := False, dec_message_done := False, dec_chunked := False,
     current_field := [], current_value := []\<rparr>"

definition keep_alive :: "'p parser_api \<Rightarrow> 'p http_decoder \<Rightarrow> bool" where
  "keep_alive api d = (if \<not> dec_headers_done d then False else api_should_keep_alive api (dec_parser d))"

section \<open>Callbacks\<close>

definition END_CHUNK :: string where
  "END_CHUNK = [CHR ''0'', CHR 0x0D, CHR 0x0A, CHR 0x0D, CHR 0x0A]"

text \<open>\<open>s[0]\<close> of a \<open>std::string\<close>: the terminating NUL when the string is empty.\<close>

definition char_at_0 :: "string \<Rightarrow> char" where
  "char_at_0 s = (case s of [] \<Rightarrow> CHR 0x00 | c # _ \<Rightarrow> c)"

definition rewrite_uri :: "bool \<Rightarrow> string \<Rightarrow> string" where
  "rewrite_uri is_connect uri =
     (if \<not> is_connect then
        if char_at_0 uri \<noteq> CHR ''/'' then
          let e = (if take 7 uri \<noteq> ''http://'' then find_char CHR ''/'' uri 0
                   else find_char CHR ''/'' uri 7)
          in if e = npos then ''/'' else drop e uri
        else uri
      else uri)"

type_synonym 'p decoding = "'p http_decoder \<times> http_message"

definition on_message_begin :: "'p decoding \<Rightarrow> 'p decoding result" where
  "on_message_begin s = (case s of (p, m) \<Rightarrow>
     bind_res (assert_that (dec_has_message p)) (\<lambda>_.
     Inr (p\<lparr>dec_headers_done := False, dec_message_done := False, dec_chunked := False,
            current_field := [], current_value := []\<rparr>, m)))"

definition on_url :: "parser_view \<Rightarrow> string \<Rightarrow> 'p decoding \<Rightarrow> 'p decoding result" where
  "on_url v at s = (case s of (p, m) \<Rightarrow>
     bind_res (assert_that (dec_has_message p)) (\<lambda>_.
     bind_res (set_method_uri (pv_method v) (rewrite_uri (pv_is_connect v) at) m) (\<lambda>m'.
     Inr (p, m'))))"

definition on_status :: "parser_view \<Rightarrow> string \<Rightarrow> 'p decoding \<Rightarrow> 'p decoding result" where
  "on_status v at s = (case s of (p, m) \<Rightarrow>
     bind_res (assert_that (dec_has_message p)) (\<lambda>_.
     bind_res (set_status_message (pv_status v) at m) (\<lambda>m'.
     Inr (p, m'))))"

definition on_header_field :: "string \<Rightarrow> 'p decoding \<Rightarrow> 'p decoding result" where
  "on_header_field at s = (case s of (p, m) \<Rightarrow>
     bind_res (assert_that (dec_has_message p)) (\<lambda>_.
     if current_value p \<noteq> []
     then Inr (p\<lparr>current_field := [] @ at, current_value := []\<rparr>,
               add_header (current_field p) (current_value p) m)
     else Inr (p\<lparr>current_field := current_field p @ at\<rparr>, m)))"

definition on_header_value :: "string \<Rightarrow> 'p decoding \<Rightarrow> 'p decoding result" where
  "on_header_value at s = (case s of (p, m) \<Rightarrow>
     bind_res (assert_that (dec_has_message p)) (\<lambda>_.
     Inr (p\<lparr>current_value := current_value p @ at\<rparr>, m)))"

definition on_headers_complete :: "parser_view \<Rightarrow> 'p decoding \<Rightarrow> 'p decoding result" where
  "on_headers_complete v s = (case s of (p, m) \<Rightarrow>
     bind_res (assert_that (dec_has_message p)) (\<lambda>_.
     bind_res (assert_that (current_value p \<noteq> [])) (\<lambda>_.
     let m1 = set_minor_version (pv_minor v) (set_major_version (pv_major v) m);
         m2 = add_header (current_field p) (current_value p) m1;
         p1 = p\<lparr>current_field := [], current_value := [], dec_headers_done := True\<rparr>;
         m3 = headers_completed True m2
     in Inr (if pv_chunked v then p1\<lparr>dec_chunked := True\<rparr> else p1, m3))))"

definition on_body :: "string \<Rightarrow> 'p decoding \<Rightarrow> 'p decoding result" where
  "on_body at s = (case s of (p, m) \<Rightarrow>
     bind_res (assert_that (dec_has_message p)) (\<lambda>_.
     bind_res (if dec_chunked p then append_body_string (hex_string (length at) @ CRLF) m else Inr m) (\<lambda>m1.
     bind_res (append_body_data (Some (map Some at)) (length at) m1) (\<lambda>m2.
     bind_res (if dec_chunked p then append_body_data (Some (map Some CRLF)) 2 m2 else Inr m2) (\<lambda>m3.
     Inr (p, m3))))))"

definition on_message_complete :: "'p decoding \<Rightarrow> 'p decoding result" where
  "on_message_complete s = (case s of (p, m) \<Rightarrow>
     bind_res (assert_that (dec_has_message p)) (\<lambda>_.
     bind_res (if dec_chunked p then append_body_data (Some (map Some END_CHUNK)) 5 m else Inr m) (\<lambda>m1.
     Inr (p\<lparr>dec_message_done := True\<rparr>, message_completed True m1))))"

text \<open>The table \<open>settings_\<close>: which callback of the parser runs which function.\<close>

fun run_callback :: "parser_view \<times> callback \<Rightarrow> 'p decoding \<Rightarrow> 'p decoding result" where
  "run_callback (v, On_message_begin) s = on_message_begin s"
| "run_callback (v, On_url at) s = on_url v at s"
| "run_callback (v, On_status at) s = on_status v at s"
| "run_callback (v, On_header_field at) s = on_header_field at s"
| "run_callback (v, On_header_value at) s = on_header_value at s"
| "run_callback (v, On_headers_complete) s = on_headers_complete v s"
| "run_callback (v, On_body at) s = on_body at s"
| "run_callback (v, On_message_complete) s = on_message_complete s"

definition decode :: "'p parser_api \<Rightarrow> string \<Rightarrow> 'p http_decoder \<Rightarrow> http_message \<Rightarrow>
    ('p http_decoder \<times> http_message \<times> nat) result" where
  "decode api data d m =
     (case api_execute api (dec_parser d) data of (p', calls, consumed) \<Rightarrow>
      bind_res (fold_res run_callback calls (d\<lparr>dec_has_message := True\<rparr>, m)) (\<lambda>(d1, m1).
      let d2 = d1\<lparr>dec_parser := p'\<rparr> in
      if consumed \<noteq> length data then
        if \<not> api_errno_ok api p' then Inr (d2, m1, 0) else Inr (d2, m1, consumed)
      else Inr (d2, m1, consumed)))"

section \<open>Request targets\<close>

lemma rewrite_uri_connect [simp]: "rewrite_uri True uri = uri"
  by (simp add: rewrite_uri_def)

lemma rewrite_uri_origin [simp]: "rewrite_uri c (CHR ''/'' # path) = CHR ''/'' # path"
  by (simp add: rewrite_uri_def char_at_0_def)

lemma find_from_bounds: "find_from c s i \<noteq> npos \<Longrightarrow>
    i \<le> find_from c s i \<and> find_from c s i < i + length s \<and> s ! (find_from c s i - i) = c"
proof (induction s arbitrary: i)
  case Nil
  then show ?case by simp
next
  case (Cons x s)
  show ?case
  proof (cases "x = c")
    case False
    with Cons.prems Cons.IH[of "Suc i"] show ?thesis
      by (auto simp: nth_Cons' )
  qed simp
qed

lemma rewrite_uri_slash: "char_at_0 (rewrite_uri False uri) = CHR ''/''"
proof (cases "char_at_0 uri = CHR ''/''")
  case True
  then show ?thesis by (simp add: rewrite_uri_def)
next
  case False
  define pos :: nat where "pos = (if take 7 uri \<noteq> ''http://'' then 0 else 7)"
  define e where "e = find_from CHR ''/'' (drop pos uri) pos"
  have r: "rewrite_uri False uri = (if e = npos then ''/'' else drop e uri)"
    using False by (simp add: rewrite_uri_def e_def pos_def find_char_def)
  show ?thesis
  proof (cases "e = npos")
    case True
    then show ?thesis by (simp add: r char_at_0_def)
  next
    case e: False
    then have "pos \<le> e" "e < pos + length (drop pos uri)" "drop pos uri ! (e - pos) = CHR ''/''"
      using find_from_bounds[of "CHR ''/''" "drop pos uri" pos] by (simp_all add: e_def)
    moreover have "pos \<le> length uri"
      using calculation(1,2) by (cases "pos \<le> length uri") simp_all
    ultimately have "e < length uri" "uri ! e = CHR ''/''" by auto
    then have "drop e uri = CHR ''/'' # drop (Suc e) uri" by (metis Cons_nth_drop_Suc)
    then show ?thesis using e by (simp add: r char_at_0_def)
  qed
qed

lemma rewrite_uri_absolute:
  assumes "CHR ''/'' \<notin> set host" and "length host \<le> MAX_ALLOC"
  shows "rewrite_uri False (''http://'' @ host @ CHR ''/'' # path) = CHR ''/'' # path"
    and "rewrite_uri False (''http://'' @ host) = ''/''"
proof -
  have a: "find_char CHR ''/'' (''http://'' @ host @ CHR ''/'' # path) 7 = 7 + length host"
    by (rule find_char_after[OF assms(1)]) simp
  have ne: "7 + length host \<noteq> npos"
    using assms(2) by (simp add: MAX_ALLOC_def npos_def SIZE_MOD_def)
  have "length (''http://'' @ host) = 7 + length host" by simp
  then have "drop (7 + length host) (''http://'' @ host @ CHR ''/'' # path) = CHR ''/'' # path"
    by (metis append_assoc append_eq_conv_conj)
  then show "rewrite_uri False (''http://'' @ host @ CHR ''/'' # path) = CHR ''/'' # path"
    unfolding rewrite_uri_def a using ne by (simp add: char_at_0_def)
  have b: "find_char CHR ''/'' (''http://'' @ host) 7 = npos"
    by (rule find_char_after_none[OF assms(1)]) simp
  then show "rewrite_uri False (''http://'' @ host) = ''/''"
    unfolding rewrite_uri_def b by (simp add: char_at_0_def)
qed

section \<open>Headers that arrive in fragments\<close>

text \<open>
  The parser may report a header's name or value in several calls. \<open>header_calls\<close> are the calls for a
  list of headers, each given by the fragments of its name and of its value.
\<close>

type_synonym fragments = "string list \<times> string list"

definition header_calls :: "parser_view \<Rightarrow> fragments list \<Rightarrow> (parser_view \<times> callback) list" where
  "header_calls v hs = concat (map (\<lambda>(fs, vs). map (\<lambda>f. (v, On_header_field f)) fs @
                                              map (\<lambda>x. (v, On_header_value x)) vs) hs)"

definition fragments_ok :: "fragments \<Rightarrow> bool" where
  "fragments_ok h \<longleftrightarrow> fst h \<noteq> [] \<and> concat (snd h) \<noteq> []"

definition joined :: "fragments \<Rightarrow> string \<times> string" where
  "joined h = (concat (fst h), concat (snd h))"

lemma field_calls:
  assumes "dec_has_message p" and "current_value p = []"
  shows "fold_res run_callback (map (\<lambda>f. (v, On_header_field f)) fs) (p, m) =
         Inr (p\<lparr>current_field := current_field p @ concat fs\<rparr>, m)"
  using assms
  by (induction fs arbitrary: p) (simp_all add: on_header_field_def)

lemma value_calls:
  assumes "dec_has_message p"
  shows "fold_res run_callback (map (\<lambda>x. (v, On_header_value x)) vs) (p, m) =
         Inr (p\<lparr>current_value := current_value p @ concat vs\<rparr>, m)"
  using assms
  by (induction vs arbitrary: p) (simp_all add: on_header_value_def)

definition flushed :: "'p http_decoder \<Rightarrow> http_message \<Rightarrow> header_map" where
  "flushed p m = (if current_value p \<noteq> [] then map_insert (current_field p) (current_value p) (headers m)
                  else headers m)"

definition at_header_start :: "'p http_decoder \<Rightarrow> bool" where
  "at_header_start p \<longleftrightarrow> dec_has_message p \<and> (current_value p \<noteq> [] \<or> current_field p = [])"

lemma one_header_calls:
  assumes "at_header_start p" and "fragments_ok (fs, vs)"
  shows "fold_res run_callback (map (\<lambda>f. (v, On_header_field f)) fs @
           map (\<lambda>x. (v, On_header_value x)) vs) (p, m) =
         Inr (p\<lparr>current_field := concat fs, current_value := concat vs\<rparr>, m\<lparr>headers := flushed p m\<rparr>)"
proof -
  obtain f fs' where fs: "fs = f # fs'" using assms(2) by (cases fs) (auto simp: fragments_ok_def)
  have p: "dec_has_message p" using assms(1) by (simp add: at_header_start_def)
  let ?p1 = "p\<lparr>current_field := f, current_value := []\<rparr>" and ?m1 = "m\<lparr>headers := flushed p m\<rparr>"
  have "on_header_field f (p, m) = Inr (?p1, ?m1)"
    using assms(1) by (auto simp: on_header_field_def at_header_start_def flushed_def add_header_def)
  then have "fold_res run_callback (map (\<lambda>f. (v, On_header_field f)) fs) (p, m) =
      Inr (p\<lparr>current_field := concat fs, current_value := []\<rparr>, ?m1)"
    using p field_calls[of ?p1] by (simp add: fs)
  then show ?thesis
    using p value_calls[of "p\<lparr>current_field := concat fs, current_value := []\<rparr>"]
    by (simp add: fold_res_append)
qed

lemma header_calls_Cons: "header_calls v ((fs, vs) # hs) =
    (map (\<lambda>f. (v, On_header_field f)) fs @ map (\<lambda>x. (v, On_header_value x)) vs) @ header_calls v hs"
  by (simp add: header_calls_def)

lemma header_calls_run:
  assumes "at_header_start p" and "list_all fragments_ok hs"
  shows "\<exists>p' m'. fold_res run_callback (header_calls v hs) (p, m) = Inr (p', m') \<and>
           p' = p\<lparr>current_field := current_field p', current_value := current_value p'\<rparr> \<and>
           m' = m\<lparr>headers := headers m'\<rparr> \<and> at_header_start p' \<and>
           (hs \<noteq> [] \<longrightarrow> current_value p' \<noteq> []) \<and>
           flushed p' m' = fold (\<lambda>(k, x). map_insert k x) (map joined hs) (flushed p m)"
  using assms
proof (induction hs arbitrary: p m)
  case Nil
  then show ?case by (simp add: header_calls_def)
next
  case (Cons h hs)
  obtain fs vs where h: "h = (fs, vs)" by (cases h)
  let ?p1 = "p\<lparr>current_field := concat fs, current_value := concat vs\<rparr>" and ?m1 = "m\<lparr>headers := flushed p m\<rparr>"
  have vs: "concat vs \<noteq> []" using Cons.prems(2) by (simp add: fragments_ok_def h)
  have one: "fold_res run_callback (map (\<lambda>f. (v, On_header_field f)) fs @
           map (\<lambda>x. (v, On_header_value x)) vs) (p, m) = Inr (?p1, ?m1)"
    using Cons.prems by (intro one_header_calls) (simp_all add: h)
  have "at_header_start ?p1" using Cons.prems(1) vs by (auto simp: at_header_start_def)
  then obtain p' m' where IH: "fold_res run_callback (header_calls v hs) (?p1, ?m1) = Inr (p', m')"
    "p' = ?p1\<lparr>current_field := current_field p', current_value := current_value p'\<rparr>"
    "m' = ?m1\<lparr>headers := headers m'\<rparr>" "at_header_start p'" "hs \<noteq> [] \<longrightarrow> current_value p' \<noteq> []"
    "flushed p' m' = fold (\<lambda>(k, x). map_insert k x) (map joined hs) (flushed ?p1 ?m1)"
    using Cons.IH[of ?p1 ?m1] Cons.prems(2) by auto
  have run: "fold_res run_callback (header_calls v (h # hs)) (p, m) = Inr (p', m')"
    by (simp only: header_calls_Cons h fold_res_append[of _ "_ @ _"] one bind_res.simps IH(1))
  have ne: "current_value p' \<noteq> []"
  proof (cases "hs = []")
    case True
    then have "p' = ?p1" using IH(1) by (simp add: header_calls_def)
    then show ?thesis using vs by simp
  qed (use IH(5) in simp)
  have "flushed ?p1 ?m1 = map_insert (concat fs) (concat vs) (flushed p m)"
    using vs by (simp add: flushed_def)
  then have fl: "flushed p' m' = fold (\<lambda>(k, x). map_insert k x) (map joined (h # hs)) (flushed p m)"
    using IH(6) by (simp add: joined_def h)
  have "p' = p\<lparr>current_field := current_field p', current_value := current_value p'\<rparr>"
    by (subst IH(2)) simp
  moreover have "m' = m\<lparr>headers := headers m'\<rparr>" by (subst IH(3)) simp
  ultimately show ?case using run IH(4) ne fl by blast
qed

section \<open>Bodies\<close>

text \<open>
  The bytes one \<open>on_body\<close> call adds: for a chunked message the decoder frames the piece as a chunk
  again, so that the body it stores can be sent as it is; \<open>closing\<close> is what the end of the message adds.
\<close>

definition framed :: "bool \<Rightarrow> string \<Rightarrow> string" where
  "framed c s = (if c then hex_string (length s) @ CRLF @ s @ CRLF else s)"

definition closing :: "bool \<Rightarrow> string" where
  "closing c = (if c then END_CHUNK else [])"

lemma only_body_trans: "only_body a b \<Longrightarrow> only_body b c \<Longrightarrow> only_body a c"
  by (auto simp: only_body_def)

lemma only_body_refl [simp]: "only_body a a"
  unfolding only_body_def by (rule exI[of _ "body a"]) simp

lemma readable_literal [simp]: "readable (Some (map Some s)) s"
  by (simp add: readable_def)

lemma optional_append:
  assumes "msg_ok N m" and "length (body_text m) + length s \<le> N"
  shows "\<exists>m'. (if c then append_body_data (Some (map Some s)) (length s) m else Inr m) = Inr m' \<and>
           msg_ok N m' \<and> only_body m m' \<and> body_text m' = body_text m @ (if c then s else [])"
  using append_body_data_fits[OF assms, of "Some (map Some s)"] assms(1)
  by (cases c) (auto simp: succeeds_iff)

lemma length_CRLF: "length CRLF = 2"
  by (simp add: CRLF_def)

lemma on_body_ok:
  assumes p: "dec_has_message p" and m: "msg_ok N m"
    and len: "length (body_text m) + length (framed (dec_chunked p) at) \<le> N"
  shows "\<exists>m'. on_body at (p, m) = Inr (p, m') \<and> msg_ok N m' \<and> only_body m m' \<and>
           body_text m' = body_text m @ framed (dec_chunked p) at"
proof (cases "dec_chunked p")
  case False
  then show ?thesis
    using append_body_data_fits[OF m, of at "Some (map Some at)"] p len
    by (auto simp: on_body_def framed_def succeeds_iff)
next
  case True
  let ?h = "hex_string (length at) @ CRLF"
  obtain m1 where 1: "append_body_string ?h m = Inr m1" "msg_ok N m1" "only_body m m1"
    "body_text m1 = body_text m @ ?h"
    using append_body_string_fits[OF m, of ?h] len True by (auto simp: succeeds_iff framed_def)
  obtain m2 where 2: "append_body_data (Some (map Some at)) (length at) m1 = Inr m2" "msg_ok N m2"
    "only_body m1 m2" "body_text m2 = body_text m1 @ at"
    using append_body_data_fits[OF 1(2), of at "Some (map Some at)"] 1(4) len True
    by (auto simp: succeeds_iff framed_def)
  obtain m3 where 3: "append_body_data (Some (map Some CRLF)) 2 m2 = Inr m3" "msg_ok N m3"
    "only_body m2 m3" "body_text m3 = body_text m2 @ CRLF"
    using append_body_data_fits[OF 2(2), of CRLF "Some (map Some CRLF)"] 1(4) 2(4) len True
    by (auto simp: succeeds_iff framed_def length_CRLF)
  have "only_body m m3" using 1(3) 2(3) 3(3) by (blast intro: only_body_trans)
  then show ?thesis
    using p True 1 2 3 by (auto simp: on_body_def framed_def)
qed

lemma body_calls:
  assumes "dec_has_message p" and "msg_ok N m"
    and "length (body_text m) + length (concat (map (framed (dec_chunked p)) ps)) \<le> N"
  shows "\<exists>m'. fold_res run_callback (map (\<lambda>x. (v, On_body x)) ps) (p, m) = Inr (p, m') \<and>
           msg_ok N m' \<and> only_body m m' \<and>
           body_text m' = body_text m @ concat (map (framed (dec_chunked p)) ps)"
  using assms(2,3)
proof (induction ps arbitrary: m)
  case Nil
  then show ?case by simp
next
  case (Cons x ps)
  obtain m1 where 1: "on_body x (p, m) = Inr (p, m1)" "msg_ok N m1" "only_body m m1"
    "body_text m1 = body_text m @ framed (dec_chunked p) x"
    using on_body_ok[OF assms(1) Cons.prems(1), of x] Cons.prems(2) by auto
  obtain m2 where 2: "fold_res run_callback (map (\<lambda>x. (v, On_body x)) ps) (p, m1) = Inr (p, m2)"
    "msg_ok N m2" "only_body m1 m2"
    "body_text m2 = body_text m1 @ concat (map (framed (dec_chunked p)) ps)"
    using Cons.IH[OF 1(2)] 1(4) Cons.prems(2) by auto
  have "only_body m m2" using 1(3) 2(3) by (rule only_body_trans)
  then show ?case using 1 2 by auto
qed

lemma message_complete_call:
  assumes "dec_has_message p" and "msg_ok N m"
    and "length (body_text m) + length (closing (dec_chunked p)) \<le> N"
  shows "\<exists>m1. run_callback (v, On_message_complete) (p, m) =
             Inr (p\<lparr>dec_message_done := True\<rparr>, m1\<lparr>message_done := True\<rparr>) \<and>
           msg_ok N m1 \<and> only_body m m1 \<and> body_text m1 = body_text m @ closing (dec_chunked p)"
proof -
  have "length END_CHUNK = 5" by (simp add: END_CHUNK_def)
  then show ?thesis
    using optional_append[OF assms(2), of "if dec_chunked p then END_CHUNK else []" "dec_chunked p"] assms
    by (cases "dec_chunked p") (auto simp: on_message_complete_def closing_def)
qed

section \<open>A whole message in any number of reads\<close>

text \<open>
  The connection calls \<open>decode\<close> once per read. \<open>feed\<close> is the parser over successive reads; the
  decoder's result depends only on the callbacks of all the reads together.
\<close>

fun feed :: "'p parser_api \<Rightarrow> 'p \<Rightarrow> string list \<Rightarrow> 'p \<times> (parser_view \<times> callback) list" where
  "feed api p [] = (p, [])"
| "feed api p (x # xs) =
     (case api_execute api p x of (p1, c1, n) \<Rightarrow>
      case feed api p1 xs of (p2, c2) \<Rightarrow> (p2, c1 @ c2))"

fun consumes_all :: "'p parser_api \<Rightarrow> 'p \<Rightarrow> string list \<Rightarrow> bool" where
  "consumes_all api p [] = True"
| "consumes_all api p (x # xs) =
     (case api_execute api p x of (p1, c1, n) \<Rightarrow> n = length x \<and> consumes_all api p1 xs)"

fun decode_reads :: "'p parser_api \<Rightarrow> string list \<Rightarrow> 'p http_decoder \<Rightarrow> http_message \<Rightarrow>
    ('p http_decoder \<times> http_message \<times> bool) result" where
  "decode_reads api [] d m = Inr (d, m, True)"
| "decode_reads api (x # xs) d m =
     bind_res (decode api x d m) (\<lambda>(d1, m1, n).
       if n \<noteq> length x then Inr (d1, m1, False) else decode_reads api xs d1 m1)"

definition with_parser :: "'p \<Rightarrow> 'p decoding \<Rightarrow> 'p decoding" where
  "with_parser q s = ((fst s)\<lparr>dec_parser := q\<rparr>, snd s)"

lemma run_callback_with_parser:
  "run_callback c (with_parser q s) = bind_res (run_callback c s) (\<lambda>s'. Inr (with_parser q s'))"
proof -
  obtain v k where "c = (v, k)" by (cases c)
  then show ?thesis
    by (cases k; cases s)
       (auto simp: with_parser_def on_message_begin_def on_url_def on_status_def on_header_field_def
          on_header_value_def on_headers_complete_def on_body_def on_message_complete_def
          bind_res_assoc assert_that_def Let_def intro!: bind_res_cong)
qed

lemma fold_callbacks_with_parser:
  "fold_res run_callback cs (with_parser q s) =
   bind_res (fold_res run_callback cs s) (\<lambda>s'. Inr (with_parser q s'))"
proof (induction cs arbitrary: s)
  case (Cons c cs)
  then show ?case by (cases "run_callback c s") (simp_all add: run_callback_with_parser)
qed simp

lemma run_callback_has_message:
  "whenever (run_callback c s) (\<lambda>s'. dec_has_message (fst s'))"
proof -
  obtain v k where "c = (v, k)" by (cases c)
  then show ?thesis
    by (cases k; cases s)
       (auto simp: on_message_begin_def on_url_def on_status_def on_header_field_def
          on_header_value_def on_headers_complete_def on_body_def on_message_complete_def Let_def
          intro: whenever_mono[OF whenever_true])
qed

lemma fold_callbacks_has_message:
  "dec_has_message (fst s) \<Longrightarrow> whenever (fold_res run_callback cs s) (\<lambda>s'. dec_has_message (fst s'))"
  by (rule whenever_fold_res) (use run_callback_has_message in auto)

lemma decode_reads_eq:
  assumes "consumes_all api (dec_parser d) xs" and "feed api (dec_parser d) xs = (p', calls)"
  shows "decode_reads api xs (d\<lparr>dec_has_message := True\<rparr>) m =
         bind_res (fold_res run_callback calls (d\<lparr>dec_has_message := True\<rparr>, m))
           (\<lambda>s. Inr (fst (with_parser p' s), snd s, True))"
  using assms
proof (induction xs arbitrary: d m calls)
  case Nil
  then show ?case by (simp add: with_parser_def)
next
  case (Cons x xs)
  obtain p1 c1 n where ex: "api_execute api (dec_parser d) x = (p1, c1, n)"
    by (cases "api_execute api (dec_parser d) x")
  obtain c2 where f2: "feed api p1 xs = (p', c2)" and calls: "calls = c1 @ c2"
    using Cons.prems(2) ex by (cases "feed api p1 xs") auto
  have n: "n = length x" and all: "consumes_all api p1 xs" using Cons.prems(1) ex by auto
  let ?s = "(d\<lparr>dec_has_message := True\<rparr>, m)"
  have dec: "decode api x (d\<lparr>dec_has_message := True\<rparr>) m =
      bind_res (fold_res run_callback c1 ?s) (\<lambda>(d1, m1). Inr (d1\<lparr>dec_parser := p1\<rparr>, m1, n))"
    using ex n by (auto simp: decode_def intro!: bind_res_cong)
  show ?case
  proof (cases "fold_res run_callback c1 ?s")
    case (Inl e)
    then show ?thesis by (simp add: dec calls fold_res_append)
  next
    case (Inr s1)
    obtain d1 m1 where s1: "s1 = (d1, m1)" by (cases s1)
    have "dec_has_message d1"
      using fold_callbacks_has_message[of ?s c1] Inr s1 by simp
    then have d1: "(d1\<lparr>dec_parser := p1\<rparr>)\<lparr>dec_has_message := True\<rparr> = d1\<lparr>dec_parser := p1\<rparr>"
      by simp
    have "decode_reads api xs (d1\<lparr>dec_parser := p1\<rparr>) m1 =
        bind_res (fold_res run_callback c2 (d1\<lparr>dec_parser := p1\<rparr>, m1))
           (\<lambda>s. Inr (fst (with_parser p' s), snd s, True))"
      using Cons.IH[of "d1\<lparr>dec_parser := p1\<rparr>" c2 m1] all f2 unfolding d1 by simp
    also have "\<dots> = bind_res (fold_res run_callback c2 s1)
           (\<lambda>s. Inr (fst (with_parser p' s), snd s, True))"
      using fold_callbacks_with_parser[of c2 p1 s1]
      by (simp add: with_parser_def s1 bind_res_assoc)
    finally show ?thesis
      using Inr n by (simp add: dec calls fold_res_append s1)
  qed
qed

text \<open>The callbacks of one request, with its target, its header fragments and its body pieces.\<close>

definition request_calls :: "parser_view \<Rightarrow> string \<Rightarrow> fragments list \<Rightarrow> string list \<Rightarrow>
    (parser_view \<times> callback) list" where
  "request_calls v u hs ps = (v, On_message_begin) # (v, On_url u) # header_calls v hs @
     (v, On_headers_complete) # map (\<lambda>x. (v, On_body x)) ps @ [(v, On_message_complete)]"

definition response_calls :: "parser_view \<Rightarrow> string \<Rightarrow> fragments list \<Rightarrow> string list \<Rightarrow>
    (parser_view \<times> callback) list" where
  "response_calls v t hs ps = (v, On_message_begin) # (v, On_status t) # header_calls v hs @
     (v, On_headers_complete) # map (\<lambda>x. (v, On_body x)) ps @ [(v, On_message_complete)]"

definition decoded_body :: "parser_view \<Rightarrow> string list \<Rightarrow> string" where
  "decoded_body v ps = concat (map (framed (pv_chunked v)) ps) @ closing (pv_chunked v)"

definition decoded_headers :: "fragments list \<Rightarrow> header_map" where
  "decoded_headers hs = fold (\<lambda>(k, x). map_insert k x) (map joined hs) []"

text \<open>From the first header on, requests and responses are decoded alike.\<close>

definition complete_message :: "parser_view \<Rightarrow> derived_part \<Rightarrow> header_map \<Rightarrow> string \<Rightarrow> http_message \<Rightarrow> bool" where
  "complete_message v p hs t m \<longleftrightarrow> headers_done m \<and> message_done m \<and> derived m = p \<and>
     major_version m = pv_major v \<and> minor_version m = pv_minor v \<and> headers m = hs \<and> body_text m = t"

text \<open>The headers, up to their end, leave a message with an empty body.\<close>

lemma headers_of_message:
  assumes p: "dec_has_message p" "current_value p = []" "current_field p = []" "\<not> dec_chunked p"
    and m: "msg_ok N m" "headers m = []" "body_text m = []"
    and hs: "hs \<noteq> []" "list_all fragments_ok hs"
  shows "\<exists>p' m'. fold_res run_callback (header_calls v hs @ [(v, On_headers_complete)]) (p, m) = Inr (p', m') \<and>
           dec_has_message p' \<and> dec_headers_done p' \<and> dec_chunked p' = pv_chunked v \<and> msg_ok N m' \<and>
           complete_message v (derived m) (decoded_headers hs) [] (m'\<lparr>message_done := True\<rparr>) \<and>
           message_done m' = message_done m"
proof -
  have start: "at_header_start p" using p by (simp add: at_header_start_def)
  obtain p1 m1 where 1: "fold_res run_callback (header_calls v hs) (p, m) = Inr (p1, m1)"
    "p1 = p\<lparr>current_field := current_field p1, current_value := current_value p1\<rparr>"
    "m1 = m\<lparr>headers := headers m1\<rparr>" "current_value p1 \<noteq> []"
    "flushed p1 m1 = fold (\<lambda>(k, x). map_insert k x) (map joined hs) (flushed p m)"
    using header_calls_run[OF start hs(2), of v m] hs(1) by auto
  have hd: "flushed p1 m1 = decoded_headers hs" using 1(5) p(2) m(2) by (simp add: flushed_def decoded_headers_def)
  have ins: "map_insert (current_field p1) (current_value p1) (headers m1) = decoded_headers hs"
    using hd 1(4) by (simp add: flushed_def)
  have p1: "dec_has_message p1" "\<not> dec_chunked p1" by (subst 1(2), simp add: p)+
  have m1: "body m1 = body m" "derived m1 = derived m" "message_done m1 = message_done m" by (subst 1(3), simp)+
  define p2 where "p2 = (let q = p1\<lparr>current_field := [], current_value := [], dec_headers_done := True\<rparr>
      in if pv_chunked v then q\<lparr>dec_chunked := True\<rparr> else q)"
  define m2 where "m2 = m1\<lparr>major_version := pv_major v, minor_version := pv_minor v,
      headers := decoded_headers hs, headers_done := True\<rparr>"
  have 2: "run_callback (v, On_headers_complete) (p1, m1) = Inr (p2, m2)"
    using p1 1(4) ins by (simp add: on_headers_complete_def add_header_def p2_def m2_def Let_def)
  have "headers_ok (decoded_headers hs)"
    using header_store.ins_all_valid[of "[]" "map joined hs"]
    by (simp add: decoded_headers_def header_store.ins_all_def headers_ok_def)
  then have "msg_ok N m2" "complete_message v (derived m) (decoded_headers hs) [] (m2\<lparr>message_done := True\<rparr>)"
    "message_done m2 = message_done m"
    using m m1 by (simp_all add: m2_def msg_ok_def body_text_def complete_message_def)
  moreover have "dec_has_message p2" "dec_chunked p2 = pv_chunked v" "dec_headers_done p2"
    using p1 by (simp_all add: p2_def Let_def)
  moreover have "fold_res run_callback (header_calls v hs @ [(v, On_headers_complete)]) (p, m) = Inr (p2, m2)"
    using 1(1) 2 by (simp add: fold_res_append)
  ultimately show ?thesis by blast
qed

text \<open>Then the pieces of the body, and the end.\<close>

lemma body_of_message:
  assumes "dec_has_message p" and "dec_chunked p = pv_chunked v" and "msg_ok N m"
    and m: "complete_message v d hs [] (m\<lparr>message_done := True\<rparr>)"
    and len: "length (concat (map (framed (pv_chunked v)) ps)) \<le> N"
  shows "\<exists>m'. fold_res run_callback (map (\<lambda>x. (v, On_body x)) ps) (p, m) = Inr (p, m') \<and> msg_ok N m' \<and>
           complete_message v d hs (concat (map (framed (pv_chunked v)) ps)) (m'\<lparr>message_done := True\<rparr>) \<and>
           message_done m' = message_done m"
proof -
  have t: "body_text m = []" using m by (simp add: complete_message_def body_text_def)
  have "length (body_text m) + length (concat (map (framed (dec_chunked p)) ps)) \<le> N"
    unfolding t assms(2) using len by simp
  then obtain m' where "fold_res run_callback (map (\<lambda>x. (v, On_body x)) ps) (p, m) = Inr (p, m')"
    "msg_ok N m'" "only_body m m'" "body_text m' = body_text m @ concat (map (framed (dec_chunked p)) ps)"
    using body_calls[OF assms(1,3), of ps v] by blast
  then show ?thesis using t m assms(2)
    by (auto simp: complete_message_def only_body_def body_text_def)
qed

lemma end_of_message:
  assumes "dec_has_message p" and "dec_chunked p = pv_chunked v" and "msg_ok N m"
    and m: "complete_message v d hs t (m\<lparr>message_done := True\<rparr>)"
    and len: "length t + length (closing (pv_chunked v)) \<le> N"
  shows "\<exists>m'. run_callback (v, On_message_complete) (p, m) = Inr (p\<lparr>dec_message_done := True\<rparr>, m') \<and>
           msg_ok N m' \<and> complete_message v d hs (t @ closing (pv_chunked v)) m'"
proof -
  have t: "body_text m = t" using m by (simp add: complete_message_def body_text_def)
  then obtain m1 where m1: "run_callback (v, On_message_complete) (p, m) =
        Inr (p\<lparr>dec_message_done := True\<rparr>, m1\<lparr>message_done := True\<rparr>)"
    "msg_ok N m1" "only_body m m1" "body_text m1 = t @ closing (pv_chunked v)"
    using message_complete_call[OF assms(1,3), of v] len assms(2) by auto
  then show ?thesis using m
    by (auto simp: complete_message_def only_body_def body_text_def msg_ok_def)
qed

lemma rest_of_message:
  assumes p: "dec_has_message p" "current_value p = []" "current_field p = []" "\<not> dec_chunked p"
    and m: "msg_ok N m" "headers m = []" "body_text m = []"
    and hs: "hs \<noteq> []" "list_all fragments_ok hs" and len: "length (decoded_body v ps) \<le> N"
  shows "\<exists>p' m'. fold_res run_callback (header_calls v hs @ (v, On_headers_complete) #
             map (\<lambda>x. (v, On_body x)) ps @ [(v, On_message_complete)]) (p, m) = Inr (p', m') \<and>
           msg_ok N m' \<and> complete_message v (derived m) (decoded_headers hs) (decoded_body v ps) m' \<and>
           dec_headers_done p' \<and> dec_message_done p'"
proof -
  obtain p2 m2 where 2: "fold_res run_callback (header_calls v hs @ [(v, On_headers_complete)]) (p, m) = Inr (p2, m2)"
    "dec_has_message p2" "dec_headers_done p2" "dec_chunked p2 = pv_chunked v" "msg_ok N m2"
    "complete_message v (derived m) (decoded_headers hs) [] (m2\<lparr>message_done := True\<rparr>)"
    using headers_of_message[OF p m hs, of v] by blast
  obtain m3 where 3: "fold_res run_callback (map (\<lambda>x. (v, On_body x)) ps) (p2, m2) = Inr (p2, m3)" "msg_ok N m3"
    "complete_message v (derived m) (decoded_headers hs) (concat (map (framed (pv_chunked v)) ps)) (m3\<lparr>message_done := True\<rparr>)"
    using body_of_message[OF 2(2,4-6), of ps] len by (auto simp: decoded_body_def)
  obtain m4 where 4: "run_callback (v, On_message_complete) (p2, m3) = Inr (p2\<lparr>dec_message_done := True\<rparr>, m4)"
    "msg_ok N m4" "complete_message v (derived m) (decoded_headers hs) (decoded_body v ps) m4"
    using end_of_message[OF 2(2,4) 3(2,3)] len by (auto simp: decoded_body_def)
  have "header_calls v hs @ (v, On_headers_complete) # map (\<lambda>x. (v, On_body x)) ps @ [(v, On_message_complete)] =
      (header_calls v hs @ [(v, On_headers_complete)]) @ map (\<lambda>x. (v, On_body x)) ps @ [(v, On_message_complete)]"
    by simp
  then have "fold_res run_callback (header_calls v hs @ (v, On_headers_complete) #
      map (\<lambda>x. (v, On_body x)) ps @ [(v, On_message_complete)]) (p, m) =
      Inr (p2\<lparr>dec_message_done := True\<rparr>, m4)"
    using 2(1) 3(1) 4(1) by (simp only: fold_res_append bind_res.simps fold_res_single)
  then show ?thesis using 2(3) 4(2,3) by auto
qed

section \<open>Properties\<close>

text \<open>A parser that makes given callbacks, one list per read, and consumes all its input.\<close>

definition scripted :: "(parser_view \<times> callback) list list \<Rightarrow>
    (parser_view \<times> callback) list list parser_api" where
  "scripted cs = \<lparr>api_init = (\<lambda>_. cs),
     api_execute = (\<lambda>p x. case p of [] \<Rightarrow> ([], [], length x) | c # p' \<Rightarrow> (p', c, length x)),
     api_errno_ok = (\<lambda>_. True), api_should_keep_alive = (\<lambda>_. True)\<rparr>"

definition sample_view :: "bool \<Rightarrow> parser_view" where
  "sample_view c = \<lparr>pv_method = ''POST'', pv_is_connect = False, pv_major = 1, pv_minor = 1,
     pv_status = 0, pv_chunked = c\<rparr>"

definition sample_request :: http_message where
  "sample_request = \<lparr>major_version = 0, minor_version = 0, headers_done = False, message_done = False,
     headers = [], body = null_buffer, derived = Request_part [] []\<rparr>"

lemma sample_request_ok: "msg_ok 100 sample_request"
  by (simp add: sample_request_def msg_ok_def headers_ok_def fits_def SINK_LIMIT_def)

lemma decode_sets_message:
  "xs \<noteq> [] \<Longrightarrow> decode_reads api xs (d\<lparr>dec_has_message := True\<rparr>) m = decode_reads api xs d m"
  by (cases xs) (simp_all add: decode_def)

lemma decoded_headers_lookup: "lookup_header (decoded_headers hs) k = map_of (map joined hs) k"
  using header_store.look_ins_all[of "[]" "map joined hs" k]
  by (simp add: decoded_headers_def header_store.ins_all_def headers_ok_def)

text \<open>The run of the decoder over a whole request.\<close>

lemma request_decoded:
  assumes "reads \<noteq> []" and "consumes_all api (api_init api HTTP_REQUEST) reads"
    and "feed api (api_init api HTTP_REQUEST) reads = (p', request_calls v u hs ps)"
    and "hs \<noteq> []" and "list_all fragments_ok hs"
    and "msg_ok N m" and "headers m = []" and "body_text m = []" and "derived m = Request_part a b"
    and "length (decoded_body v ps) \<le> N"
  shows "\<exists>d' m'. decode_reads api reads (new_decoder api HTTP_REQUEST) m = Inr (d', m', True) \<and>
           complete_message v (Request_part (pv_method v) (rewrite_uri (pv_is_connect v) u))
             (decoded_headers hs) (decoded_body v ps) m' \<and> msg_ok N m'"
proof -
  let ?d = "(new_decoder api HTTP_REQUEST)\<lparr>dec_has_message := True\<rparr>"
  let ?m = "m\<lparr>derived := Request_part (pv_method v) (rewrite_uri (pv_is_connect v) u)\<rparr>"
  obtain d1 m1 where r: "fold_res run_callback (header_calls v hs @ (v, On_headers_complete) #
             map (\<lambda>x. (v, On_body x)) ps @ [(v, On_message_complete)]) (?d, ?m) = Inr (d1, m1)"
    "complete_message v (derived ?m) (decoded_headers hs) (decoded_body v ps) m1" "msg_ok N m1"
    using rest_of_message[of ?d N ?m hs v ps] assms by (auto simp: new_decoder_def msg_ok_def body_text_def)
  have "on_message_begin (?d, m) = Inr (?d, m)"
    by (simp add: on_message_begin_def new_decoder_def)
  moreover have "on_url v u (?d, m) = Inr (?d, ?m)"
    using assms(9) by (simp add: on_url_def set_method_uri_def)
  ultimately have "fold_res run_callback (request_calls v u hs ps) (?d, m) = Inr (d1, m1)"
    using r(1) by (simp add: request_calls_def)
  moreover have "dec_parser (new_decoder api HTTP_REQUEST) = api_init api HTTP_REQUEST"
    by (simp add: new_decoder_def)
  ultimately have "decode_reads api reads (new_decoder api HTTP_REQUEST) m =
      Inr (fst (with_parser p' (d1, m1)), m1, True)"
    using decode_reads_eq[of api "new_decoder api HTTP_REQUEST" reads p' _ m] assms(2,3)
      decode_sets_message[OF assms(1), of api "new_decoder api HTTP_REQUEST" m] by simp
  then show ?thesis using r(2,3) by simp
qed

text \<open>
  C39: Request targets. For a method other than CONNECT the decoder turns an absolute target
  \<open>http://host/path\<close> into \<open>/path\<close> and \<open>http://host\<close> into \<open>/\<close>, leaves an origin-form target as it is,
  and in every case stores a target that starts with a slash; a CONNECT target is not changed.
\<close>

theorem request_target_rewriting:
  assumes "CHR ''/'' \<notin> set host" and "length host \<le> MAX_ALLOC"
  shows "rewrite_uri False (''http://'' @ host @ CHR ''/'' # path) = CHR ''/'' # path \<and>
         rewrite_uri False (''http://'' @ host) = ''/'' \<and>
         rewrite_uri False (CHR ''/'' # path) = CHR ''/'' # path \<and>
         char_at_0 (rewrite_uri False any) = CHR ''/'' \<and>
         rewrite_uri True any = any"
  using rewrite_uri_absolute[OF assms] by (simp add: rewrite_uri_slash)

theorem request_target_rewriting_witness:
  "rewrite_uri False ''http://example.com/a/b'' = ''/a/b'' \<and> rewrite_uri False ''http://example.com'' = ''/''"
  using request_target_rewriting[of "''example.com''" "''a/b''"] by (simp add: MAX_ALLOC_def)

text \<open>
  C12: A whole request. Let the parser, over any number of reads that it consumes entirely, make the
  callbacks of one request with one call for its target and at least one header, every header's name and
  value in any number of fragments (the name in at least one, the value not empty). Then the decoder
  completes the message without a fault: method
  and version as the parser reports them, the target rewritten, every header found under its joined
  name with the first joined value given for that name, and as body the pieces, framed as chunks
  again when the message is chunked. The result depends neither on the reads nor on the fragments.
\<close>

theorem decoder_completes_request:
  assumes "reads \<noteq> []" and "consumes_all api (api_init api HTTP_REQUEST) reads"
    and "feed api (api_init api HTTP_REQUEST) reads = (p', request_calls v u hs ps)"
    and "hs \<noteq> []" and "list_all fragments_ok hs"
    and "msg_ok N m" and "headers m = []" and "body_text m = []" and "derived m = Request_part a b"
    and "length (decoded_body v ps) \<le> N"
  shows "\<exists>d' m'. decode_reads api reads (new_decoder api HTTP_REQUEST) m = Inr (d', m', True) \<and>
           complete_message v (Request_part (pv_method v) (rewrite_uri (pv_is_connect v) u))
             (decoded_headers hs) (decoded_body v ps) m' \<and>
           find_header m' name = map_of (map joined hs) name \<and> deliverable m'"
  using request_decoded[OF assms]
  by (auto simp: complete_message_def find_header_def decoded_headers_lookup deliverable_def completed_def)

theorem decoder_completes_request_witness:
  "\<exists>d' m'. decode_reads (scripted [take 4 (request_calls (sample_view True) ''http://h/x''
              [([''Ho'', ''st''], [''h'']), ([''A''], [''b'', ''c''])] [''hi'']),
              drop 4 (request_calls (sample_view True) ''http://h/x''
              [([''Ho'', ''st''], [''h'']), ([''A''], [''b'', ''c''])] [''hi''])]) [''r1'', ''r2'']
            (new_decoder (scripted [take 4 (request_calls (sample_view True) ''http://h/x''
              [([''Ho'', ''st''], [''h'']), ([''A''], [''b'', ''c''])] [''hi'']),
              drop 4 (request_calls (sample_view True) ''http://h/x''
              [([''Ho'', ''st''], [''h'']), ([''A''], [''b'', ''c''])] [''hi''])]) HTTP_REQUEST)
            sample_request = Inr (d', m', True) \<and>
     derived m' = Request_part ''POST'' ''/x'' \<and> find_header m' ''Host'' = Some ''h''"
  (is "\<exists>d' m'. decode_reads ?api _ _ _ = _ \<and> _")
proof -
  let ?hs = "[([''Ho'', ''st''], [''h'']), ([''A''], [''b'', ''c''])] :: fragments list"
  have body: "length (decoded_body (sample_view True) [''hi'']) \<le> 100"
    by (simp add: decoded_body_def framed_def closing_def sample_view_def hex_string_def digits_in.simps
        CRLF_def END_CHUNK_def)
  have target: "rewrite_uri False ''http://h/x'' = ''/x''"
    using rewrite_uri_absolute(1)[of "''h''" "''x''"] by (simp add: MAX_ALLOC_def)
  have "\<exists>d' m'. decode_reads ?api [''r1'', ''r2''] (new_decoder ?api HTTP_REQUEST) sample_request = Inr (d', m', True) \<and>
      complete_message (sample_view True)
        (Request_part (pv_method (sample_view True)) (rewrite_uri (pv_is_connect (sample_view True)) ''http://h/x''))
        (decoded_headers ?hs) (decoded_body (sample_view True) [''hi'']) m' \<and>
      find_header m' ''Host'' = map_of (map joined ?hs) ''Host'' \<and> deliverable m'"
  proof (rule decoder_completes_request[where N = 100 and p' = "[]" and a = "[]" and b = "[]"])
    show "feed ?api (api_init ?api HTTP_REQUEST) [''r1'', ''r2''] =
        ([], request_calls (sample_view True) ''http://h/x'' ?hs [''hi''])"
      by (simp add: scripted_def)
  qed (use sample_request_ok body in \<open>simp_all add: scripted_def fragments_ok_def sample_request_def body_text_def\<close>)
  then show ?thesis
    by (auto simp: complete_message_def joined_def sample_view_def target)
qed

text \<open>
  A message without headers. If the parser reports the end of the headers before any header value
  (a request line followed by an empty line, or headers whose last value is empty), the assertion in
  \<open>on_headers_complete\<close> fails and the process ends, whatever was decoded before.
\<close>

theorem headerless_request_aborts:
  assumes "api_execute api (api_init api HTTP_REQUEST) data =
             (p', [(v, On_message_begin), (v, On_url u), (v, On_headers_complete)] @ later, n)"
    and "derived m = Request_part a b"
  shows "decode api data (new_decoder api HTTP_REQUEST) m = Inl Assertion_Failed"
  using assms
  by (simp add: decode_def new_decoder_def on_message_begin_def on_url_def set_method_uri_def
      on_headers_complete_def)

theorem headerless_request_aborts_witness:
  "decode (scripted [[(sample_view False, On_message_begin), (sample_view False, On_url ''/''),
             (sample_view False, On_headers_complete), (sample_view False, On_message_complete)]])
     ''GET / HTTP/1.0'' (new_decoder (scripted [[(sample_view False, On_message_begin),
             (sample_view False, On_url ''/''), (sample_view False, On_headers_complete),
             (sample_view False, On_message_complete)]]) HTTP_REQUEST) sample_request = Inl Assertion_Failed"
  by (rule headerless_request_aborts[where p' = "[]" and n = 14 and v = "sample_view False" and u = "''/''"
        and later = "[(sample_view False, On_message_complete)]" and a = "[]" and b = "[]"])
     (simp_all add: scripted_def sample_request_def)

text \<open>
  A header with an empty value. Its name is not dropped and not stored: the next header's name is
  appended to it, so the two headers decode as one header with the concatenated name.
\<close>

theorem empty_header_value_merges_names:
  assumes "dec_has_message p" and "current_field p = []" and "current_value p = []"
  shows "fold_res run_callback
           [(v, On_header_field f1), (v, On_header_value []), (v, On_header_field f2), (v, On_header_value x)]
           (p, m) =
         fold_res run_callback [(v, On_header_field (f1 @ f2)), (v, On_header_value x)] (p, m)"
  using assms by (simp add: on_header_field_def on_header_value_def)

theorem empty_header_value_merges_names_witness:
  "fold_res run_callback
     [(sample_view False, On_header_field ''X-A''), (sample_view False, On_header_value []),
      (sample_view False, On_header_field ''Host''), (sample_view False, On_header_value ''h'')]
     ((new_decoder (scripted []) HTTP_REQUEST)\<lparr>dec_has_message := True\<rparr>, sample_request) =
   fold_res run_callback
     [(sample_view False, On_header_field ''X-AHost''), (sample_view False, On_header_value ''h'')]
     ((new_decoder (scripted []) HTTP_REQUEST)\<lparr>dec_has_message := True\<rparr>, sample_request)"
  using empty_header_value_merges_names[of "(new_decoder (scripted []) HTTP_REQUEST)\<lparr>dec_has_message := True\<rparr>"
      "sample_view False" "''X-A''" "''Host''" "''h''" sample_request]
  by (simp add: new_decoder_def)

text \<open>
  A request target that the parser reports in two fragments (its bytes came in two reads). The
  second call overwrites what the first stored, so the message is decoded as if the target were the
  second fragment alone.
\<close>

theorem split_target_loses_first_part:
  assumes "dec_has_message p" and "derived m = Request_part a b"
  shows "fold_res run_callback [(v, On_url u1), (v, On_url u2)] (p, m) =
         fold_res run_callback [(v, On_url u2)] (p, m)"
  using assms by (simp add: on_url_def set_method_uri_def)

theorem split_target_loses_first_part_witness:
  "fold_res run_callback [(sample_view False, On_url ''/long/pa''), (sample_view False, On_url ''th'')]
     ((new_decoder (scripted []) HTTP_REQUEST)\<lparr>dec_has_message := True\<rparr>, sample_request) =
   fold_res run_callback [(sample_view False, On_url ''th'')]
     ((new_decoder (scripted []) HTTP_REQUEST)\<lparr>dec_has_message := True\<rparr>, sample_request)"
  using split_target_loses_first_part[of "(new_decoder (scripted []) HTTP_REQUEST)\<lparr>dec_has_message := True\<rparr>"
      sample_request "[]" "[]" "sample_view False" "''/long/pa''" "''th''"]
  by (simp add: new_decoder_def sample_request_def)

end
