(* ===== verification/CertNames.thy ===== *)
theory CertNames
  imports Prelude
begin

text \<open>
  Which certificate serves a host: \<open>parse_common_name\<close> and \<open>get_certificate_filename\<close> of
  \<open>src/certificate_manager.cpp\<close>, with a reference definition on the labels of a host name.
\<close>

section \<open>The code\<close>

text \<open>
  \<open>s[i] = c\<close> on a \<open>std::string\<close>. An index past the end is undefined behaviour; so is storing anything
  but a NUL at index \<open>s.size()\<close>.
\<close>

definition set_char_at :: "string \<Rightarrow> nat \<Rightarrow> char \<Rightarrow> string result" where
  "set_char_at s i c = (if i < length s then Inr (s[i := c]) else Inl Out_Of_Bounds)"

definition parse_common_name :: "string \<Rightarrow> string result" where
  "parse_common_name host =
     (let dot_count = count_list host CHR ''.'' in
      if dot_count < 2 then Inr host
      else let lst = find_last_of CHR ''.'' host npos;
               penult = find_last_of CHR ''.'' host (size_sub lst 1) in
        if size_sub lst penult \<le> 4 then Inr host
        else let first = find_char CHR ''.'' host 0 in
          bind_res (set_char_at host (size_sub first 1) CHR ''*'') (\<lambda>common_name.
          Inr (drop (size_sub first 1) common_name)))"

definition get_certificate_filename :: "string \<Rightarrow> string \<Rightarrow> string" where
  "get_certificate_filename cert_dir common_name =
     cert_dir @ (case common_name of [] \<Rightarrow> []
                 | c # cs \<Rightarrow> (if c = CHR ''*'' then CHR ''^'' else c) # cs) @ ''.crt''"

section \<open>Labels\<close>

fun split_dots :: "string \<Rightarrow> string list" where
  "split_dots [] = [[]]"
| "split_dots (c # s) =
     (case split_dots s of [] \<Rightarrow> [[c]]
      | l # ls \<Rightarrow> if c = CHR ''.'' then [] # l # ls else (c # l) # ls)"

fun join_dots :: "string list \<Rightarrow> string" where
  "join_dots [] = []"
| "join_dots [l] = l"
| "join_dots (l # ls) = l @ CHR ''.'' # join_dots ls"

text \<open>
  The reference: a wildcard for the first label when there are at least three labels and the last but
  one has at least four characters (so that \<open>*.co.uk\<close> is never asked for), otherwise the host itself.
\<close>

definition wildcard_name :: "string \<Rightarrow> string" where
  "wildcard_name host =
     (let ls = split_dots host in
      if length ls < 3 \<or> length (ls ! (length ls - 2)) < 4 then host
      else join_dots (''*'' # tl ls))"

text \<open>A certificate name covers a host: it is the host, or a wildcard for its first label.\<close>

definition covers :: "string \<Rightarrow> string \<Rightarrow> bool" where
  "covers name host \<longleftrightarrow> name = host \<or>
     (hd (split_dots name) = ''*'' \<and> tl (split_dots name) \<noteq> [] \<and>
      tl (split_dots host) = tl (split_dots name) \<and> hd (split_dots host) \<noteq> [])"

lemma split_dots_not_Nil [simp]: "split_dots s \<noteq> []"
  by (cases s) (auto split: list.splits)

lemma length_split_dots: "length (split_dots s) = Suc (count_list s CHR ''.'')"
proof (induction s)
  case (Cons c s)
  then show ?case by (cases "split_dots s") auto
qed simp

lemma dotless_labels: "l \<in> set (split_dots s) \<Longrightarrow> CHR ''.'' \<notin> set l"
proof (induction s arbitrary: l)
  case (Cons c s)
  obtain a as where s: "split_dots s = a # as" by (cases "split_dots s") simp_all
  show ?case using Cons.prems Cons.IH[of l] Cons.IH[of a] by (auto simp: s split: if_splits)
qed simp

lemma join_dots_Cons: "ls \<noteq> [] \<Longrightarrow> join_dots (l # ls) = l @ CHR ''.'' # join_dots ls"
  by (cases ls) simp_all

lemma join_dots_char: "join_dots ((c # l) # ls) = c # join_dots (l # ls)"
  by (cases ls) simp_all

lemma join_split_dots [simp]: "join_dots (split_dots s) = s"
proof (induction s)
  case (Cons c s)
  then show ?case by (cases "split_dots s") (simp_all add: join_dots_Cons join_dots_char)
qed simp

lemma split_dots_dot: "split_dots (CHR ''.'' # s) = [] # split_dots s"
  by (auto split: list.split)

lemma split_dots_append: "CHR ''.'' \<notin> set l \<Longrightarrow> split_dots (l @ CHR ''.'' # s) = l # split_dots s"
proof (induction l)
  case Nil
  show ?case by (simp only: append_Nil split_dots_dot)
qed auto

lemma split_dots_dotless: "CHR ''.'' \<notin> set l \<Longrightarrow> split_dots l = [l]"
  by (induction l) auto

lemma split_join_dots: "ls \<noteq> [] \<Longrightarrow> (\<forall>l \<in> set ls. CHR ''.'' \<notin> set l) \<Longrightarrow> split_dots (join_dots ls) = ls"
proof (induction ls)
  case (Cons l ls)
  then show ?case
    by (cases "ls = []") (simp_all add: split_dots_dotless join_dots_Cons split_dots_append)
qed simp

lemma join_dots_append:
  "xs \<noteq> [] \<Longrightarrow> ys \<noteq> [] \<Longrightarrow> join_dots (xs @ ys) = join_dots xs @ CHR ''.'' # join_dots ys"
proof (induction xs)
  case (Cons x xs)
  then show ?case by (cases "xs = []") (simp_all add: join_dots_Cons)
qed simp

section \<open>The code computes the reference\<close>

lemma find_last_of_dot:
  assumes "CHR ''.'' \<notin> set t"
  shows "find_last_from CHR ''.'' (p @ CHR ''.'' # t @ r) (length (p @ CHR ''.'' # t)) = length p"
proof -
  let ?s = "p @ CHR ''.'' # t @ r"
  have "find_last_from CHR ''.'' ?s (length (p @ CHR ''.'' # t)) = find_last_from CHR ''.'' ?s (Suc (length p))"
  proof (rule find_last_from_skip)
    show "\<forall>j. Suc (length p) \<le> j \<and> j < length (p @ CHR ''.'' # t) \<longrightarrow> j < length ?s \<longrightarrow> ?s ! j \<noteq> CHR ''.''"
      using assms by (auto simp: nth_append nth_Cons' in_set_conv_nth)
  qed simp
  then show ?thesis using find_last_from_here[of "length p" ?s] by (simp add: nth_append)
qed

lemma last_two_dots:
  assumes "host = p @ CHR ''.'' # q @ CHR ''.'' # t" and "CHR ''.'' \<notin> set q" and "CHR ''.'' \<notin> set t"
    and "length host \<le> MAX_ALLOC"
  shows "find_last_of CHR ''.'' host npos = length p + 1 + length q"
    and "find_last_of CHR ''.'' host (length p + length q) = length p"
proof -
  have "min (Suc npos) (length host) = length host"
    using assms(4) by (simp add: npos_def SIZE_MOD_def MAX_ALLOC_def)
  then show "find_last_of CHR ''.'' host npos = length p + 1 + length q"
    using find_last_of_dot[OF assms(3), of "p @ CHR ''.'' # q" "[]"] assms(1) by (simp add: find_last_of_def)
  have "min (Suc (length p + length q)) (length host) = length (p @ CHR ''.'' # q)"
    using assms(1) by simp
  then show "find_last_of CHR ''.'' host (length p + length q) = length p"
    using find_last_of_dot[OF assms(2), of p "CHR ''.'' # t"] assms(1) by (simp add: find_last_of_def)
qed

lemma star_first_label:
  assumes "CHR ''.'' \<notin> set l" and "l \<noteq> []"
  shows "bind_res (set_char_at (l @ CHR ''.'' # r) (size_sub (length l) 1) CHR ''*'')
           (\<lambda>n. Inr (drop (size_sub (length l) 1) n)) = Inr (CHR ''*'' # CHR ''.'' # r)"
proof -
  obtain a c where l: "l = a @ [c]" using assms(2) by (cases l rule: rev_cases) simp_all
  then show ?thesis by (simp add: set_char_at_def list_update_append)
qed

lemma parse_common_name_labels:
  assumes "split_dots host = l # ms @ [q, t]" and "length host \<le> MAX_ALLOC"
  shows "parse_common_name host =
           (if length q < 4 then Inr host
            else bind_res (set_char_at host (size_sub (length l) 1) CHR ''*'') (\<lambda>n.
                 Inr (drop (size_sub (length l) 1) n)))"
proof -
  have dotless: "\<And>x. x \<in> set (l # ms @ [q, t]) \<Longrightarrow> CHR ''.'' \<notin> set x"
    using dotless_labels[of _ host] assms(1) by simp
  have host: "host = join_dots (l # ms) @ CHR ''.'' # q @ CHR ''.'' # t"
    using join_split_dots[of host] assms(1) join_dots_append[of "l # ms" "[q, t]"] by simp
  have first: "find_char CHR ''.'' host 0 = length l"
    using find_char_some[OF dotless[of l], of "join_dots (ms @ [q, t])"] join_split_dots[of host] assms(1)
    by (simp add: join_dots_Cons)
  have count: "\<not> count_list host CHR ''.'' < 2"
    using length_split_dots[of host] assms(1) by simp
  show ?thesis
    using last_two_dots[OF host _ _ assms(2)] dotless first count
    by (auto simp: parse_common_name_def Let_def)
qed

lemma split_three:
  assumes "\<not> length (split_dots host) < 3"
  obtains l ms q t where "split_dots host = l # ms @ [q, t]"
proof -
  obtain l ls where 1: "split_dots host = l # ls" by (cases "split_dots host") simp_all
  with assms have "length ls \<ge> 2" by simp
  then obtain ls' t where 2: "ls = ls' @ [t]" and "length ls' \<ge> 1" by (cases ls rule: rev_cases) auto
  then obtain ms q where "ls' = ms @ [q]" by (cases ls' rule: rev_cases) auto
  with 1 2 that show thesis by simp
qed

lemma wildcard_name_labels:
  "split_dots host = l # ms @ [q, t] \<Longrightarrow>
   wildcard_name host = (if length q < 4 then host else ''*.'' @ join_dots (ms @ [q, t]))"
  by (simp add: wildcard_name_def Let_def nth_append join_dots_Cons)

lemma parse_common_name_eq:
  assumes "hd (split_dots host) \<noteq> []" and "length host \<le> MAX_ALLOC"
  shows "parse_common_name host = Inr (wildcard_name host)"
proof (cases "length (split_dots host) < 3")
  case True
  then show ?thesis
    using length_split_dots[of host] by (simp add: parse_common_name_def wildcard_name_def)
next
  case False
  then obtain l ms q t where s: "split_dots host = l # ms @ [q, t]" by (rule split_three)
  have "host = l @ CHR ''.'' # join_dots (ms @ [q, t])"
    using join_split_dots[of host] by (simp add: s join_dots_Cons)
  moreover have "CHR ''.'' \<notin> set l" "l \<noteq> []" using dotless_labels[of l host] s assms(1) by simp_all
  ultimately show ?thesis
    using parse_common_name_labels[OF s assms(2)] wildcard_name_labels[OF s]
      star_first_label[of l "join_dots (ms @ [q, t])"]
    by simp
qed

lemma split_wildcard:
  assumes "split_dots host = l # ms @ [q, t]"
  shows "split_dots (''*.'' @ join_dots (ms @ [q, t])) = ''*'' # ms @ [q, t]"
  using split_join_dots[of "''*'' # ms @ [q, t]"] dotless_labels[of _ host] assms
  by (auto simp: join_dots_Cons)

lemma wildcard_name_cases:
  obtains (same) "wildcard_name host = host"
  | (wild) l ms q t where "split_dots host = l # ms @ [q, t]" and "\<not> length q < 4"
      and "wildcard_name host = ''*.'' @ join_dots (ms @ [q, t])"
proof (cases "length (split_dots host) < 3")
  case True
  with same show thesis by (simp add: wildcard_name_def)
next
  case False
  then obtain l ms q t where s: "split_dots host = l # ms @ [q, t]" by (rule split_three)
  with same wild wildcard_name_labels[OF s] show thesis by (cases "length q < 4") simp_all
qed

lemma wildcard_name_idem [simp]: "wildcard_name (wildcard_name host) = wildcard_name host"
proof (cases host rule: wildcard_name_cases)
  case (wild l ms q t)
  then show ?thesis using wildcard_name_labels[OF split_wildcard[OF wild(1)]] by simp
qed simp

lemma wildcard_name_covers: "hd (split_dots host) \<noteq> [] \<Longrightarrow> covers (wildcard_name host) host"
proof (cases host rule: wildcard_name_cases)
  case (wild l ms q t)
  moreover assume "hd (split_dots host) \<noteq> []"
  ultimately show ?thesis using split_wildcard[OF wild(1)] by (simp add: covers_def)
qed (simp add: covers_def)

lemma covered_same_name:
  assumes "wildcard_name a \<noteq> a" and "covers (wildcard_name a) b"
  shows "wildcard_name b = wildcard_name a"
proof (cases a rule: wildcard_name_cases)
  case (wild l ms q t)
  show ?thesis
  proof (cases "wildcard_name a = b")
    case False
    with assms(2) wild split_wildcard[OF wild(1)]
    have "tl (split_dots b) = ms @ [q, t]" by (simp add: covers_def)
    then have "split_dots b = hd (split_dots b) # ms @ [q, t]"
      by (metis list.collapse split_dots_not_Nil)
    then show ?thesis using wildcard_name_labels[of b] wild by simp
  qed (auto simp: assms)
qed (use assms in simp)

lemma wildcard_name_length: "hd (split_dots host) \<noteq> [] \<Longrightarrow> length (wildcard_name host) \<le> length host"
proof (cases host rule: wildcard_name_cases)
  case (wild l ms q t)
  then have "host = l @ CHR ''.'' # join_dots (ms @ [q, t])"
    using join_split_dots[of host] by (simp add: join_dots_Cons)
  moreover assume "hd (split_dots host) \<noteq> []"
  ultimately show ?thesis using wild(1,3) by (cases l) auto
qed simp

lemma wildcard_name_first: "hd (split_dots host) \<noteq> [] \<Longrightarrow> hd (split_dots (wildcard_name host)) \<noteq> []"
proof (cases host rule: wildcard_name_cases)
  case (wild l ms q t)
  then show ?thesis using split_wildcard[OF wild(1)] by simp
qed simp

section \<open>Properties\<close>

text \<open>
  A host with an empty first label. The index of the character before the first dot wraps around,
  and the store of the wildcard character is outside the string.
\<close>

theorem leading_dot_writes_out_of_bounds:
  assumes "split_dots host = [] # ms @ [q, t]" and "4 \<le> length q" and "length host \<le> MAX_ALLOC"
  shows "parse_common_name host = Inl Out_Of_Bounds"
proof -
  have "\<not> size_sub 0 1 < length host"
    using assms(3) by (simp add: size_sub_def SIZE_MOD_def MAX_ALLOC_def)
  then show ?thesis
    using parse_common_name_labels[OF assms(1,3)] assms(2) by (simp add: set_char_at_def)
qed

theorem leading_dot_writes_out_of_bounds_witness:
  "parse_common_name ''.google.com'' = Inl Out_Of_Bounds"
  by (rule leading_dot_writes_out_of_bounds[of _ "[]" "''google''" "''com''"]) (simp_all add: MAX_ALLOC_def)

lemma leading_dot_name:
  assumes "hd (split_dots host) = []" and "length host \<le> MAX_ALLOC"
  shows "parse_common_name host = (if wildcard_name host \<noteq> host then Inl Out_Of_Bounds else Inr host)"
proof (cases "length (split_dots host) < 3")
  case True
  then show ?thesis using length_split_dots[of host] by (simp add: parse_common_name_def wildcard_name_def)
next
  case False
  then obtain l ms q t where s: "split_dots host = l # ms @ [q, t]" by (rule split_three)
  then have l: "split_dots host = [] # ms @ [q, t]" using assms(1) by simp
  have "host = CHR ''.'' # join_dots (ms @ [q, t])"
    using join_split_dots[of host] by (simp add: l join_dots_Cons)
  then have "''*.'' @ join_dots (ms @ [q, t]) \<noteq> host" by auto
  then show ?thesis
    using leading_dot_writes_out_of_bounds[OF l _ assms(2)] parse_common_name_labels[OF l assms(2)]
      wildcard_name_labels[OF l]
    by simp
qed

text \<open>
  C35: The name of the certificate for a host. The code computes the reference name without a fault,
  except for a host whose first label is empty and whose name would be a wildcard, where it stores outside
  the string. When the first label is not empty, the name covers the host and is its own name.
\<close>

theorem common_name_of_host:
  assumes "length host \<le> MAX_ALLOC"
  shows "parse_common_name host =
           (if hd (split_dots host) = [] \<and> wildcard_name host \<noteq> host then Inl Out_Of_Bounds
            else Inr (wildcard_name host)) \<and>
         (hd (split_dots host) \<noteq> [] \<longrightarrow> covers (wildcard_name host) host \<and>
            parse_common_name (wildcard_name host) = Inr (wildcard_name host))"
proof (cases "hd (split_dots host) = []")
  case True
  then show ?thesis using leading_dot_name[OF _ assms] by simp
next
  case False
  then show ?thesis
    using parse_common_name_eq[OF False assms] wildcard_name_covers[OF False]
      parse_common_name_eq[OF wildcard_name_first[OF False]] wildcard_name_length[OF False] assms
    by simp
qed

theorem common_name_of_host_witness:
  "parse_common_name ''www.google.com'' = Inr ''*.google.com'' \<and>
   parse_common_name ''news.bbc.co.uk'' = Inr ''news.bbc.co.uk'' \<and>
   parse_common_name ''.google.com'' = Inl Out_Of_Bounds"
  using common_name_of_host[of "''www.google.com''"] common_name_of_host[of "''news.bbc.co.uk''"]
    common_name_of_host[of "''.google.com''"]
  by (simp add: MAX_ALLOC_def wildcard_name_def)

text \<open>
  One certificate for all hosts of a domain. When the name for a host is a wildcard, every host
  that the name covers gets this name too, so all of them share one cached certificate.
\<close>

theorem covered_hosts_share_name:
  assumes "parse_common_name host = Inr name" and "name \<noteq> host" and "covers name other"
    and "hd (split_dots host) \<noteq> []" and "length host \<le> MAX_ALLOC"
    and "hd (split_dots other) \<noteq> []" and "length other \<le> MAX_ALLOC"
  shows "parse_common_name other = Inr name"
proof -
  have "name = wildcard_name host" using assms(1) parse_common_name_eq[OF assms(4,5)] by simp
  with assms(2,3) show ?thesis
    using covered_same_name[of host other] parse_common_name_eq[OF assms(6,7)] by simp
qed

theorem covered_hosts_share_name_witness:
  "parse_common_name ''mail.google.com'' = Inr ''*.google.com''"
  by (rule covered_hosts_share_name[of "''www.google.com''"])
     (simp_all add: parse_common_name_eq wildcard_name_def MAX_ALLOC_def covers_def)

text \<open>
  Certificate files. Two names that do not begin with a caret have the same file only if they are
  the same name, so no certificate is loaded for a name it was not made for.
\<close>

theorem filename_injective:
  assumes "get_certificate_filename dir a = get_certificate_filename dir b"
    and "a = [] \<or> hd a \<noteq> CHR ''^''" and "b = [] \<or> hd b \<noteq> CHR ''^''"
  shows "a = b"
  using assms by (cases a; cases b) (auto simp: get_certificate_filename_def split: if_splits)

theorem filename_injective_witness:
  "get_certificate_filename ''cert/'' ''*.a.bc'' = ''cert/^.a.bc.crt'' \<and> ''*.a.bc'' = ''*.a.bc''"
  using filename_injective[of "''cert/''" "''*.a.bc''" "''*.a.bc''"]
  by (simp add: get_certificate_filename_def)

end
