(* ===== verification/CertificateManager.thy ===== *)
theory CertificateManager
  imports CertNames "HOL-Library.State_Monad"
begin

text \<open>
  The certificate manager: \<open>include/x/ssl/certificate_manager.hpp\<close> and \<open>src/certificate_manager.cpp\<close>.
  OpenSSL, the C file functions and the clock are not part of the repository: they are a parameter,
  \<open>environment\<close>, which answers every call as it likes, depending on all calls made before. A pointer is
  an integer, 0 for \<open>nullptr\<close>. The state of the model is the state of the manager, the history of
  library calls with their answers (newest first), and the objects that the code holds by a raw
  pointer and has to free, close or hand over (\<open>owned\<close>); freeing anything else sets \<open>bad_free\<close>.
  The lifetime of objects owned by smart pointers and the log output are not modelled.
\<close>

section \<open>The library's interface\<close>

datatype digest = EVP_sha1

text \<open>The name objects inside a certificate or a request, as \<open>X509_get_subject_name\<close> returns them.\<close>

datatype name_ref = X509_subject int | REQ_subject int

datatype lib_call =
    Fopen string string
  | Fclose int
  | PEM_read_X509 int
  | PEM_read_PrivateKey int
  | PEM_read_DHparams int
  | PEM_write_X509 int int
  | PEM_write_PrivateKey int int
  | PEM_write_DHparams int int
  | X509_new
  | X509_free int
  | X509_set_serial int int
  | X509_set_notBefore int int
  | X509_set_notAfter int int
  | X509_set_pubkey int int
  | X509_set_issuer_name int name_ref
  | X509_set_subject_name int name_ref
  | X509_NAME_add_entry name_ref string string
  | X509_sign int int digest
  | X509_REQ_new
  | X509_REQ_free int
  | X509_REQ_set_pubkey int int
  | X509_REQ_sign int int digest
  | X509_REQ_verify int int
  | EVP_PKEY_new
  | EVP_PKEY_free int
  | EVP_PKEY_assign_RSA int int
  | RSA_generate_key int int
  | RSA_free int
  | DH_generate_parameters int int
  | DH_free int
  | Universal_time

type_synonym environment = "(lib_call \<times> int) list \<Rightarrow> lib_call \<Rightarrow> int"

datatype resource = R_X509 int | R_PKEY int | R_REQ int | R_RSA int | R_DH int | R_FILE int

section \<open>State\<close>

record certificate =
  cert_key :: int
  cert_x509 :: int

record cert_manager =
  cert_dir :: string
  dh :: int
  root :: certificate
  certificates :: "string \<rightharpoonup> certificate"
  history :: "(lib_call \<times> int) list"
  owned :: "resource list"
  bad_free :: bool

type_synonym 'a cm = "(cert_manager, 'a) state"

definition no_certificate :: certificate where
  "no_certificate = \<lparr>cert_key = 0, cert_x509 = 0\<rparr>"

definition new_manager :: cert_manager where
  "new_manager = \<lparr>cert_dir = ''cert/'', dh = 0, root = no_certificate, certificates = Map.empty,
     history = [], owned = [], bad_free = False\<rparr>"

definition invoke :: "environment \<Rightarrow> lib_call \<Rightarrow> int cm" where
  "invoke env c = State (\<lambda>s. let r = env (history s) c in (r, s\<lparr>history := (c, r) # history s\<rparr>))"

text \<open>Taking a raw pointer into ownership, and giving it up (freed, or handed to a smart pointer).\<close>

definition own :: "resource \<Rightarrow> unit cm" where
  "own r = State (\<lambda>s. ((), s\<lparr>owned := r # owned s\<rparr>))"

definition disown :: "resource \<Rightarrow> unit cm" where
  "disown r = State (\<lambda>s. ((), if r \<in> set (owned s) then s\<lparr>owned := remove1 r (owned s)\<rparr>
                               else s\<lparr>bad_free := True\<rparr>))"

definition acquire :: "environment \<Rightarrow> lib_call \<Rightarrow> (int \<Rightarrow> resource) \<Rightarrow> int cm" where
  "acquire env c R = do {
     p \<leftarrow> invoke env c;
     _ \<leftarrow> if p = 0 then State_Monad.return () else own (R p);
     State_Monad.return p
   }"

definition discard :: "environment \<Rightarrow> lib_call \<Rightarrow> resource \<Rightarrow> unit cm" where
  "discard env c r = do {
     _ \<leftarrow> invoke env c;
     disown r
   }"

definition get_state :: "cert_manager cm" where
  "get_state = State (\<lambda>s. (s, s))"

definition c_str :: "string \<Rightarrow> string" where
  "c_str s = takeWhile (\<lambda>c. c \<noteq> CHR 0x00) s"

definition fopen :: "environment \<Rightarrow> string \<Rightarrow> string \<Rightarrow> int cm" where
  "fopen env file mode = acquire env (Fopen (c_str file) mode) R_FILE"

definition fclose :: "environment \<Rightarrow> int \<Rightarrow> unit cm" where
  "fclose env fp = discard env (Fclose fp) (R_FILE fp)"

text \<open>\<open>certificate::set_key\<close> and \<open>set_cert\<close>: the raw pointer is handed to the shared pointer.\<close>

definition set_key :: "int \<Rightarrow> certificate \<Rightarrow> certificate cm" where
  "set_key k c = do { _ \<leftarrow> disown (R_PKEY k); State_Monad.return (c\<lparr>cert_key := k\<rparr>) }"

definition set_cert :: "int \<Rightarrow> certificate \<Rightarrow> certificate cm" where
  "set_cert x c = do { _ \<leftarrow> disown (R_X509 x); State_Monad.return (c\<lparr>cert_x509 := x\<rparr>) }"

section \<open>Keys and requests\<close>

definition RSA_F4 :: int where "RSA_F4 = 65537"
definition DH_GENERATOR_2 :: int where "DH_GENERATOR_2 = 2"
definition TEN_YEARS :: int where "TEN_YEARS = 60 * 60 * 24 * 365 * 10"

definition generate_key :: "environment \<Rightarrow> int option cm" where
  "generate_key env = do {
     k \<leftarrow> acquire env EVP_PKEY_new R_PKEY;
     if k = 0 then State_Monad.return None else do {
     rsa \<leftarrow> acquire env (RSA_generate_key 2048 RSA_F4) R_RSA;
     if rsa = 0 then do {
       _ \<leftarrow> discard env (EVP_PKEY_free k) (R_PKEY k);
       State_Monad.return None
     } else do {
     assigned \<leftarrow> invoke env (EVP_PKEY_assign_RSA k rsa);
     if assigned = 0 then do {
       _ \<leftarrow> discard env (EVP_PKEY_free k) (R_PKEY k);
       _ \<leftarrow> discard env (RSA_free rsa) (R_RSA rsa);
       State_Monad.return None
     } else do {
     _ \<leftarrow> disown (R_RSA rsa);
     State_Monad.return (Some k)
     }}}
   }"

text \<open>The entries of a subject name, added in the order of the code.\<close>

primrec add_entries :: "environment \<Rightarrow> name_ref \<Rightarrow> (string \<times> string) list \<Rightarrow> unit cm" where
  "add_entries env n [] = State_Monad.return ()"
| "add_entries env n (e # es) = do {
     _ \<leftarrow> invoke env (X509_NAME_add_entry n (fst e) (c_str (snd e)));
     add_entries env n es
   }"

definition root_entries :: "(string \<times> string) list" where
  "root_entries = [(''CN'', ''xProxy Root CA''), (''OU'', ''xProxy CA''), (''O'', ''xProxy''),
     (''L'', ''Lan''), (''ST'', ''Internet''), (''C'', ''CN'')]"

definition request_entries :: "string \<Rightarrow> (string \<times> string) list" where
  "request_entries cn = [(''CN'', cn), (''OU'', ''xProxy Security''), (''O'', cn),
     (''L'', ''Lan''), (''ST'', ''Internet''), (''C'', ''CN'')]"

definition generate_request :: "environment \<Rightarrow> string \<Rightarrow> (int \<times> int) option cm" where
  "generate_request env common_name = do {
     key \<leftarrow> generate_key env;
     case key of None \<Rightarrow> State_Monad.return None | Some k \<Rightarrow> do {
     req \<leftarrow> acquire env X509_REQ_new R_REQ;
     if req = 0 then do {
       _ \<leftarrow> discard env (EVP_PKEY_free k) (R_PKEY k);
       State_Monad.return None
     } else do {
     _ \<leftarrow> invoke env (X509_REQ_set_pubkey req k);
     _ \<leftarrow> add_entries env (REQ_subject req) (request_entries common_name);
     signed \<leftarrow> invoke env (X509_REQ_sign req k EVP_sha1);
     if signed = 0 then do {
       _ \<leftarrow> discard env (EVP_PKEY_free k) (R_PKEY k);
       _ \<leftarrow> discard env (X509_REQ_free req) (R_REQ req);
       State_Monad.return None
     } else State_Monad.return (Some (req, k))
     }}
   }"

section \<open>Certificates\<close>

definition generate_certificate :: "environment \<Rightarrow> string \<Rightarrow> certificate \<Rightarrow> (bool \<times> certificate) cm" where
  "generate_certificate env common_name cert = do {
     s \<leftarrow> get_state;
     if cert_key (root s) = 0 \<or> cert_x509 (root s) = 0 then State_Monad.return (False, cert) else do {
     r \<leftarrow> generate_request env common_name;
     case r of None \<Rightarrow> State_Monad.return (False, cert) | Some (req, key) \<Rightarrow> do {
     verified \<leftarrow> invoke env (X509_REQ_verify req key);
     if verified \<noteq> 1 then do {
       _ \<leftarrow> discard env (EVP_PKEY_free key) (R_PKEY key);
       _ \<leftarrow> discard env (X509_REQ_free req) (R_REQ req);
       State_Monad.return (False, cert)
     } else do {
     x509 \<leftarrow> acquire env X509_new R_X509;
     if x509 = 0 then do {
       _ \<leftarrow> discard env (EVP_PKEY_free key) (R_PKEY key);
       _ \<leftarrow> discard env (X509_REQ_free req) (R_REQ req);
       State_Monad.return (False, cert)
     } else do {
     _ \<leftarrow> invoke env (X509_set_issuer_name x509 (X509_subject (cert_x509 (root s))));
     _ \<leftarrow> invoke env (X509_set_subject_name x509 (REQ_subject req));
     _ \<leftarrow> invoke env (X509_set_pubkey x509 key);
     time \<leftarrow> invoke env Universal_time;
     _ \<leftarrow> invoke env (X509_set_serial x509 time);
     _ \<leftarrow> invoke env (X509_set_notBefore x509 0);
     _ \<leftarrow> invoke env (X509_set_notAfter x509 TEN_YEARS);
     signed \<leftarrow> invoke env (X509_sign x509 (cert_key (root s)) EVP_sha1);
     if signed = 0 then do {
       _ \<leftarrow> discard env (EVP_PKEY_free key) (R_PKEY key);
       _ \<leftarrow> discard env (X509_REQ_free req) (R_REQ req);
       _ \<leftarrow> discard env (X509_free x509) (R_X509 x509);
       State_Monad.return (False, cert)
     } else do {
     cert1 \<leftarrow> set_cert x509 cert;
     cert2 \<leftarrow> set_key key cert1;
     _ \<leftarrow> discard env (X509_REQ_free req) (R_REQ req);
     State_Monad.return (True, cert2)
     }}}}}
   }"

definition load_certificate :: "environment \<Rightarrow> string \<Rightarrow> certificate \<Rightarrow> (bool \<times> certificate) cm" where
  "load_certificate env file cert = do {
     fp \<leftarrow> fopen env file ''rb'';
     if fp = 0 then State_Monad.return (False, cert) else do {
     x509 \<leftarrow> acquire env (PEM_read_X509 fp) R_X509;
     if x509 = 0 then do {
       _ \<leftarrow> fclose env fp;
       State_Monad.return (False, cert)
     } else do {
     cert1 \<leftarrow> set_cert x509 cert;
     key \<leftarrow> acquire env (PEM_read_PrivateKey fp) R_PKEY;
     if key = 0 then do {
       _ \<leftarrow> fclose env fp;
       State_Monad.return (False, cert1)
     } else do {
     cert2 \<leftarrow> set_key key cert1;
     _ \<leftarrow> fclose env fp;
     State_Monad.return (True, cert2)
     }}}
   }"

definition save_certificate :: "environment \<Rightarrow> string \<Rightarrow> certificate \<Rightarrow> bool cm" where
  "save_certificate env file cert = do {
     fp \<leftarrow> fopen env file ''wb'';
     if fp = 0 then State_Monad.return False else do {
     w1 \<leftarrow> invoke env (PEM_write_X509 fp (cert_x509 cert));
     if w1 = 0 then do {
       _ \<leftarrow> fclose env fp;
       State_Monad.return False
     } else do {
     w2 \<leftarrow> invoke env (PEM_write_PrivateKey fp (cert_key cert));
     if w2 = 0 then do {
       _ \<leftarrow> fclose env fp;
       State_Monad.return False
     } else do {
     _ \<leftarrow> fclose env fp;
     State_Monad.return True
     }}}
   }"

section \<open>The root certificate\<close>

definition set_root :: "certificate \<Rightarrow> unit cm" where
  "set_root c = State (\<lambda>s. ((), s\<lparr>root := c\<rparr>))"

definition ROOT_FILE :: string where "ROOT_FILE = ''cert/xProxyRootCA.crt''"

definition load_root_ca :: "environment \<Rightarrow> string \<Rightarrow> bool cm" where
  "load_root_ca env file = do {
     s \<leftarrow> get_state;
     r \<leftarrow> load_certificate env file (root s);
     _ \<leftarrow> set_root (snd r);
     State_Monad.return (fst r)
   }"

definition save_root_ca :: "environment \<Rightarrow> string \<Rightarrow> bool cm" where
  "save_root_ca env file = do { s \<leftarrow> get_state; save_certificate env file (root s) }"

definition generate_root_ca :: "environment \<Rightarrow> bool cm" where
  "generate_root_ca env = do {
     x509 \<leftarrow> acquire env X509_new R_X509;
     if x509 = 0 then State_Monad.return False else do {
     _ \<leftarrow> invoke env (X509_set_serial x509 0);
     _ \<leftarrow> invoke env (X509_set_notBefore x509 0);
     _ \<leftarrow> invoke env (X509_set_notAfter x509 TEN_YEARS);
     k \<leftarrow> generate_key env;
     case k of None \<Rightarrow> do {
       _ \<leftarrow> discard env (X509_free x509) (R_X509 x509);
       State_Monad.return False
     } | Some key \<Rightarrow> do {
     _ \<leftarrow> invoke env (X509_set_pubkey x509 key);
     _ \<leftarrow> add_entries env (X509_subject x509) root_entries;
     _ \<leftarrow> invoke env (X509_set_issuer_name x509 (X509_subject x509));
     signed \<leftarrow> invoke env (X509_sign x509 key EVP_sha1);
     if signed = 0 then do {
       _ \<leftarrow> discard env (X509_free x509) (R_X509 x509);
       _ \<leftarrow> discard env (EVP_PKEY_free key) (R_PKEY key);
       State_Monad.return False
     } else do {
     s \<leftarrow> get_state;
     c1 \<leftarrow> set_key key (root s);
     c2 \<leftarrow> set_cert x509 c1;
     _ \<leftarrow> set_root c2;
     State_Monad.return True
     }}}
   }"

section \<open>Diffie-Hellman parameters\<close>

text \<open>\<open>dh_.reset(p)\<close> of the unique pointer: takes over \<open>p\<close> and frees what it held before.\<close>

definition set_dh :: "int \<Rightarrow> unit cm" where
  "set_dh p = State (\<lambda>s. ((), s\<lparr>dh := p\<rparr>))"

definition reset_dh :: "environment \<Rightarrow> int \<Rightarrow> unit cm" where
  "reset_dh env p = do {
     s \<leftarrow> get_state;
     _ \<leftarrow> disown (R_DH p);
     _ \<leftarrow> set_dh p;
     if dh s = 0 then State_Monad.return () else do {
       _ \<leftarrow> invoke env (DH_free (dh s));
       State_Monad.return ()
     }
   }"

definition get_dh_parameters :: "int cm" where
  "get_dh_parameters = do { s \<leftarrow> get_state; State_Monad.return (dh s) }"

definition DH_FILE :: string where "DH_FILE = ''cert/dh.pem''"

definition load_dh_parameters :: "environment \<Rightarrow> string \<Rightarrow> bool cm" where
  "load_dh_parameters env file = do {
     fp \<leftarrow> fopen env file ''rb'';
     if fp = 0 then State_Monad.return False else do {
     p \<leftarrow> acquire env (PEM_read_DHparams fp) R_DH;
     if p = 0 then do {
       _ \<leftarrow> fclose env fp;
       State_Monad.return False
     } else do {
     _ \<leftarrow> reset_dh env p;
     _ \<leftarrow> fclose env fp;
     State_Monad.return True
     }}
   }"

definition save_dh_parameters :: "environment \<Rightarrow> string \<Rightarrow> bool cm" where
  "save_dh_parameters env file = do {
     fp \<leftarrow> fopen env file ''wb'';
     if fp = 0 then State_Monad.return False else do {
     s \<leftarrow> get_state;
     w \<leftarrow> invoke env (PEM_write_DHparams fp (dh s));
     if w = 0 then do {
       _ \<leftarrow> fclose env fp;
       State_Monad.return False
     } else do {
     _ \<leftarrow> fclose env fp;
     State_Monad.return True
     }}
   }"

definition generate_dh_parameters :: "environment \<Rightarrow> bool cm" where
  "generate_dh_parameters env = do {
     p \<leftarrow> acquire env (DH_generate_parameters 512 DH_GENERATOR_2) R_DH;
     if p = 0 then State_Monad.return False else do {
     _ \<leftarrow> reset_dh env p;
     State_Monad.return True
     }
   }"

section \<open>Initialisation and lookup\<close>

definition ensure_root_ca :: "environment \<Rightarrow> bool cm" where
  "ensure_root_ca env = do {
     loaded \<leftarrow> load_root_ca env ROOT_FILE;
     if loaded then State_Monad.return True else do {
     generated \<leftarrow> generate_root_ca env;
     if \<not> generated then State_Monad.return False else do {
     _ \<leftarrow> save_root_ca env ROOT_FILE;
     State_Monad.return True
     }}
   }"

definition ensure_dh_parameters :: "environment \<Rightarrow> bool cm" where
  "ensure_dh_parameters env = do {
     loaded \<leftarrow> load_dh_parameters env DH_FILE;
     if loaded then State_Monad.return True else do {
     generated \<leftarrow> generate_dh_parameters env;
     if \<not> generated then State_Monad.return False else do {
     _ \<leftarrow> save_dh_parameters env DH_FILE;
     State_Monad.return True
     }}
   }"

definition init_manager :: "environment \<Rightarrow> bool cm" where
  "init_manager env = do {
     root_ready \<leftarrow> ensure_root_ca env;
     if \<not> root_ready then State_Monad.return False
     else ensure_dh_parameters env
   }"

definition cache_insert :: "string \<Rightarrow> certificate \<Rightarrow> unit cm" where
  "cache_insert n c = State (\<lambda>s. ((), case certificates s n of
      None \<Rightarrow> s\<lparr>certificates := (certificates s)(n \<mapsto> c)\<rparr> | Some _ \<Rightarrow> s))"

text \<open>\<open>get_certificate\<close> after the common name is known.\<close>

definition certificate_for :: "environment \<Rightarrow> string \<Rightarrow> certificate cm" where
  "certificate_for env common_name = do {
     s \<leftarrow> get_state;
     case certificates s common_name of Some c \<Rightarrow> State_Monad.return c | None \<Rightarrow> do {
     l \<leftarrow> load_certificate env (get_certificate_filename (cert_dir s) common_name) no_certificate;
     if fst l then do {
       _ \<leftarrow> cache_insert common_name (snd l);
       State_Monad.return (snd l)
     } else do {
     g \<leftarrow> generate_certificate env common_name (snd l);
     if \<not> fst g then State_Monad.return (snd g) else do {
     _ \<leftarrow> cache_insert common_name (snd g);
     _ \<leftarrow> save_certificate env (get_certificate_filename (cert_dir s) common_name) (snd g);
     State_Monad.return (snd g)
     }}}
   }"

definition get_certificate :: "environment \<Rightarrow> string \<Rightarrow> cert_manager \<Rightarrow> (certificate \<times> cert_manager) result" where
  "get_certificate env host s =
     bind_res (parse_common_name host) (\<lambda>n. Inr (run_state (certificate_for env n) s))"

section \<open>What every operation keeps\<close>

text \<open>No library call gets a null pointer where it needs an object.\<close>

fun args_ok :: "lib_call \<Rightarrow> bool" where
  "args_ok (Fclose f) = (f \<noteq> 0)"
| "args_ok (PEM_read_X509 f) = (f \<noteq> 0)"
| "args_ok (PEM_read_PrivateKey f) = (f \<noteq> 0)"
| "args_ok (PEM_read_DHparams f) = (f \<noteq> 0)"
| "args_ok (PEM_write_X509 f x) = (f \<noteq> 0 \<and> x \<noteq> 0)"
| "args_ok (PEM_write_PrivateKey f k) = (f \<noteq> 0 \<and> k \<noteq> 0)"
| "args_ok (PEM_write_DHparams f d) = (f \<noteq> 0 \<and> d \<noteq> 0)"
| "args_ok (X509_free x) = (x \<noteq> 0)"
| "args_ok (X509_set_serial x n) = (x \<noteq> 0)"
| "args_ok (X509_set_notBefore x n) = (x \<noteq> 0)"
| "args_ok (X509_set_notAfter x n) = (x \<noteq> 0)"
| "args_ok (X509_set_pubkey x k) = (x \<noteq> 0 \<and> k \<noteq> 0)"
| "args_ok (X509_set_issuer_name x n) = (x \<noteq> 0 \<and> n \<noteq> X509_subject 0 \<and> n \<noteq> REQ_subject 0)"
| "args_ok (X509_set_subject_name x n) = (x \<noteq> 0 \<and> n \<noteq> X509_subject 0 \<and> n \<noteq> REQ_subject 0)"
| "args_ok (X509_NAME_add_entry n f v) = (n \<noteq> X509_subject 0 \<and> n \<noteq> REQ_subject 0)"
| "args_ok (X509_sign x k d) = (x \<noteq> 0 \<and> k \<noteq> 0)"
| "args_ok (X509_REQ_free r) = (r \<noteq> 0)"
| "args_ok (X509_REQ_set_pubkey r k) = (r \<noteq> 0 \<and> k \<noteq> 0)"
| "args_ok (X509_REQ_sign r k d) = (r \<noteq> 0 \<and> k \<noteq> 0)"
| "args_ok (X509_REQ_verify r k) = (r \<noteq> 0 \<and> k \<noteq> 0)"
| "args_ok (EVP_PKEY_free k) = (k \<noteq> 0)"
| "args_ok (EVP_PKEY_assign_RSA k r) = (k \<noteq> 0 \<and> r \<noteq> 0)"
| "args_ok (RSA_free r) = (r \<noteq> 0)"
| "args_ok (DH_free d) = (d \<noteq> 0)"
| "args_ok _ = True"

definition complete :: "certificate \<Rightarrow> bool" where
  "complete c \<longleftrightarrow> cert_key c \<noteq> 0 \<and> cert_x509 c \<noteq> 0"

text \<open>
  Between two operations the code holds no raw object, has freed nothing twice, has passed no null
  pointer to the library, and every cached certificate has a key and a certificate.
\<close>

definition calls_ok :: "cert_manager \<Rightarrow> bool" where
  "calls_ok s \<longleftrightarrow> \<not> bad_free s \<and> list_all (\<lambda>c. args_ok (fst c)) (history s)"

definition manager_ok :: "cert_manager \<Rightarrow> bool" where
  "manager_ok s \<longleftrightarrow> calls_ok s \<and> owned s = [] \<and> (\<forall>c \<in> ran (certificates s). complete c)"

text \<open>
  A Hoare triple on actions, and the assertion the proofs work with: the members of the manager and
  the list of the objects held, with all calls so far in order.
\<close>

definition hoare :: "(cert_manager \<Rightarrow> bool) \<Rightarrow> 'a cm \<Rightarrow> ('a \<Rightarrow> cert_manager \<Rightarrow> bool) \<Rightarrow> bool" where
  "hoare P m Q \<longleftrightarrow> (\<forall>s. P s \<longrightarrow> (case run_state m s of (r, s') \<Rightarrow> Q r s'))"

definition at :: "int \<Rightarrow> certificate \<Rightarrow> (string \<rightharpoonup> certificate) \<Rightarrow> resource list \<Rightarrow> cert_manager \<Rightarrow> bool" where
  "at d rt cs A s \<longleftrightarrow> calls_ok s \<and> dh s = d \<and> root s = rt \<and> certificates s = cs \<and> owned s = A"

named_theorems vcg

lemma hoareD: "hoare P m Q \<Longrightarrow> P s \<Longrightarrow> run_state m s = (r, s') \<Longrightarrow> Q r s'"
  by (auto simp: hoare_def)

lemma hoare_bind [vcg]:
  "hoare P m Q \<Longrightarrow> (\<And>x. hoare (Q x) (f x) R) \<Longrightarrow> hoare P (State_Monad.bind m f) R"
  by (fastforce simp: hoare_def split: prod.splits)

lemma hoare_return [vcg]: "(\<And>s. P s \<Longrightarrow> Q x s) \<Longrightarrow> hoare P (State_Monad.return x) Q"
  by (simp add: hoare_def)

lemma hoare_if [vcg]:
  "(b \<Longrightarrow> hoare P m Q) \<Longrightarrow> (\<not> b \<Longrightarrow> hoare P m' Q) \<Longrightarrow> hoare P (if b then m else m') Q"
  by simp

lemma hoare_option [vcg]:
  "(x = None \<Longrightarrow> hoare P m Q) \<Longrightarrow> (\<And>y. x = Some y \<Longrightarrow> hoare P (f y) Q) \<Longrightarrow>
   hoare P (case x of None \<Rightarrow> m | Some y \<Rightarrow> f y) Q"
  by (cases x) simp_all

lemma hoare_prod [vcg]:
  "(\<And>a b. x = (a, b) \<Longrightarrow> hoare P (f a b) Q) \<Longrightarrow> hoare P (case x of (a, b) \<Rightarrow> f a b) Q"
  by (cases x) simp

lemma hoare_pure: "(\<phi> \<Longrightarrow> hoare P m Q) \<Longrightarrow> hoare (\<lambda>s. P s \<and> \<phi>) m Q"
  by (simp add: hoare_def)

lemma hoare_weaken: "hoare P m Q \<Longrightarrow> (\<And>r s. Q r s \<Longrightarrow> R r s) \<Longrightarrow> hoare P m R"
  by (auto simp: hoare_def split: prod.splits)

lemma hoare_get_state_bind [vcg]:
  assumes "\<And>s. dh s = d \<Longrightarrow> root s = rt \<Longrightarrow> certificates s = cs \<Longrightarrow> hoare (at d rt cs A) (f s) Q"
  shows "hoare (at d rt cs A) (State_Monad.bind get_state f) Q"
  using assms by (auto simp: hoare_def at_def get_state_def)

lemma hoare_invoke [vcg]: "args_ok c \<Longrightarrow> hoare (at d rt cs A) (invoke env c) (\<lambda>_. at d rt cs A)"
  by (simp add: hoare_def at_def invoke_def calls_ok_def Let_def)

lemma hoare_disown [vcg]: "r \<in> set A \<Longrightarrow> hoare (at d rt cs A) (disown r) (\<lambda>_. at d rt cs (remove1 r A))"
  by (simp add: hoare_def at_def disown_def calls_ok_def)

lemma hoare_acquire [vcg]:
  "args_ok c \<Longrightarrow> hoare (at d rt cs A) (acquire env c R) (\<lambda>p. at d rt cs (if p = 0 then A else R p # A))"
  by (simp add: hoare_def at_def acquire_def own_def invoke_def calls_ok_def Let_def)

lemma hoare_discard [vcg]:
  "args_ok c \<Longrightarrow> r \<in> set A \<Longrightarrow> hoare (at d rt cs A) (discard env c r) (\<lambda>_. at d rt cs (remove1 r A))"
  unfolding discard_def by (rule hoare_pure vcg | simp)+

lemma hoare_fopen [vcg]:
  "hoare (at d rt cs A) (fopen env file mode) (\<lambda>p. at d rt cs (if p = 0 then A else R_FILE p # A))"
  unfolding fopen_def by (rule hoare_pure vcg | simp)+

lemma hoare_fclose [vcg]:
  "f \<noteq> 0 \<Longrightarrow> R_FILE f \<in> set A \<Longrightarrow> hoare (at d rt cs A) (fclose env f) (\<lambda>_. at d rt cs (remove1 (R_FILE f) A))"
  unfolding fclose_def by (rule hoare_pure vcg | simp)+

lemma hoare_set_key [vcg]:
  "R_PKEY k \<in> set A \<Longrightarrow> hoare (at d rt cs A) (set_key k c)
     (\<lambda>c' s. at d rt cs (remove1 (R_PKEY k) A) s \<and> c' = c\<lparr>cert_key := k\<rparr>)"
  unfolding set_key_def by (rule hoare_pure vcg | simp)+

lemma hoare_set_cert [vcg]:
  "R_X509 x \<in> set A \<Longrightarrow> hoare (at d rt cs A) (set_cert x c)
     (\<lambda>c' s. at d rt cs (remove1 (R_X509 x) A) s \<and> c' = c\<lparr>cert_x509 := x\<rparr>)"
  unfolding set_cert_def by (rule hoare_pure vcg | simp)+

lemma hoare_set_root [vcg]: "hoare (at d rt cs A) (set_root c) (\<lambda>_. at d c cs A)"
  by (simp add: hoare_def at_def set_root_def calls_ok_def)

lemma hoare_add_entries [vcg]:
  assumes "n \<noteq> X509_subject 0" and "n \<noteq> REQ_subject 0"
  shows "hoare (at d rt cs A) (add_entries env n es) (\<lambda>_. at d rt cs A)"
proof (induction es)
  case Nil
  show ?case unfolding add_entries.simps by (rule hoare_pure vcg | simp)+
next
  case (Cons e es)
  show ?case unfolding add_entries.simps by (rule vcg Cons | simp add: assms)+
qed

lemma hoare_generate_key [vcg]:
  "hoare (at d rt cs A) (generate_key env)
     (\<lambda>k s. at d rt cs (case k of None \<Rightarrow> A | Some k \<Rightarrow> R_PKEY k # A) s \<and> k \<noteq> Some 0)"
  unfolding generate_key_def by (rule hoare_pure vcg | simp)+

lemma hoare_ex:
  assumes "\<And>x. hoare (P x) m Q"
  shows "hoare (\<lambda>s. \<exists>x. P x s) m Q"
  unfolding hoare_def
proof (intro allI impI)
  fix s assume "\<exists>x. P x s"
  then obtain x where "P x s" ..
  with assms[of x] show "case run_state m s of (r, s') \<Rightarrow> Q r s'" by (simp add: hoare_def)
qed

lemma hoare_generate_request [vcg]:
  "hoare (at d rt cs A) (generate_request env cn)
     (\<lambda>r s. at d rt cs (case r of None \<Rightarrow> A | Some (q, k) \<Rightarrow> R_REQ q # R_PKEY k # A) s \<and>
            (\<forall>q k. r = Some (q, k) \<longrightarrow> q \<noteq> 0 \<and> k \<noteq> 0))"
  unfolding generate_request_def by (rule hoare_pure vcg | simp)+

lemma hoare_generate_certificate [vcg]:
  "hoare (at d rt cs A) (generate_certificate env cn cert)
     (\<lambda>r s. at d rt cs A s \<and> (if fst r then complete (snd r) else snd r = cert))"
  unfolding generate_certificate_def by (rule hoare_pure vcg | simp add: complete_def)+

lemma hoare_load_certificate [vcg]:
  "hoare (at d rt cs A) (load_certificate env file cert)
     (\<lambda>r s. at d rt cs A s \<and> (if fst r then complete (snd r) else cert_key (snd r) = cert_key cert))"
  unfolding load_certificate_def by (rule hoare_pure vcg | simp add: complete_def)+

lemma hoare_save_certificate [vcg]:
  "complete cert \<Longrightarrow> hoare (at d rt cs A) (save_certificate env file cert) (\<lambda>_. at d rt cs A)"
  unfolding save_certificate_def by (rule hoare_pure vcg | simp add: complete_def)+

lemma hoare_load_root_ca:
  "hoare (at d rt cs A) (load_root_ca env file)
     (\<lambda>b s. \<exists>rt'. at d rt' cs A s \<and> (b \<longrightarrow> complete rt'))"
  unfolding load_root_ca_def by (rule hoare_pure vcg | simp)+ auto

lemma hoare_save_root_ca [vcg]:
  "complete rt \<Longrightarrow> hoare (at d rt cs A) (save_root_ca env file) (\<lambda>_. at d rt cs A)"
  unfolding save_root_ca_def by (rule vcg | simp)+

lemma hoare_generate_root_ca:
  "hoare (at d rt cs A) (generate_root_ca env)
     (\<lambda>b s. \<exists>rt'. at d rt' cs A s \<and> (if b then complete rt' else rt' = rt))"
  unfolding generate_root_ca_def by (rule hoare_pure vcg | force simp add: complete_def)+

lemma hoare_set_dh [vcg]: "hoare (at d rt cs A) (set_dh p) (\<lambda>_. at p rt cs A)"
  by (simp add: hoare_def at_def set_dh_def calls_ok_def)

lemma hoare_reset_dh [vcg]:
  "R_DH p \<in> set A \<Longrightarrow> hoare (at d rt cs A) (reset_dh env p) (\<lambda>_. at p rt cs (remove1 (R_DH p) A))"
  unfolding reset_dh_def by (rule vcg | simp)+

lemma hoare_load_dh_parameters:
  "hoare (at d rt cs A) (load_dh_parameters env file)
     (\<lambda>b s. \<exists>d'. at d' rt cs A s \<and> (if b then d' \<noteq> 0 else d' = d))"
  unfolding load_dh_parameters_def by (rule hoare_pure vcg | force)+

lemma hoare_save_dh_parameters [vcg]:
  "d \<noteq> 0 \<Longrightarrow> hoare (at d rt cs A) (save_dh_parameters env file) (\<lambda>_. at d rt cs A)"
  unfolding save_dh_parameters_def by (rule vcg | simp)+

lemma hoare_generate_dh_parameters:
  "hoare (at d rt cs A) (generate_dh_parameters env)
     (\<lambda>b s. \<exists>d'. at d' rt cs A s \<and> (if b then d' \<noteq> 0 else d' = d))"
  unfolding generate_dh_parameters_def by (rule hoare_pure vcg | force)+

lemma manager_ok_at: "manager_ok s \<longleftrightarrow> at (dh s) (root s) (certificates s) [] s \<and> (\<forall>c \<in> ran (certificates s). complete c)"
  by (auto simp: manager_ok_def at_def)

lemma at_ok:
  "at d rt cs [] s \<Longrightarrow> (\<forall>c \<in> ran cs. complete c) \<Longrightarrow>
   manager_ok s \<and> certificates s = cs \<and> root s = rt \<and> dh s = d"
  by (auto simp: at_def manager_ok_def)

lemma hoare_ensure_root_ca:
  "hoare (at d rt cs A) (ensure_root_ca env) (\<lambda>b s. \<exists>rt'. at d rt' cs A s \<and> (b \<longrightarrow> complete rt'))"
  unfolding ensure_root_ca_def
  by (rule hoare_load_root_ca hoare_generate_root_ca hoare_ex hoare_pure vcg | force)+

lemma hoare_ensure_dh_parameters:
  "hoare (at d rt cs A) (ensure_dh_parameters env) (\<lambda>b s. \<exists>d'. at d' rt cs A s \<and> (b \<longrightarrow> d' \<noteq> 0))"
  unfolding ensure_dh_parameters_def
  by (rule hoare_load_dh_parameters hoare_generate_dh_parameters hoare_ex hoare_pure vcg | force)+

lemma hoare_init_manager:
  "hoare (at d rt cs A) (init_manager env)
     (\<lambda>b s. \<exists>d' rt'. at d' rt' cs A s \<and> (b \<longrightarrow> complete rt' \<and> d' \<noteq> 0))"
  unfolding init_manager_def
  by (rule hoare_ensure_root_ca hoare_ensure_dh_parameters hoare_ex hoare_pure vcg | force
      | rule hoare_weaken[OF hoare_ensure_dh_parameters])+

lemma hoare_cache_insert [vcg]:
  "cs n = None \<Longrightarrow> hoare (at d rt cs A) (cache_insert n c) (\<lambda>_. at d rt (cs(n \<mapsto> c)) A)"
  by (simp add: hoare_def at_def cache_insert_def calls_ok_def)

text \<open>
  Looking up a certificate: a cached one is returned and the manager does not change; otherwise only
  the cache may change, by one entry for the name, complete and the one returned.
\<close>

lemma complete_no_certificate [simp]: "\<not> complete no_certificate"
  by (simp add: complete_def no_certificate_def)

lemma hoare_certificate_for:
  "hoare (at d rt cs A) (certificate_for env n)
     (\<lambda>c s. (cs n = Some c \<and> at d rt cs A s) \<or>
            (cs n = None \<and> complete c \<and> at d rt (cs(n \<mapsto> c)) A s) \<or>
            (cs n = None \<and> \<not> complete c \<and> at d rt cs A s))"
  unfolding certificate_for_def
  by (rule hoare_pure vcg | force simp: complete_def no_certificate_def)+

lemma certificate_for_cached: "certificates s n = Some c \<Longrightarrow> run_state (certificate_for env n) s = (c, s)"
  by (simp add: certificate_for_def get_state_def)

section \<open>Sequences of operations\<close>

datatype cm_op = Init | Get string

fun run_cm :: "environment \<Rightarrow> cm_op \<Rightarrow> cert_manager \<Rightarrow> cert_manager result" where
  "run_cm env Init s = Inr (snd (run_state (init_manager env) s))"
| "run_cm env (Get host) s = bind_res (get_certificate env host s) (\<lambda>(c, s'). Inr s')"

fun host_ok :: "cm_op \<Rightarrow> bool" where
  "host_ok Init = True"
| "host_ok (Get host) = (hd (split_dots host) \<noteq> [] \<and> length host \<le> MAX_ALLOC)"

text \<open>An operation keeps the manager in order and never drops or replaces a cached certificate.\<close>

definition keeps :: "cert_manager \<Rightarrow> cert_manager \<Rightarrow> bool" where
  "keeps s s' \<longleftrightarrow> manager_ok s' \<and> certificates s \<subseteq>\<^sub>m certificates s'"

lemma certificate_for_keeps:
  assumes "manager_ok s" and "run_state (certificate_for env n) s = (c, s')"
  shows "keeps s s' \<and> (complete c \<longleftrightarrow> certificates s' n = Some c) \<and> (certificates s' n = None \<longleftrightarrow> \<not> complete c)"
proof -
  have "at (dh s) (root s) (certificates s) [] s" and cs: "\<forall>c \<in> ran (certificates s). complete c"
    using assms(1) by (simp_all add: manager_ok_at)
  from hoareD[OF hoare_certificate_for this(1) assms(2)] show ?thesis
  proof (elim disjE conjE)
    assume "certificates s n = Some c" and "at (dh s) (root s) (certificates s) [] s'"
    then show ?thesis using at_ok[OF _ cs] cs by (auto simp: keeps_def ran_def)
  next
    assume n: "certificates s n = None" and "complete c"
      and a: "at (dh s) (root s) ((certificates s)(n \<mapsto> c)) [] s'"
    then have "\<forall>c \<in> ran ((certificates s)(n \<mapsto> c)). complete c" using cs by simp
    with n \<open>complete c\<close> show ?thesis using at_ok[OF a] by (auto simp: keeps_def map_le_def)
  next
    assume "certificates s n = None" and "\<not> complete c" and "at (dh s) (root s) (certificates s) [] s'"
    then show ?thesis using at_ok[OF _ cs] by (auto simp: keeps_def)
  qed
qed

lemma init_manager_keeps:
  assumes "manager_ok s" and "run_state (init_manager env) s = (b, s')"
  shows "keeps s s' \<and> (b \<longrightarrow> complete (root s') \<and> dh s' \<noteq> 0)"
proof -
  have "at (dh s) (root s) (certificates s) [] s" and cs: "\<forall>c \<in> ran (certificates s). complete c"
    using assms(1) by (simp_all add: manager_ok_at)
  from hoareD[OF hoare_init_manager this(1) assms(2)] obtain d' rt'
    where "at d' rt' (certificates s) [] s'" and "b \<longrightarrow> complete rt' \<and> d' \<noteq> 0" by blast
  then show ?thesis
    using at_ok[OF _ cs] by (auto simp: keeps_def)
qed

lemma run_cm_keeps:
  assumes "manager_ok s" and "host_ok x"
  shows "succeeds (run_cm env x s) (keeps s)"
proof (cases x)
  case Init
  then show ?thesis
    using init_manager_keeps[OF assms(1), of env] by (cases "run_state (init_manager env) s") simp
next
  case (Get host)
  with assms(2) obtain n where n: "parse_common_name host = Inr n"
    using parse_common_name_eq[of host] by auto
  obtain c s' where r: "run_state (certificate_for env n) s = (c, s')" by fastforce
  show ?thesis
    using certificate_for_keeps[OF assms(1) r] by (simp add: Get get_certificate_def n r)
qed

lemma run_cms_keep:
  "manager_ok s \<Longrightarrow> list_all host_ok xs \<Longrightarrow> succeeds (fold_res (run_cm env) xs s) (keeps s)"
proof (induction xs arbitrary: s)
  case Nil
  then show ?case by (simp add: keeps_def)
next
  case (Cons x xs)
  from Cons.prems run_cm_keeps[of s x env] obtain s1 where 1: "run_cm env x s = Inr s1" "keeps s s1"
    by (auto simp: succeeds_iff)
  then have "manager_ok s1" by (simp add: keeps_def)
  with Cons.IH[of s1] Cons.prems(2) have "succeeds (fold_res (run_cm env) xs s1) (keeps s1)" by simp
  then have "succeeds (fold_res (run_cm env) xs s1) (keeps s)"
    by (rule succeeds_mono) (use 1(2) in \<open>auto simp: keeps_def intro: map_le_trans\<close>)
  then show ?case using 1(1) by simp
qed

lemma new_manager_ok [simp]: "manager_ok new_manager"
  by (simp add: manager_ok_def calls_ok_def new_manager_def)

section \<open>The calls that make a certificate\<close>

text \<open>
  The library calls of a successful \<open>generate_certificate\<close>, in order: a key pair, a request signed
  with it and verified, and a certificate with the issuer's and the request's names, the request's key,
  the time as its serial number and its validity, signed with the root's key after all of these.
\<close>

definition certificate_request_calls :: "string \<Rightarrow> int \<Rightarrow> int \<Rightarrow> int \<Rightarrow> lib_call list" where
  "certificate_request_calls cn k rsa q =
     [EVP_PKEY_new, RSA_generate_key 2048 RSA_F4, EVP_PKEY_assign_RSA k rsa,
      X509_REQ_new, X509_REQ_set_pubkey q k] @
     map (\<lambda>e. X509_NAME_add_entry (REQ_subject q) (fst e) (c_str (snd e))) (request_entries cn) @
     [X509_REQ_sign q k EVP_sha1]"

definition generation_calls :: "string \<Rightarrow> certificate \<Rightarrow> int \<Rightarrow> int \<Rightarrow> int \<Rightarrow> int \<Rightarrow> int \<Rightarrow> lib_call list" where
  "generation_calls cn ca k rsa q x time =
     certificate_request_calls cn k rsa q @
     [X509_REQ_verify q k,
      X509_new, X509_set_issuer_name x (X509_subject (cert_x509 ca)),
      X509_set_subject_name x (REQ_subject q), X509_set_pubkey x k,
      Universal_time, X509_set_serial x time, X509_set_notBefore x 0, X509_set_notAfter x TEN_YEARS,
      X509_sign x (cert_key ca) EVP_sha1, X509_REQ_free q]"

text \<open>\<open>made s0 ps s\<close>: since the state \<open>s0\<close> the calls \<open>ps\<close> were made, with these answers.\<close>

definition made :: "cert_manager \<Rightarrow> (lib_call \<times> int) list \<Rightarrow> cert_manager \<Rightarrow> bool" where
  "made s0 ps s \<longleftrightarrow> history s = rev ps @ history s0 \<and> root s = root s0"

lemma made_invoke: "hoare (made s0 ps) (invoke env c) (\<lambda>r. made s0 (ps @ [(c, r)]))"
  by (simp add: hoare_def made_def invoke_def Let_def)

lemma made_acquire: "hoare (made s0 ps) (acquire env c R) (\<lambda>r. made s0 (ps @ [(c, r)]))"
  by (simp add: hoare_def made_def acquire_def own_def invoke_def Let_def)

lemma made_disown: "hoare (made s0 ps) (disown r) (\<lambda>_. made s0 ps)"
  by (simp add: hoare_def made_def disown_def)

lemma made_discard: "hoare (made s0 ps) (discard env c r) (\<lambda>_ s. \<exists>a. made s0 (ps @ [(c, a)]) s)"
  by (auto simp: hoare_def made_def discard_def disown_def invoke_def Let_def)

lemma made_get_state:
  assumes "\<And>s. root s = root s0 \<Longrightarrow> hoare (made s0 ps) (f s) Q"
  shows "hoare (made s0 ps) (State_Monad.bind get_state f) Q"
  using assms by (auto simp: hoare_def made_def get_state_def)

lemma made_set_key: "hoare (made s0 ps) (set_key k c) (\<lambda>c' s. made s0 ps s \<and> c' = c\<lparr>cert_key := k\<rparr>)"
  by (simp add: hoare_def made_def set_key_def disown_def)

lemma made_set_cert: "hoare (made s0 ps) (set_cert x c) (\<lambda>c' s. made s0 ps s \<and> c' = c\<lparr>cert_x509 := x\<rparr>)"
  by (simp add: hoare_def made_def set_cert_def disown_def)

lemma hoare_imp: "\<phi> \<Longrightarrow> hoare P m Q \<Longrightarrow> hoare (\<lambda>s. \<phi> \<longrightarrow> P s) m Q"
  by (simp add: hoare_def)

lemmas made_rules = hoare_return made_get_state hoare_ex hoare_imp hoare_pure made_invoke made_acquire made_disown made_discard
  made_set_key made_set_cert hoare_bind hoare_if hoare_option hoare_prod

lemma made_add_entries:
  "hoare (made s0 ps) (add_entries env n es) (\<lambda>_ s. \<exists>new. made s0 (ps @ new) s \<and>
     map fst new = map (\<lambda>e. X509_NAME_add_entry n (fst e) (c_str (snd e))) es)"
proof (induction es arbitrary: ps)
  case Nil
  show ?case unfolding add_entries.simps by (rule made_rules) (auto intro: exI[of _ "[]"])
next
  case (Cons e es)
  show ?case unfolding add_entries.simps
  proof (rule hoare_bind[OF made_invoke hoare_weaken[OF Cons]])
    fix x r s
    let ?c = "X509_NAME_add_entry n (fst e) (c_str (snd e))"
    assume "\<exists>new. made s0 ((ps @ [(?c, x)]) @ new) s \<and>
      map fst new = map (\<lambda>e. X509_NAME_add_entry n (fst e) (c_str (snd e))) es"
    then obtain new where "made s0 (ps @ (?c, x) # new) s"
      and "map fst new = map (\<lambda>e. X509_NAME_add_entry n (fst e) (c_str (snd e))) es" by auto
    then show "\<exists>new. made s0 (ps @ new) s \<and>
      map fst new = map (\<lambda>e. X509_NAME_add_entry n (fst e) (c_str (snd e))) (e # es)"
      by (intro exI[of _ "(?c, x) # new"]) simp
  qed
qed

lemma made_generate_key:
  "hoare (made s0 ps) (generate_key env) (\<lambda>r s. \<exists>rsa a. r \<noteq> None \<longrightarrow> made s0 (ps @
     [(EVP_PKEY_new, the r), (RSA_generate_key 2048 RSA_F4, rsa), (EVP_PKEY_assign_RSA (the r) rsa, a)]) s)"
  unfolding generate_key_def by (rule made_rules | auto)+

lemma made_generate_request:
  "hoare (made s0 ps) (generate_request env cn) (\<lambda>r s. \<exists>new rsa. r \<noteq> None \<longrightarrow> made s0 (ps @ new) s \<and>
     map fst new = certificate_request_calls cn (snd (the r)) rsa (fst (the r)))"
  unfolding generate_request_def
  by (rule made_generate_key made_add_entries made_rules | force simp: certificate_request_calls_def)+

lemma made_generate_certificate:
  "hoare (made s0 ps) (generate_certificate env cn cert) (\<lambda>r s. \<exists>new rsa q time. fst r \<longrightarrow>
     made s0 (ps @ new) s \<and>
     map fst new = generation_calls cn (root s0) (cert_key (snd r)) rsa q (cert_x509 (snd r)) time \<and>
     (X509_REQ_verify q (cert_key (snd r)), 1) \<in> set new \<and> (Universal_time, time) \<in> set new)"
  unfolding generate_certificate_def
  by (rule made_generate_request made_rules | force simp: generation_calls_def)+

section \<open>Properties\<close>

lemmas cm_steps = own_def disown_def acquire_def discard_def get_state_def
  fopen_def fclose_def set_key_def set_cert_def set_root_def

text \<open>
  Environments for the witnesses: one without any file, in which every other call succeeds, and one
  whose files hold a certificate but no key and in which no key can be made.
\<close>

definition no_files :: environment where
  "no_files h c = (case c of Fopen f m \<Rightarrow> if m = ''rb'' then 0 else 7 | _ \<Rightarrow> 1)"

definition half_file :: environment where
  "half_file h c = (case c of PEM_read_PrivateKey f \<Rightarrow> 0 | EVP_PKEY_new \<Rightarrow> 0 | _ \<Rightarrow> 1)"

lemma run_no_files:
  "run_state (invoke no_files c) s = (no_files [] c, s\<lparr>history := (c, no_files [] c) # history s\<rparr>)"
  by (simp add: invoke_def no_files_def Let_def)

lemma run_half_file:
  "run_state (invoke half_file c) s = (half_file [] c, s\<lparr>history := (c, half_file [] c) # history s\<rparr>)"
  by (simp add: invoke_def half_file_def Let_def)

text \<open>Evaluation of a sequence from its front: the rest is left alone until its argument is known.\<close>

lemma bind_front: "m = m' \<Longrightarrow> State_Monad.bind m f = State_Monad.bind m' f"
  by simp

lemmas in_order = bind_front prod.case_cong_weak option.case_cong_weak

lemmas no_files_steps = cm_steps run_no_files no_files_def
lemmas half_file_steps = cm_steps run_half_file half_file_def

text \<open>
  C17: No leak, no double free, no null argument. Whatever the library answers, after any sequence of
  initialisations and look-ups from a new manager, through every error path, the code holds no raw
  object or open file, has freed, closed and handed over each exactly once, has passed no null pointer
  to the library, and every cached certificate has its key and its certificate.
\<close>

theorem manager_handles_resources:
  assumes "list_all host_ok ops"
  shows "succeeds (fold_res (run_cm env) ops new_manager) manager_ok"
  by (rule succeeds_mono[OF run_cms_keep[OF new_manager_ok assms]]) (simp add: keeps_def)

theorem manager_handles_resources_witness:
  "succeeds (fold_res (run_cm no_files) [Init, Get ''www.google.com'', Get ''mail.google.com''] new_manager) manager_ok"
  by (rule manager_handles_resources) (simp add: MAX_ALLOC_def)

text \<open>
  C34: The cache. A look-up that returns a complete certificate puts it into the cache: whatever is
  looked up afterwards, the same host gets the same certificate again, without any library call and
  without a change of the manager.
\<close>

theorem certificate_is_cached:
  assumes "manager_ok s" and "get_certificate env host s = Inr (c, s1)" and "complete c"
    and "list_all host_ok ops"
  shows "succeeds (fold_res (run_cm env) ops s1) (\<lambda>s2. get_certificate env host s2 = Inr (c, s2))"
proof -
  obtain n where n: "parse_common_name host = Inr n" and r: "run_state (certificate_for env n) s = (c, s1)"
    using assms(2) by (auto simp: get_certificate_def)
  have k: "keeps s s1" and c: "certificates s1 n = Some c"
    using certificate_for_keeps[OF assms(1) r] assms(3) by simp_all
  have "manager_ok s1" using k by (simp add: keeps_def)
  from run_cms_keep[OF this assms(4)] show ?thesis
  proof (rule succeeds_mono)
    fix s2 assume "keeps s1 s2"
    then have "certificates s2 n = Some c" using c by (auto simp: keeps_def map_le_def dom_def)
    then show "get_certificate env host s2 = Inr (c, s2)"
      by (simp add: get_certificate_def n certificate_for_cached)
  qed
qed

definition filled_manager :: cert_manager where
  "filled_manager = new_manager\<lparr>root := \<lparr>cert_key = 3, cert_x509 = 4\<rparr>,
     certificates := [''*.google.com'' \<mapsto> \<lparr>cert_key = 5, cert_x509 = 6\<rparr>]\<rparr>"

lemma filled_manager_ok: "manager_ok filled_manager"
  by (simp add: manager_ok_def calls_ok_def filled_manager_def new_manager_def complete_def)

lemma filled_manager_get:
  "get_certificate env ''www.google.com'' filled_manager = Inr (\<lparr>cert_key = 5, cert_x509 = 6\<rparr>, filled_manager)"
  by (simp add: get_certificate_def parse_common_name_eq wildcard_name_def MAX_ALLOC_def
      certificate_for_cached filled_manager_def)

theorem certificate_is_cached_witness:
  "succeeds (fold_res (run_cm no_files) [Get ''a.example.org''] filled_manager)
     (\<lambda>s2. get_certificate no_files ''www.google.com'' s2 = Inr (\<lparr>cert_key = 5, cert_x509 = 6\<rparr>, s2))"
  by (rule certificate_is_cached[OF filled_manager_ok filled_manager_get])
     (simp_all add: complete_def MAX_ALLOC_def)

text \<open>
  Initialisation. When \<open>init\<close> returns true, the root has a key and a certificate and there are
  Diffie-Hellman parameters, whether they were loaded or generated; in either case the manager stays in
  order.
\<close>

theorem init_provides_root_and_dh:
  assumes "manager_ok s" and "run_state (init_manager env) s = (True, s')"
  shows "complete (root s') \<and> dh s' \<noteq> 0 \<and> manager_ok s'"
  using init_manager_keeps[OF assms] by (simp add: keeps_def)

lemma init_no_files: "fst (run_state (init_manager no_files) new_manager)"
  by (simp add: init_manager_def ensure_root_ca_def load_root_ca_def load_certificate_def
      generate_root_ca_def generate_key_def save_root_ca_def save_certificate_def ensure_dh_parameters_def
      load_dh_parameters_def generate_dh_parameters_def save_dh_parameters_def reset_dh_def set_dh_def
      no_files_steps new_manager_def no_certificate_def root_entries_def cong: in_order)

theorem init_provides_root_and_dh_witness:
  "complete (root (snd (run_state (init_manager no_files) new_manager)))"
  using init_provides_root_and_dh[OF new_manager_ok, of no_files
      "snd (run_state (init_manager no_files) new_manager)"] init_no_files
  by (simp add: prod_eq_iff)

text \<open>
  C33: How a certificate is made. When \<open>generate_certificate\<close> returns true, the library calls it made
  are exactly those of \<open>generation_calls\<close>: the new certificate has the root's name as issuer, the
  common name as subject, the key of a request that was verified, the clock's value as serial number,
  and is signed with the root's key after all of these are set.
\<close>

theorem certificate_generation:
  assumes "run_state (generate_certificate env cn cert) s = ((True, c), s')"
  shows "\<exists>new rsa q time. history s' = rev new @ history s \<and> root s' = root s \<and>
           map fst new = generation_calls cn (root s) (cert_key c) rsa q (cert_x509 c) time \<and>
           (X509_REQ_verify q (cert_key c), 1) \<in> set new \<and> (Universal_time, time) \<in> set new"
proof -
  have "made s [] s" by (simp add: made_def)
  from hoareD[OF made_generate_certificate this assms] show ?thesis by (simp add: made_def)
qed

theorem certificate_generation_witness:
  "\<exists>new rsa q time. history (snd (run_state (generate_certificate no_files ''a.b'' no_certificate) filled_manager)) = rev new \<and>
     map fst new = generation_calls ''a.b'' \<lparr>cert_key = 3, cert_x509 = 4\<rparr> 1 rsa q 1 time"
proof -
  let ?r = "run_state (generate_certificate no_files ''a.b'' no_certificate) filled_manager"
  have "fst ?r = (True, \<lparr>cert_key = 1, cert_x509 = 1\<rparr>)"
    by (simp add: generate_certificate_def generate_request_def generate_key_def no_files_steps
        filled_manager_def new_manager_def no_certificate_def request_entries_def
        cong: in_order)
  then have "?r = ((True, \<lparr>cert_key = 1, cert_x509 = 1\<rparr>), snd ?r)" by (metis prod.collapse)
  from certificate_generation[OF this] show ?thesis
    by (auto simp: filled_manager_def new_manager_def)
qed

text \<open>
  A file without a key. When a host's file holds a certificate but no private key and a new
  certificate cannot be made, the look-up returns the half-loaded certificate, without a key; it is
  not put into the cache.
\<close>

theorem half_loaded_certificate:
  assumes "parse_common_name host = Inr n" and "manager_ok s" and "certificates s n = None"
    and "run_state (load_certificate env (get_certificate_filename (cert_dir s) n) no_certificate) s =
           ((False, c1), s1)"
    and "run_state (generate_certificate env n c1) s1 = ((False, c2), s2)"
  shows "get_certificate env host s = Inr (c1, s2) \<and> cert_key c1 = 0 \<and> certificates s2 n = None"
proof -
  have at: "at (dh s) (root s) (certificates s) [] s" using assms(2) by (simp add: manager_ok_at)
  note l = hoareD[OF hoare_load_certificate at assms(4)]
  then have at1: "at (dh s) (root s) (certificates s) [] s1" by simp
  note g = hoareD[OF hoare_generate_certificate at1 assms(5)]
  have "run_state (certificate_for env n) s = (c2, s2)"
    using assms(3-5) by (simp add: certificate_for_def get_state_def)
  then show ?thesis
    using assms(1,3) l g by (simp add: get_certificate_def at_def no_certificate_def)
qed

theorem half_loaded_certificate_witness:
  "\<exists>s2. get_certificate half_file ''a.b'' filled_manager = Inr (\<lparr>cert_key = 0, cert_x509 = 1\<rparr>, s2)"
proof -
  have n: "parse_common_name ''a.b'' = Inr ''a.b''"
    by (simp add: parse_common_name_eq wildcard_name_def MAX_ALLOC_def)
  let ?l = "run_state (load_certificate half_file (get_certificate_filename (cert_dir filled_manager) ''a.b'')
    no_certificate) filled_manager"
  have l: "fst ?l = (False, \<lparr>cert_key = 0, cert_x509 = 1\<rparr>)"
    by (simp add: load_certificate_def half_file_steps no_certificate_def)
  let ?g = "run_state (generate_certificate half_file ''a.b'' \<lparr>cert_key = 0, cert_x509 = 1\<rparr>) (snd ?l)"
  have g: "fst ?g = (False, \<lparr>cert_key = 0, cert_x509 = 1\<rparr>)"
    by (simp add: generate_certificate_def generate_request_def generate_key_def
        half_file_steps no_certificate_def split: prod.split)
  have "certificates filled_manager ''a.b'' = None" by (simp add: filled_manager_def new_manager_def)
  from half_loaded_certificate[OF n filled_manager_ok this, of half_file "\<lparr>cert_key = 0, cert_x509 = 1\<rparr>" "snd ?l"
      "\<lparr>cert_key = 0, cert_x509 = 1\<rparr>" "snd ?g"] l g
  show ?thesis by (auto simp: prod_eq_iff)
qed

end
