(* ===== verification/Network.thy ===== *)
theory Network
  imports HttpDecoder CertificateManager
begin

text \<open>
  The state of the proxy's network side and what its parts share: connections (the members of the class
  \<open>connection\<close> of \<open>include/x/net/connection.hpp\<close>), timers (\<open>include/x/util/timer.hpp\<close>), contexts, the
  two connection managers, and the \<open>io_service\<close> with its pending operations and its queue of handlers
  ready to run. Connections are named by their ids (\<open>include/x/util/counter.hpp\<close>). A connection exists
  while something holds a shared pointer to it: a manager, the acceptor, a pending operation, a queued
  handler that captured \<open>self\<close>, or the handler that is running.
\<close>

section \<open>Timers\<close>

record timer =
  running :: bool
  triggered :: bool

definition new_timer :: timer where
  "new_timer = \<lparr>running = False, triggered = False\<rparr>"

section \<open>Connections and contexts\<close>

datatype conn_kind = Client | Server

text \<open>
  What \<open>switch_to_ssl\<close> of \<open>include/x/net/socket_wrapper.hpp\<close> puts on top of a socket: the role in the
  handshake, the options, certificate, key and parameters of the TLS context, and whether the peer's
  certificate is passed to the verification callback.
\<close>

datatype handshake_type = Ssl_client | Ssl_server

datatype ssl_option = Default_workarounds | No_sslv2 | Single_dh_use

record ssl_socket =
  ssl_type :: handshake_type
  ssl_options :: "ssl_option list"
  ssl_certificate :: int
  ssl_key :: int
  ssl_dh :: int
  ssl_verify_peer :: bool

record 'p connection =
  c_kind :: conn_kind
  c_connected :: bool
  c_stopped :: bool
  c_host :: string
  c_port :: nat
  c_timer :: timer
  c_context :: nat
  c_decoder :: "'p http_decoder"
  c_encoder :: http_encoder
  c_message :: http_message
  c_managed :: bool
  c_buffer_out :: "byte_buffer list"
  c_writing :: bool
  c_ssl :: "ssl_socket option"

definition set_host :: "string \<Rightarrow> 'p connection \<Rightarrow> 'p connection" where
  [simp]: "set_host host c = c\<lparr>c_host := host\<rparr>"

definition set_port :: "nat \<Rightarrow> 'p connection \<Rightarrow> 'p connection" where
  [simp]: "set_port port c = c\<lparr>c_port := port\<rparr>"

record connection_context =
  https :: bool
  ssl_setup :: bool
  exchange_completed :: bool
  client_conn :: "nat option"
  server_conn :: "nat option"

definition new_context :: connection_context where
  "new_context = \<lparr>https = False, ssl_setup = False, exchange_completed = False,
     client_conn = None, server_conn = None\<rparr>"

definition set_client_connection :: "nat \<Rightarrow> connection_context \<Rightarrow> connection_context" where
  [simp]: "set_client_connection i = (\<lambda>x. x\<lparr>client_conn := Some i\<rparr>)"

definition set_server_connection :: "nat \<Rightarrow> connection_context \<Rightarrow> connection_context" where
  [simp]: "set_server_connection i = (\<lambda>x. x\<lparr>server_conn := Some i\<rparr>)"

datatype connection_event = CONNECT | READ | HANDSHAKE | WRITE

section \<open>Operations and handlers\<close>

text \<open>
  A pending asynchronous operation. The completion handler of a connection's operation holds the
  connection; the handlers of the acceptor and of the signal set belong to the server, and \<open>Accept_op\<close>
  refers to the connection whose socket is to be accepted into without holding it. \<open>Write_op\<close> carries the bytes given to the socket, \<open>Timer_op\<close> the
  seconds to wait and the argument of the \<open>stop\<close> that its handler calls.
\<close>

datatype operation =
    Read_op nat
  | Write_op nat string
  | Resolve_op nat
  | Connect_op nat
  | Handshake_op nat
  | Timer_op nat nat bool
  | Accept_op nat
  | Signal_op

text \<open>
  How an operation ended. \<open>Done\<close> is success, with the data or the peer's address and with the length or
  the port, where the operation has one. \<open>Eof\<close> stands for the two codes that the program treats as the
  end of the stream, \<open>Failed\<close> for any other error code; a read that ends with an error has read no
  bytes. \<open>Raised\<close> is an accepted socket on which \<open>remote_endpoint\<close> throws.
\<close>

datatype outcome =
    Done string nat
  | Eof
  | Failed
  | Aborted
  | Raised

text \<open>
  The macro \<open>CHECK_LOG_EXEC_RETURN\<close>: an error code ends the handler with a call of \<open>func\<close>, and without
  one it goes on.
\<close>

definition check_exec_return :: "outcome \<Rightarrow> 'a \<Rightarrow> (string \<Rightarrow> nat \<Rightarrow> 'a) \<Rightarrow> 'a" where
  [simp]: "check_exec_return r func rest = (case r of Done d n \<Rightarrow> rest d n | _ \<Rightarrow> func)"

text \<open>
  The macro \<open>SSL_SHORT_READ\<close> on the value of an error code, where the constant \<open>SSL_R_SHORT_READ\<close> of
  OpenSSL is a parameter, and what a read that completed with a code, which has this value and may be
  \<open>asio\<close>'s \<open>eof\<close>, comes to.
\<close>

definition SSL_SHORT_READ :: "int \<Rightarrow> int \<Rightarrow> bool" where
  "SSL_SHORT_READ short_read ec = (and ec 255 = short_read)"

definition read_outcome :: "int \<Rightarrow> bool \<Rightarrow> int \<Rightarrow> string \<Rightarrow> outcome" where
  "read_outcome short_read is_eof ec data =
     (if ec \<noteq> 0 then if is_eof \<or> SSL_SHORT_READ short_read ec then Eof else Failed
      else Done data (length data))"

text \<open>The code that the comment on the macro names is a short read exactly if that constant is 219.\<close>

lemma short_read_code: "read_outcome short_read False 335544539 data = Eof \<longleftrightarrow> short_read = 219"
  by (simp add: read_outcome_def SSL_SHORT_READ_def)

text \<open>
  The handlers in the queue of the \<open>io_service\<close>: completed operations, and the tasks that the program
  posts. \<open>Event_task\<close> captured a bare \<open>this\<close>, \<open>Stop_task\<close> a shared pointer.
\<close>

datatype task =
    Ready operation outcome
  | Event_task connection_event nat
  | Stop_task nat

fun op_refs :: "operation \<Rightarrow> nat list" where
  "op_refs (Read_op i) = [i]"
| "op_refs (Write_op i d) = [i]"
| "op_refs (Resolve_op i) = [i]"
| "op_refs (Connect_op i) = [i]"
| "op_refs (Handshake_op i) = [i]"
| "op_refs (Timer_op i t n) = [i]"
| "op_refs (Accept_op i) = []"
| "op_refs Signal_op = []"

fun task_refs :: "task \<Rightarrow> nat list" where
  "task_refs (Ready p r) = op_refs p"
| "task_refs (Event_task e i) = []"
| "task_refs (Stop_task i) = [i]"

section \<open>The world\<close>

record 'p world =
  w_conns :: "nat \<rightharpoonup> 'p connection"
  w_contexts :: "nat \<Rightarrow> connection_context"
  w_ops :: "operation list"
  w_queue :: "task list"
  w_client_mgr :: "nat list"
  w_server_mgr :: "nat list"
  w_current :: "nat option"
  w_accepting :: bool
  w_pinned :: "nat list"
  w_counter :: nat
  w_next_context :: nat
  w_certs :: cert_manager
  w_thrown :: bool

text \<open>
  What is not in the repository: the parser, the library behind the certificates, and
  \<open>boost::lexical_cast<unsigned short>\<close>, which is \<open>None\<close> where it throws.
\<close>

record 'p setting =
  parser :: "'p parser_api"
  library :: environment
  lexical_cast :: "string \<Rightarrow> nat option"

type_synonym 'p action = "'p world \<Rightarrow> 'p world result"

definition conn :: "'p world \<Rightarrow> nat \<Rightarrow> 'p connection result" where
  "conn w i = (case w_conns w i of None \<Rightarrow> Inl Use_After_Free | Some c \<Rightarrow> Inr c)"

definition modify :: "nat \<Rightarrow> ('p connection \<Rightarrow> 'p connection) \<Rightarrow> 'p world \<Rightarrow> 'p world" where
  "modify i f w = w\<lparr>w_conns := (w_conns w)(i := map_option f (w_conns w i))\<rparr>"

definition set_context :: "nat \<Rightarrow> (connection_context \<Rightarrow> connection_context) \<Rightarrow> 'p world \<Rightarrow> 'p world" where
  "set_context k f w = w\<lparr>w_contexts := (w_contexts w)(k := f (w_contexts w k))\<rparr>"

definition initiate :: "operation \<Rightarrow> 'p world \<Rightarrow> 'p world" where
  "initiate p w = w\<lparr>w_ops := w_ops w @ [p]\<rparr>"

definition post :: "task \<Rightarrow> 'p world \<Rightarrow> 'p world" where
  "post t w = w\<lparr>w_queue := w_queue w @ [t]\<rparr>"

text \<open>The shared pointers to connections, and \<open>weak_ptr::lock\<close>.\<close>

definition shared_refs :: "'p world \<Rightarrow> nat list" where
  "shared_refs w = w_client_mgr w @ w_server_mgr w @
     (case w_current w of None \<Rightarrow> [] | Some i \<Rightarrow> [i]) @
     concat (map op_refs (w_ops w)) @ concat (map task_refs (w_queue w))"

definition lock :: "'p world \<Rightarrow> nat option \<Rightarrow> nat option" where
  "lock w r = (case r of None \<Rightarrow> None
     | Some i \<Rightarrow> if i \<in> set (shared_refs w @ w_pinned w) then Some i else None)"

text \<open>After a handler has run, the connections that nothing holds any more are destroyed.\<close>

definition release :: "'p world \<Rightarrow> 'p world" where
  "release w = w\<lparr>w_conns := w_conns w |` set (shared_refs w), w_pinned := []\<rparr>"

section \<open>Timer operations\<close>

fun is_timer_of :: "nat \<Rightarrow> operation \<Rightarrow> bool" where
  "is_timer_of i (Timer_op j t n) = (i = j)"
| "is_timer_of i _ = False"

text \<open>\<open>deadline_timer::cancel\<close>: waits that have not expired end with \<open>operation_aborted\<close>.\<close>

definition cancel_waits :: "nat \<Rightarrow> 'p world \<Rightarrow> 'p world" where
  "cancel_waits i w = w\<lparr>w_ops := filter (\<lambda>p. \<not> is_timer_of i p) (w_ops w),
     w_queue := w_queue w @ map (\<lambda>p. Ready p Aborted) (filter (is_timer_of i) (w_ops w))\<rparr>"

definition timer_start :: "nat \<Rightarrow> nat \<Rightarrow> bool \<Rightarrow> 'p action" where
  "timer_start i t notify w = bind_res (conn w i) (\<lambda>c.
     if running (c_timer c) then Inr w
     else Inr (modify i (\<lambda>c. c\<lparr>c_timer := (c_timer c)\<lparr>running := True\<rparr>\<rparr>)
           (initiate (Timer_op i t notify) (cancel_waits i w))))"

definition timer_cancel :: "nat \<Rightarrow> 'p action" where
  "timer_cancel i w = bind_res (conn w i) (\<lambda>c.
     if running (c_timer c) then Inr (cancel_waits i w) else Inr w)"

section \<open>Managers\<close>

definition mgr_add :: "conn_kind \<Rightarrow> nat \<Rightarrow> 'p world \<Rightarrow> 'p world" where
  "mgr_add k i w = (case k of
     Client \<Rightarrow> w\<lparr>w_client_mgr := List.insert i (w_client_mgr w)\<rparr>
   | Server \<Rightarrow> w\<lparr>w_server_mgr := List.insert i (w_server_mgr w)\<rparr>)"

definition mgr_erase :: "conn_kind \<Rightarrow> nat \<Rightarrow> 'p world \<Rightarrow> 'p world" where
  "mgr_erase k i w = (case k of
     Client \<Rightarrow> w\<lparr>w_client_mgr := remove1 i (w_client_mgr w)\<rparr>
   | Server \<Rightarrow> w\<lparr>w_server_mgr := remove1 i (w_server_mgr w)\<rparr>)"

end
