(* ===== verification/Connection.thy ===== *)
theory Connection
  imports Network
begin

text \<open>
  The class \<open>connection\<close> (\<open>src/connection.cpp\<close>) with the overrides of \<open>start\<close>, \<open>connect\<close>, \<open>handshake\<close>,
  \<open>reset\<close> and \<open>on_write\<close> that its operations reach, of \<open>src/client_connection.cpp\<close> and
  \<open>src/server_connection.cpp\<close>. A call of a virtual function is a case distinction on the kind of the
  connection. The macro \<open>ASSERT_EXEC_RETNONE\<close> runs \<open>assert\<close> when its condition fails, so it ends the
  process.
\<close>

section \<open>Reading and starting\<close>

definition read :: "nat \<Rightarrow> 'p action" where
  "read i w = bind_res (conn w i) (\<lambda>c.
     bind_res (assert_that (c_connected c)) (\<lambda>_.
     bind_res (assert_that (\<not> c_stopped c)) (\<lambda>_.
     Inr (initiate (Read_op i) w))))"

definition client_start :: "nat \<Rightarrow> 'p action" where
  "client_start i w = bind_res (conn w i) (\<lambda>c.
     let w1 = modify i (\<lambda>c. c\<lparr>c_connected := True\<rparr>) w;
         w2 = set_context (c_context c) (set_client_connection i) w1
     in read i w2)"

definition server_connect :: "nat \<Rightarrow> 'p action" where
  "server_connect i w = Inr (initiate (Resolve_op i) w)"

definition server_start :: "nat \<Rightarrow> 'p action" where
  "server_start i w = bind_res (conn w i) (\<lambda>c.
     bind_res (assert_that (length (c_host c) > 0)) (\<lambda>_.
     bind_res (assert_that (c_port c \<noteq> 0)) (\<lambda>_.
     server_connect i (set_context (c_context c) (set_server_connection i) w))))"

definition start :: "nat \<Rightarrow> 'p action" where
  "start i w = bind_res (conn w i) (\<lambda>c. case c_kind c of
     Client \<Rightarrow> client_start i w | Server \<Rightarrow> server_start i w)"

section \<open>Stopping\<close>

text \<open>What \<open>stop\<close> does after the timer is cancelled, to the connection that it found in the state \<open>c\<close>.\<close>

definition halt :: "nat \<Rightarrow> bool \<Rightarrow> 'p connection \<Rightarrow> 'p world \<Rightarrow> 'p world" where
  "halt i notify c w1 =
     (let w2 = (if c_connected c then modify i (\<lambda>c. c\<lparr>c_connected := False\<rparr>) w1 else w1);
          w3 = (if notify then post (Stop_task i) w2 else w2);
          w4 = (if c_managed c then mgr_erase (c_kind c) i w3 else w3)
      in modify i (\<lambda>c. c\<lparr>c_stopped := True\<rparr>) w4)"

definition cancel_timer :: "nat \<Rightarrow> 'p action" where
  [simp]: "cancel_timer i w = timer_cancel i w"

definition stop :: "nat \<Rightarrow> bool \<Rightarrow> 'p action" where
  "stop i notify w = bind_res (conn w i) (\<lambda>c.
     if c_stopped c then Inr w
     else bind_res (if running (c_timer c) then cancel_timer i w else Inr w) (\<lambda>w1.
          Inr (halt i notify c w1)))"

definition detach :: "nat \<Rightarrow> 'p world \<Rightarrow> 'p world" where
  "detach i w = modify i (\<lambda>c. c\<lparr>c_managed := False\<rparr>) w"

text \<open>The handler that a timer runs: it stops the connection when the timer has expired.\<close>

definition on_timer :: "nat \<Rightarrow> bool \<Rightarrow> outcome \<Rightarrow> 'p action" where
  "on_timer i notify r w = bind_res (conn w i) (\<lambda>_.
     let w1 = modify i (\<lambda>c. c\<lparr>c_timer := (c_timer c)\<lparr>running := False\<rparr>\<rparr>) w in
     case r of
       Done d n \<Rightarrow> stop i notify (modify i (\<lambda>c. c\<lparr>c_timer := (c_timer c)\<lparr>triggered := True\<rparr>\<rparr>) w1)
     | _ \<Rightarrow> Inr w1)"

section \<open>Writing\<close>

definition do_write :: "nat \<Rightarrow> 'p action" where
  "do_write i w = bind_res (conn w i) (\<lambda>c.
     if c_writing c then Inr w
     else case c_buffer_out c of
       [] \<Rightarrow> Inr w
     | candidate # _ \<Rightarrow>
         if \<not> c_connected c then start i w
         else Inr (initiate (Write_op i (bytes candidate)) (modify i (\<lambda>c. c\<lparr>c_writing := True\<rparr>) w)))"

definition write_out :: "nat \<Rightarrow> 'p action" where
  "write_out i w = bind_res (conn w i) (\<lambda>c.
     bind_res (assert_that (\<not> c_stopped c)) (\<lambda>_.
     bind_res (if running (c_timer c) then cancel_timer i w else Inr w) (do_write i)))"

text \<open>The new state of the encoder, and its output if there is any, at the end of the queue.\<close>

definition push_encoded :: "nat \<Rightarrow> http_encoder \<Rightarrow> byte_buffer \<Rightarrow> 'p world \<Rightarrow> 'p world" where
  "push_encoded i e buf w = modify i (\<lambda>c. c\<lparr>c_encoder := e,
     c_buffer_out := (if bb_size buf > 0 then c_buffer_out c @ [buf] else c_buffer_out c)\<rparr>) w"

definition write_message :: "nat \<Rightarrow> http_message \<Rightarrow> 'p action" where
  "write_message i m w = bind_res (conn w i) (\<lambda>c.
     bind_res (assert_that (\<not> c_stopped c)) (\<lambda>_.
     bind_res (if running (c_timer c) then cancel_timer i w else Inr w) (\<lambda>w1.
     bind_res (new_buffer 0) (\<lambda>buf.
     bind_res (encode m (c_encoder c) buf) (\<lambda>(e, buf1, n).
     do_write i (push_encoded i e buf1 w1))))))"

definition client_on_write :: "nat \<Rightarrow> 'p action" where
  "client_on_write i w = bind_res (conn w i) (\<lambda>c.
     if c_stopped c then Inr w else Inr (post (Event_task WRITE i) w))"

definition server_on_write :: "nat \<Rightarrow> 'p action" where
  "server_on_write i w = bind_res (conn w i) (\<lambda>c.
     if c_stopped c then Inr w else read i w)"

definition on_write :: "nat \<Rightarrow> 'p action" where
  "on_write i w = bind_res (conn w i) (\<lambda>c. case c_kind c of
     Client \<Rightarrow> client_on_write i w | Server \<Rightarrow> server_on_write i w)"

definition on_written :: "nat \<Rightarrow> outcome \<Rightarrow> 'p action" where
  "on_written i r w = bind_res (conn w i) (\<lambda>c.
     let w1 = modify i (\<lambda>c. c\<lparr>c_writing := False\<rparr>) w in
     if c_stopped c then Inr w1
     else check_exec_return r (stop i True w1) (\<lambda>d len.
          case c_buffer_out c of
            [] \<Rightarrow> Inl Out_Of_Bounds
          | b # bs \<Rightarrow>
              if len < bb_size b then
                bind_res (buffer_erase 0 len b) (\<lambda>b'.
                do_write i (modify i (\<lambda>c. c\<lparr>c_buffer_out := b' # bs\<rparr>) w1))
              else
                let w2 = modify i (\<lambda>c. c\<lparr>c_buffer_out := bs\<rparr>) w1
                in if bs \<noteq> [] then do_write i w2 else on_write i w2))"

section \<open>Resetting for the next exchange\<close>

definition SVR_RSP_WAITING_TIME :: nat where "SVR_RSP_WAITING_TIME = 15"
definition CLIENT_IDLE_WAITING_TIME :: nat where "CLIENT_IDLE_WAITING_TIME = 60"
definition SERVER_IDLE_WAITING_TIME :: nat where "SERVER_IDLE_WAITING_TIME = 15"

definition connection_reset :: "nat \<Rightarrow> 'p world \<Rightarrow> 'p world" where
  "connection_reset i w = modify i (\<lambda>c. c\<lparr>c_buffer_out := [], c_writing := False\<rparr>) w"

definition reset_codec :: "'p parser_api \<Rightarrow> nat \<Rightarrow> 'p world \<Rightarrow> 'p world" where
  "reset_codec api i w = modify i (\<lambda>c. c\<lparr>c_decoder := reset_decoder api (c_decoder c),
     c_encoder := reset_encoder (c_encoder c), c_message := reset_message (c_message c)\<rparr>) w"

definition client_reset :: "'p parser_api \<Rightarrow> nat \<Rightarrow> 'p action" where
  "client_reset api i w = bind_res (conn w i) (\<lambda>_.
     bind_res (timer_start i CLIENT_IDLE_WAITING_TIME True (reset_codec api i (connection_reset i w))) (read i))"

definition server_reset :: "'p parser_api \<Rightarrow> nat \<Rightarrow> 'p action" where
  "server_reset api i w = bind_res (conn w i) (\<lambda>_.
     timer_start i SERVER_IDLE_WAITING_TIME False (reset_codec api i (connection_reset i w)))"

definition conn_keep_alive :: "'p parser_api \<Rightarrow> nat \<Rightarrow> 'p world \<Rightarrow> bool result" where
  "conn_keep_alive api i w = bind_res (conn w i) (\<lambda>c. Inr (keep_alive api (c_decoder c)))"

section \<open>Handshakes\<close>

text \<open>\<open>socket_wrapper::switch_to_ssl\<close>: its assertions and its effect on the socket.\<close>

definition new_ssl_socket :: "handshake_type \<Rightarrow> certificate \<Rightarrow> int \<Rightarrow> ssl_socket" where
  "new_ssl_socket t ca d = (case t of
     Ssl_server \<Rightarrow> \<lparr>ssl_type = Ssl_server, ssl_options = [Default_workarounds, No_sslv2, Single_dh_use],
       ssl_certificate = cert_x509 ca, ssl_key = cert_key ca, ssl_dh = d, ssl_verify_peer = False\<rparr>
   | Ssl_client \<Rightarrow> \<lparr>ssl_type = Ssl_client, ssl_options = [], ssl_certificate = 0, ssl_key = 0, ssl_dh = 0,
       ssl_verify_peer = True\<rparr>)"

definition switch_to_ssl :: "handshake_type \<Rightarrow> certificate \<Rightarrow> int \<Rightarrow> nat \<Rightarrow> 'p action" where
  "switch_to_ssl t ca d i w = bind_res (conn w i) (\<lambda>c.
     bind_res (assert_that (c_ssl c = None)) (\<lambda>_.
     bind_res (if t = Ssl_server then assert_that (cert_key ca \<noteq> 0 \<and> cert_x509 ca \<noteq> 0 \<and> d \<noteq> 0) else Inr ()) (\<lambda>_.
     Inr (modify i (\<lambda>c. c\<lparr>c_ssl := Some (new_ssl_socket t ca d)\<rparr>) w))))"

definition async_handshake :: "nat \<Rightarrow> 'p action" where
  "async_handshake i w = bind_res (conn w i) (\<lambda>c.
     bind_res (assert_that (c_ssl c \<noteq> None)) (\<lambda>_.
     Inr (initiate (Handshake_op i) w)))"

definition client_handshake :: "certificate \<Rightarrow> int \<Rightarrow> nat \<Rightarrow> 'p action" where
  "client_handshake ca d i w = bind_res (switch_to_ssl Ssl_server ca d i w) (async_handshake i)"

definition server_handshake :: "nat \<Rightarrow> 'p action" where
  "server_handshake i w = bind_res (switch_to_ssl Ssl_client no_certificate 0 i w) (async_handshake i)"

end
