(* ===== verification/Handlers.thy ===== *)
theory Handlers
  imports Connection
begin

text \<open>
  The completion handlers of the two kinds of connection, \<open>src/client_connection.cpp\<close> and
  \<open>src/server_connection.cpp\<close>, and the connection context that ties a client to its server,
  \<open>include/x/net/connection_context.hpp\<close> and \<open>src/connection_context.cpp\<close>.
\<close>

section \<open>Client connections\<close>

text \<open>What \<open>on_read\<close> does once the data is decoded.\<close>

definition client_decoded :: "nat \<Rightarrow> nat \<Rightarrow> 'p http_decoder \<Rightarrow> http_message \<Rightarrow> nat \<Rightarrow> 'p action" where
  "client_decoded i len d m consumed w1 =
     (let w2 = modify i (\<lambda>c. c\<lparr>c_decoder := d, c_message := m\<rparr>) w1 in
      if consumed \<noteq> len then stop i True w2
      else if \<not> deliverable m then read i w2
      else timer_start i SVR_RSP_WAITING_TIME True (post (Event_task READ i) w2))"

definition client_on_read :: "'p parser_api \<Rightarrow> nat \<Rightarrow> outcome \<Rightarrow> 'p action" where
  "client_on_read api i r w = bind_res (conn w i) (\<lambda>c.
     if c_stopped c then Inr w
     else case r of
       Done data n \<Rightarrow>
         if length data = 0 then stop i True w
         else if completed (c_message c) then stop i True w
         else
           bind_res (if running (c_timer c) then cancel_timer i w else Inr w) (\<lambda>w1.
           bind_res (decode api data (c_decoder c) (c_message c)) (\<lambda>(d, m, consumed).
           client_decoded i (length data) d m consumed w1))
     | _ \<Rightarrow> stop i True w)"

definition client_on_handshake :: "'p parser_api \<Rightarrow> nat \<Rightarrow> outcome \<Rightarrow> 'p action" where
  "client_on_handshake api i r w = bind_res (conn w i) (\<lambda>c.
     if c_stopped c then Inr w
     else check_exec_return r (stop i True w) (\<lambda>d n.
          Inr (post (Event_task HANDSHAKE i) (reset_codec api i w))))"

text \<open>\<open>connect\<close> and \<open>on_connect\<close> of a client connection are assertions that never hold.\<close>

definition client_on_connect :: "nat \<Rightarrow> outcome \<Rightarrow> 'p action" where
  "client_on_connect i r w = Inl Assertion_Failed"

section \<open>Server connections\<close>

definition server_decoded :: "nat \<Rightarrow> nat \<Rightarrow> 'p http_decoder \<Rightarrow> http_message \<Rightarrow> nat \<Rightarrow> 'p action" where
  "server_decoded i len d m consumed w1 =
     (let w2 = modify i (\<lambda>c. c\<lparr>c_decoder := d, c_message := m\<rparr>) w1 in
      bind_res (assert_that (consumed = len)) (\<lambda>_.
      if \<not> deliverable m then read i w2
      else Inr (post (Event_task READ i) w2)))"

definition server_on_read :: "'p parser_api \<Rightarrow> nat \<Rightarrow> outcome \<Rightarrow> 'p action" where
  "server_on_read api i r w = bind_res (conn w i) (\<lambda>c.
     if c_stopped c then Inr w
     else case r of
       Done data n \<Rightarrow>
         if length data = 0 then stop i True w
         else if completed (c_message c) then stop i True w
         else
           bind_res (if running (c_timer c) then cancel_timer i w else Inr w) (\<lambda>w1.
           bind_res (decode api data (c_decoder c) (c_message c)) (\<lambda>(d, m, consumed).
           server_decoded i (length data) d m consumed w1))
     | Eof \<Rightarrow> stop i True (modify i (\<lambda>c. c\<lparr>c_connected := False\<rparr>) w)
     | _ \<Rightarrow> stop i True w)"

definition server_on_resolve :: "nat \<Rightarrow> outcome \<Rightarrow> 'p action" where
  "server_on_resolve i r w = bind_res (conn w i) (\<lambda>c.
     if c_stopped c then Inr w
     else check_exec_return r (stop i True w) (\<lambda>d n. Inr (initiate (Connect_op i) w)))"

definition server_on_connect :: "nat \<Rightarrow> outcome \<Rightarrow> 'p action" where
  "server_on_connect i r w = bind_res (conn w i) (\<lambda>c.
     if c_stopped c then Inr w
     else check_exec_return r (stop i True w) (\<lambda>d n.
          Inr (post (Event_task CONNECT i) (modify i (\<lambda>c. c\<lparr>c_connected := True\<rparr>) w))))"

definition server_on_handshake :: "nat \<Rightarrow> outcome \<Rightarrow> 'p action" where
  "server_on_handshake i r w = bind_res (conn w i) (\<lambda>c.
     if c_stopped c then Inr w
     else check_exec_return r (stop i True w) (\<lambda>d n. Inr (post (Event_task HANDSHAKE i) w)))"

section \<open>Destinations\<close>

text \<open>
  \<open>parse_destination\<close>: the new value of \<open>https\<close> and the host and port; \<open>None\<close> in place of these when
  \<open>lexical_cast\<close> throws, which leaves the change of \<open>https\<close> in effect.
\<close>

definition parse_destination :: "(string \<Rightarrow> nat option) \<Rightarrow> http_message \<Rightarrow> bool \<Rightarrow>
    (bool \<times> (string \<times> nat) option) result" where
  "parse_destination cast m https0 =
     (case derived m of
        Response_part s t \<Rightarrow> Inl Assertion_Failed
      | Request_part meth u \<Rightarrow>
          bind_res (if length meth = 7 \<and> meth ! 0 = CHR ''C'' \<and> meth ! 1 = CHR ''O''
                    then Inr (True, u, 443)
                    else case find_header m ''Host'' of
                      None \<Rightarrow> Inl Assertion_Failed
                    | Some h \<Rightarrow> Inr (https0, h, 80)) (\<lambda>(https1, host, port).
          let sep = find_char CHR '':'' host 0 in
          if sep \<noteq> npos then
            bind_res (substr_from host (size_add sep 1)) (\<lambda>digits.
            case cast digits of
              None \<Rightarrow> Inr (https1, None)
            | Some p \<Rightarrow> bind_res (substr_len host 0 sep) (\<lambda>h. Inr (https1, Some (h, p))))
          else Inr (https1, Some (host, port))))"

section \<open>Contexts\<close>

text \<open>
  The constructors of the two classes of connections. The id is the incremented counter; it is kept as
  an unbounded number, so the ids of 2^64 connections are taken to be distinct. The uninitialised
  \<open>port_\<close> is 0.
\<close>

definition new_connection :: "'p parser_api \<Rightarrow> conn_kind \<Rightarrow> nat \<Rightarrow> 'p connection result" where
  "new_connection api k ctx =
     bind_res (case k of Client \<Rightarrow> new_request | Server \<Rightarrow> new_response) (\<lambda>m.
     Inr \<lparr>c_kind = k, c_connected = False, c_stopped = False, c_host = [], c_port = 0,
          c_timer = new_timer, c_context = ctx,
          c_decoder = new_decoder api (case k of Client \<Rightarrow> HTTP_REQUEST | Server \<Rightarrow> HTTP_RESPONSE),
          c_encoder = new_encoder (case k of Client \<Rightarrow> HTTP_RESPONSE | Server \<Rightarrow> HTTP_REQUEST),
          c_message = m, c_managed = True, c_buffer_out = [], c_writing = False, c_ssl = None\<rparr>)"

definition make_connection :: "'p parser_api \<Rightarrow> conn_kind \<Rightarrow> nat \<Rightarrow> 'p world \<Rightarrow> (nat \<times> 'p world) result" where
  "make_connection api k ctx w =
     bind_res (new_connection api k ctx) (\<lambda>c.
     let i = Suc (w_counter w) in
     Inr (i, w\<lparr>w_conns := (w_conns w)(i \<mapsto> c), w_counter := i\<rparr>))"

text \<open>
  The second half of \<open>on_client_message\<close>, where the destination is known: a server connection for it is
  made, and either the reply to CONNECT goes to the client or the message to the server.
\<close>

definition open_server :: "'p setting \<Rightarrow> nat \<Rightarrow> http_message \<Rightarrow> bool \<Rightarrow> string \<times> nat \<Rightarrow> 'p action" where
  "open_server env k m https1 dest w =
     (let x = w_contexts w k in
      bind_res (make_connection (parser env) Server k (set_context k (\<lambda>x. x\<lparr>https := https1\<rparr>) w)) (\<lambda>(s, w2).
      let w3 = mgr_add Server s (modify s (\<lambda>c. set_port (snd dest) (set_host (fst dest) c)) w2);
          w4 = set_context k (set_server_connection s) w3
      in case lock w4 (client_conn x) of
           None \<Rightarrow> Inl Assertion_Failed
         | Some c \<Rightarrow>
             if https1 \<and> \<not> ssl_setup x
             then bind_res (make_response SSL_REPLY) (\<lambda>resp. write_message c resp w4)
             else write_message s m w4))"

definition on_client_message :: "'p setting \<Rightarrow> nat \<Rightarrow> http_message \<Rightarrow> 'p action" where
  "on_client_message env k m w =
     bind_res (assert_that (is_Request_part (derived m))) (\<lambda>_.
     bind_res (assert_that (completed m)) (\<lambda>_.
     let x = w_contexts w k in
     case lock w (server_conn x) of
       Some s \<Rightarrow> write_message s m w
     | None \<Rightarrow>
         bind_res (parse_destination (lexical_cast env) m (https x)) (\<lambda>(https1, dest).
         case dest of
           None \<Rightarrow> Inr ((set_context k (\<lambda>x. x\<lparr>https := https1\<rparr>) w)\<lparr>w_thrown := True\<rparr>)
         | Some d \<Rightarrow>
             bind_res (assert_that (\<not> (https x \<and> \<not> https1))) (\<lambda>_.
             open_server env k m https1 d w))))"

definition on_server_message :: "'p setting \<Rightarrow> nat \<Rightarrow> http_message \<Rightarrow> 'p action" where
  "on_server_message env k m w =
     (let x = w_contexts w k in
      case (lock w (client_conn x), lock w (server_conn x)) of
        (Some c, Some s) \<Rightarrow>
          bind_res (write_message c m w) (\<lambda>w1.
          if \<not> completed m then read s w1
          else
            let w2 = set_context k (\<lambda>x. x\<lparr>exchange_completed := True\<rparr>) w1 in
            bind_res (conn_keep_alive (parser env) s w2) (\<lambda>keep.
            if keep then server_reset (parser env) s w2 else stop s False w2))
      | _ \<Rightarrow> Inl Assertion_Failed)"

definition context_reset :: "nat \<Rightarrow> 'p world \<Rightarrow> 'p world" where
  "context_reset k w = set_context k (\<lambda>x. x\<lparr>exchange_completed := False\<rparr>) w"

definition on_client_event :: "'p setting \<Rightarrow> connection_event \<Rightarrow> nat \<Rightarrow> 'p action" where
  "on_client_event env ev i w = bind_res (conn w i) (\<lambda>c.
     let k = c_context c; x = w_contexts w k in
     case ev of
       READ \<Rightarrow> on_client_message env k (c_message c) w
     | WRITE \<Rightarrow>
         if https x \<and> \<not> ssl_setup x then
           (case lock w (server_conn x) of
              None \<Rightarrow> Inl Assertion_Failed
            | Some s \<Rightarrow>
                bind_res (conn w s) (\<lambda>sc.
                bind_res (get_certificate (library env) (c_host sc) (w_certs w)) (\<lambda>(cert, mgr).
                client_handshake cert (fst (run_state get_dh_parameters mgr)) i (w\<lparr>w_certs := mgr\<rparr>))))
         else if exchange_completed x then
           bind_res (conn_keep_alive (parser env) i w) (\<lambda>keep.
           if keep then bind_res (client_reset (parser env) i w) (\<lambda>w1. Inr (context_reset k w1))
           else stop i False w)
         else Inr w
     | HANDSHAKE \<Rightarrow> read i (set_context k (\<lambda>x. x\<lparr>ssl_setup := True\<rparr>) w)
     | CONNECT \<Rightarrow> Inl Assertion_Failed)"

definition on_server_event :: "'p setting \<Rightarrow> connection_event \<Rightarrow> nat \<Rightarrow> 'p action" where
  "on_server_event env ev i w = bind_res (conn w i) (\<lambda>c.
     let k = c_context c; x = w_contexts w k in
     case ev of
       CONNECT \<Rightarrow> if https x then server_handshake i w else write_out i w
     | READ \<Rightarrow> on_server_message env k (c_message c) w
     | HANDSHAKE \<Rightarrow> write_out i w
     | WRITE \<Rightarrow> Inl Assertion_Failed)"

definition on_stop :: "nat \<Rightarrow> nat \<Rightarrow> 'p action" where
  "on_stop k i w =
     (let x = w_contexts w k; c = lock w (client_conn x); s = lock w (server_conn x) in
      if c = Some i then
        (case s of Some j \<Rightarrow> stop j False w | None \<Rightarrow> Inr w)
      else
        (case c of Some j \<Rightarrow> stop j False w | None \<Rightarrow> Inr w))"

end
