(* ===== verification/Transitions.thy ===== *)
theory Transitions
  imports Main
begin

text \<open>
  Transition systems: reachable states, and the interface of an invariant, which holds initially and
  is kept by every step and so holds in every reachable state.
\<close>

inductive reach :: "('s \<Rightarrow> bool) \<Rightarrow> ('s \<Rightarrow> 's \<Rightarrow> bool) \<Rightarrow> 's \<Rightarrow> bool" for initial steps where
  Start: "initial s \<Longrightarrow> reach initial steps s"
| Next: "reach initial steps s \<Longrightarrow> steps s s' \<Longrightarrow> reach initial steps s'"

locale invariant =
  fixes initial :: "'s \<Rightarrow> bool" and steps :: "'s \<Rightarrow> 's \<Rightarrow> bool" and I :: "'s \<Rightarrow> bool"
  assumes initially: "initial s \<Longrightarrow> I s"
    and kept: "I s \<Longrightarrow> steps s s' \<Longrightarrow> I s'"
begin

lemma always: "reach initial steps s \<Longrightarrow> I s"
  by (induction rule: reach.induct) (auto intro: initially kept)

end

end
