(* ===== verification/EventLoop.thy ===== *)
theory EventLoop
  imports Handlers Transitions
begin

text \<open>
  The server (\<open>include/x/net/server.hpp\<close>, \<open>src/server.cpp\<close>), the connection managers
  (\<open>include/x/net/connection_manager.hpp\<close>) and the main loop (\<open>src/main.cpp\<close>), and the runs of the
  whole program: a step completes a pending operation with some outcome, or runs the handler at the
  head of the queue of the \<open>io_service\<close>.
\<close>

section \<open>The server\<close>

definition start_accept :: "'p setting \<Rightarrow> 'p action" where
  "start_accept env w =
     (let k = w_next_context w;
          w1 = set_context k (\<lambda>_. new_context) (w\<lparr>w_next_context := k + 1\<rparr>) in
      bind_res (make_connection (parser env) Client k w1) (\<lambda>(i, w2).
      Inr (initiate (Accept_op i) (w2\<lparr>w_current := Some i\<rparr>))))"

text \<open>
  The handler of \<open>async_accept\<close>. With an error it only returns. Otherwise the operation accepted into the
  socket of connection \<open>i\<close>, which a connection destroyed meanwhile took with it; and the handler works on
  \<open>current_connection_\<close>, whose socket is not connected when it is another one, so that
  \<open>remote_endpoint\<close> throws.
\<close>

definition on_accept :: "'p setting \<Rightarrow> nat \<Rightarrow> outcome \<Rightarrow> 'p action" where
  "on_accept env i r w =
     (if r \<in> {Eof, Failed, Aborted} then Inr w
      else bind_res (conn w i) (\<lambda>_.
        case w_current w of
          None \<Rightarrow> Inl Null_Dereference
        | Some j \<Rightarrow>
            (case r of
               Done addr port \<Rightarrow>
                 if i \<noteq> j then Inr (w\<lparr>w_thrown := True\<rparr>)
                 else
                   let w1 = modify j (\<lambda>c. set_port port (set_host addr c)) w;
                       w2 = mgr_add Client j w1
                   in bind_res (start j w2) (start_accept env)
             | _ \<Rightarrow> Inr (w\<lparr>w_thrown := True\<rparr>))))"

definition stop_one :: "nat \<Rightarrow> 'p action" where
  "stop_one i w = stop i False (detach i w)"

definition stop_all :: "conn_kind \<Rightarrow> 'p action" where
  "stop_all k w =
     bind_res (fold_res stop_one (case k of Client \<Rightarrow> w_client_mgr w | Server \<Rightarrow> w_server_mgr w) w) (\<lambda>w1.
     Inr (case k of Client \<Rightarrow> w1\<lparr>w_client_mgr := []\<rparr> | Server \<Rightarrow> w1\<lparr>w_server_mgr := []\<rparr>))"

fun is_accept :: "operation \<Rightarrow> bool" where
  "is_accept (Accept_op i) = True"
| "is_accept _ = False"

definition close_acceptor :: "'p world \<Rightarrow> 'p world" where
  "close_acceptor w = w\<lparr>w_accepting := False,
     w_ops := filter (\<lambda>p. \<not> is_accept p) (w_ops w),
     w_queue := w_queue w @ map (\<lambda>p. Ready p Aborted) (filter is_accept (w_ops w))\<rparr>"

definition on_signal :: "'p action" where
  "on_signal w = bind_res (stop_all Client w) (\<lambda>w1.
     bind_res (stop_all Server w1) (\<lambda>w2. Inr (close_acceptor w2)))"

definition initial_world :: "cert_manager \<Rightarrow> 'p world" where
  "initial_world cm = \<lparr>w_conns = Map.empty, w_contexts = (\<lambda>_. new_context), w_ops = [Signal_op],
     w_queue = [], w_client_mgr = [], w_server_mgr = [], w_current = None, w_accepting = True,
     w_pinned = [], w_counter = 0, w_next_context = 0, w_certs = cm, w_thrown = False\<rparr>"

section \<open>Running handlers\<close>

fun run_task :: "'p setting \<Rightarrow> task \<Rightarrow> 'p action" where
  "run_task env (Ready (Read_op i) r) w = bind_res (conn w i) (\<lambda>c. case c_kind c of
     Client \<Rightarrow> client_on_read (parser env) i r w | Server \<Rightarrow> server_on_read (parser env) i r w)"
| "run_task env (Ready (Write_op i d) r) w = on_written i r w"
| "run_task env (Ready (Resolve_op i) r) w = server_on_resolve i r w"
| "run_task env (Ready (Connect_op i) r) w = bind_res (conn w i) (\<lambda>c. case c_kind c of
     Client \<Rightarrow> client_on_connect i r w | Server \<Rightarrow> server_on_connect i r w)"
| "run_task env (Ready (Handshake_op i) r) w = bind_res (conn w i) (\<lambda>c. case c_kind c of
     Client \<Rightarrow> client_on_handshake (parser env) i r w | Server \<Rightarrow> server_on_handshake i r w)"
| "run_task env (Ready (Timer_op i t n) r) w = on_timer i n r w"
| "run_task env (Ready (Accept_op i) r) w = on_accept env i r w"
| "run_task env (Ready Signal_op r) w = on_signal w"
| "run_task env (Event_task ev i) w = bind_res (conn w i) (\<lambda>c. case c_kind c of
     Client \<Rightarrow> on_client_event env ev i w | Server \<Rightarrow> on_server_event env ev i w)"
| "run_task env (Stop_task i) w = bind_res (conn w i) (\<lambda>c. on_stop (c_context c) i w)"

text \<open>
  The loop of \<open>main\<close>: an exception that leaves a handler leaves \<open>run\<close>; it is caught and \<open>start\<close> is
  called again, which accepts again and goes on with the queue.
\<close>

definition restart :: "'p setting \<Rightarrow> 'p action" where
  "restart env w = (if w_thrown w then start_accept env (w\<lparr>w_thrown := False\<rparr>) else Inr w)"

text \<open>Taking the first handler from the queue and running it; \<open>None\<close> when the queue is empty.\<close>

definition dispatch :: "'p setting \<Rightarrow> 'p world \<Rightarrow> 'p world result option" where
  "dispatch env w = (case w_queue w of
     [] \<Rightarrow> None
   | t # q \<Rightarrow> Some (bind_res (run_task env t (w\<lparr>w_queue := q, w_pinned := task_refs t\<rparr>)) (\<lambda>w1.
       bind_res (restart env (release w1)) (\<lambda>w2. Inr (release w2)))))"

text \<open>\<open>server::start\<close>, after a successful \<open>init\<close>.\<close>

definition boot :: "'p setting \<Rightarrow> cert_manager \<Rightarrow> 'p world result" where
  "boot env cm = start_accept env (initial_world cm)"

section \<open>Runs of the program\<close>

text \<open>Which outcomes an operation can have.\<close>

fun possible :: "operation \<Rightarrow> outcome \<Rightarrow> bool" where
  "possible (Write_op i d) r = (case r of Done x n \<Rightarrow> n \<le> length d | Raised \<Rightarrow> False | _ \<Rightarrow> True)"
| "possible (Accept_op i) r = (r \<noteq> Eof)"
| "possible p r = (r \<noteq> Raised)"

definition finish :: "operation \<Rightarrow> outcome \<Rightarrow> 'p world \<Rightarrow> 'p world" where
  "finish p r w = w\<lparr>w_ops := remove1 p (w_ops w), w_queue := w_queue w @ [Ready p r]\<rparr>"

inductive step :: "'p setting \<Rightarrow> 'p world \<Rightarrow> 'p world \<Rightarrow> bool" for env where
  Finish: "p \<in> set (w_ops w) \<Longrightarrow> possible p r \<Longrightarrow> step env w (finish p r w)"
| Dispatch: "dispatch env w = Some (Inr w') \<Longrightarrow> step env w w'"

definition reachable :: "'p setting \<Rightarrow> cert_manager \<Rightarrow> 'p world \<Rightarrow> bool" where
  "reachable env cm = reach (\<lambda>w. boot env cm = Inr w) (step env)"

text \<open>The process ends with a fault when the next handler does.\<close>

definition crashes :: "'p setting \<Rightarrow> 'p world \<Rightarrow> fault \<Rightarrow> bool" where
  "crashes env w f \<longleftrightarrow> dispatch env w = Some (Inl f)"

inductive_cases stepE: "step env w w'"

end
