(* ===== verification/NetworkInvariants.thy ===== *)
theory NetworkInvariants
  imports EventLoop
begin

text \<open>
  The invariant of the running proxy and its proof, operation by operation: shared pointers never
  dangle, ids are fresh, a stopped connection is not connected, a timer's flag says exactly whether its
  handler is still to come, and a connection that believes it is writing has a write outstanding.
\<close>

section \<open>The invariant\<close>

fun is_write_of :: "nat \<Rightarrow> operation \<Rightarrow> bool" where
  "is_write_of i (Write_op j d) = (i = j)"
| "is_write_of i _ = False"

text \<open>The operations whose handlers are still to run: pending, or completed and queued.\<close>

fun task_op :: "task \<Rightarrow> operation list" where
  "task_op (Ready p r) = [p]"
| "task_op _ = []"

definition outstanding :: "'p world \<Rightarrow> operation list" where
  "outstanding w = w_ops w @ concat (map task_op (w_queue w))"

definition timers :: "'p world \<Rightarrow> nat \<Rightarrow> nat" where
  "timers w i = length (filter (is_timer_of i) (outstanding w))"

definition writes :: "'p world \<Rightarrow> nat \<Rightarrow> nat" where
  "writes w i = length (filter (is_write_of i) (outstanding w))"

definition conn_inv :: "nat \<Rightarrow> nat \<Rightarrow> 'p connection \<Rightarrow> bool" where
  "conn_inv t n c \<longleftrightarrow> (c_stopped c \<longrightarrow> \<not> c_connected c) \<and> t = of_bool (running (c_timer c)) \<and>
     (c_writing c \<longrightarrow> 0 < n)"

text \<open>\<open>good D w\<close>: the invariant, and the connections of \<open>D\<close> exist.\<close>

definition good :: "nat set \<Rightarrow> 'p world \<Rightarrow> bool" where
  "good D w \<longleftrightarrow> D \<subseteq> dom (w_conns w) \<and> set (shared_refs w @ w_pinned w) \<subseteq> dom (w_conns w) \<and>
     (\<forall>i \<in> dom (w_conns w). i \<le> w_counter w) \<and>
     (\<forall>i c. w_conns w i = Some c \<longrightarrow> conn_inv (timers w i) (writes w i) c)"

lemma goodI:
  assumes "good D w" and "dom (w_conns w) \<subseteq> dom (w_conns w')"
    and "set (shared_refs w' @ w_pinned w') \<subseteq> dom (w_conns w')"
    and "\<forall>i \<in> dom (w_conns w'). i \<le> w_counter w'"
    and "\<And>i c. w_conns w' i = Some c \<Longrightarrow> conn_inv (timers w' i) (writes w' i) c"
  shows "good D w'"
proof -
  have "D \<subseteq> dom (w_conns w)" using assms(1) by (simp add: good_def)
  with assms(2) have "D \<subseteq> dom (w_conns w')" by blast
  with assms(3-5) show ?thesis by (simp add: good_def)
qed

lemma good_mono: "good D w \<Longrightarrow> D' \<subseteq> D \<Longrightarrow> good D' w"
  by (auto simp: good_def)

lemma good_insert: "good D w \<Longrightarrow> w_conns w i = Some c \<Longrightarrow> good (insert i D) w"
  by (auto simp: good_def)

lemma good_refs: "good D w \<Longrightarrow> i \<in> set (shared_refs w @ w_pinned w) \<Longrightarrow> good (insert i D) w"
  by (auto simp: good_def)

lemma good_lock: "good D w \<Longrightarrow> lock w r = Some i \<Longrightarrow> good (insert i D) w"
  by (auto simp: lock_def split: option.splits if_splits intro!: good_refs)

lemma good_dom: "good D w \<Longrightarrow> i \<in> D \<Longrightarrow> i \<in> dom (w_conns w)"
  by (auto simp: good_def)

lemma good_conn: "good D w \<Longrightarrow> w_conns w i = Some c \<Longrightarrow> conn_inv (timers w i) (writes w i) c"
  by (auto simp: good_def)

text \<open>The lookup of a connection: partial correctness of what follows.\<close>

lemma whenever_conn [simp]: "whenever (conn w i) P = (\<forall>c. w_conns w i = Some c \<longrightarrow> P c)"
  by (simp add: conn_def split: option.split)

section \<open>Changes of the state\<close>

lemma set_context_simps [simp]:
  "w_conns (set_context k f w) = w_conns w" "w_ops (set_context k f w) = w_ops w"
  "w_queue (set_context k f w) = w_queue w" "w_client_mgr (set_context k f w) = w_client_mgr w"
  "w_server_mgr (set_context k f w) = w_server_mgr w" "w_current (set_context k f w) = w_current w"
  "w_pinned (set_context k f w) = w_pinned w" "w_counter (set_context k f w) = w_counter w"
  "w_thrown (set_context k f w) = w_thrown w" "w_certs (set_context k f w) = w_certs w"
  by (simp_all add: set_context_def)

lemma modify_simps [simp]:
  "w_ops (modify i f w) = w_ops w" "w_queue (modify i f w) = w_queue w"
  "w_client_mgr (modify i f w) = w_client_mgr w" "w_server_mgr (modify i f w) = w_server_mgr w"
  "w_current (modify i f w) = w_current w" "w_pinned (modify i f w) = w_pinned w"
  "w_counter (modify i f w) = w_counter w" "w_contexts (modify i f w) = w_contexts w"
  "w_thrown (modify i f w) = w_thrown w" "w_certs (modify i f w) = w_certs w"
  "dom (w_conns (modify i f w)) = dom (w_conns w)"
  "w_conns (modify i f w) j = (if j = i then map_option f (w_conns w i) else w_conns w j)"
  by (auto simp: modify_def dom_def)

lemma shared_refs_cong:
  "w_client_mgr w' = w_client_mgr w \<Longrightarrow> w_server_mgr w' = w_server_mgr w \<Longrightarrow> w_current w' = w_current w \<Longrightarrow>
   w_ops w' = w_ops w \<Longrightarrow> w_queue w' = w_queue w \<Longrightarrow> shared_refs w' = shared_refs w"
  by (simp add: shared_refs_def)

lemma shared_refs_modify [simp]: "shared_refs (modify i f w) = shared_refs w"
  by (rule shared_refs_cong) simp_all

lemma shared_refs_context [simp]: "shared_refs (set_context k f w) = shared_refs w"
  by (rule shared_refs_cong) simp_all

lemma outstanding_simps [simp]:
  "outstanding (modify i f w) = outstanding w"
  "outstanding (set_context k g w) = outstanding w"
  by (simp_all add: outstanding_def)

lemma counts_simps [simp]:
  "timers (modify i f w) j = timers w j" "writes (modify i f w) j = writes w j"
  "timers (set_context k g w) j = timers w j" "writes (set_context k g w) j = writes w j"
  by (simp_all add: timers_def writes_def)

lemma good_set_context [simp]: "good D (set_context k f w) = good D w"
  by (simp add: good_def)

lemma good_modify:
  assumes "good D w"
    and "\<And>c. w_conns w i = Some c \<Longrightarrow> conn_inv (timers w i) (writes w i) c \<Longrightarrow> conn_inv (timers w i) (writes w i) (f c)"
  shows "good D (modify i f w)"
  by (rule goodI[OF assms(1)]) (use assms in \<open>auto simp: good_def split: if_splits\<close>)

text \<open>Changes of members that the invariant does not mention.\<close>

lemma outstanding_initiate [simp]:
  "filter P (outstanding (initiate p w)) = filter P (w_ops w) @ (if P p then [p] else []) @
     filter P (concat (map task_op (w_queue w)))"
  by (simp add: outstanding_def initiate_def)

lemma initiate_simps [simp]:
  "w_conns (initiate p w) = w_conns w" "w_pinned (initiate p w) = w_pinned w"
  "w_counter (initiate p w) = w_counter w" "w_ops (initiate p w) = w_ops w @ [p]"
  "w_queue (initiate p w) = w_queue w" "w_contexts (initiate p w) = w_contexts w"
  "w_client_mgr (initiate p w) = w_client_mgr w" "w_server_mgr (initiate p w) = w_server_mgr w"
  "w_current (initiate p w) = w_current w" "w_thrown (initiate p w) = w_thrown w"
  by (simp_all add: initiate_def)

lemma set_refs_initiate [simp]:
  "set (shared_refs (initiate p w)) = set (op_refs p) \<union> set (shared_refs w)"
  by (auto simp: shared_refs_def)

lemma timers_initiate [simp]: "timers (initiate p w) i = timers w i + of_bool (is_timer_of i p)"
  by (simp add: timers_def outstanding_def)

lemma writes_initiate [simp]: "writes (initiate p w) i = writes w i + of_bool (is_write_of i p)"
  by (simp add: writes_def outstanding_def)

lemma conn_inv_more: "conn_inv t n c \<Longrightarrow> conn_inv t (n + k) c" "conn_inv t n c \<Longrightarrow> conn_inv t (Suc n) c"
  by (auto simp: conn_inv_def)

lemma good_initiate:
  assumes "good D w" and "set (op_refs p) \<subseteq> D" and "\<And>i. \<not> is_timer_of i p"
  shows "good D (initiate p w)"
  by (rule goodI[OF assms(1)]) (use assms in \<open>auto simp: good_def intro: conn_inv_more\<close>)

lemma post_simps [simp]:
  "w_conns (post t w) = w_conns w" "w_pinned (post t w) = w_pinned w"
  "w_counter (post t w) = w_counter w" "w_ops (post t w) = w_ops w"
  "w_queue (post t w) = w_queue w @ [t]" "w_contexts (post t w) = w_contexts w"
  "w_client_mgr (post t w) = w_client_mgr w" "w_server_mgr (post t w) = w_server_mgr w"
  "w_current (post t w) = w_current w" "w_thrown (post t w) = w_thrown w"
  by (simp_all add: post_def)

lemma set_refs_post [simp]:
  "set (shared_refs (post t w)) = set (task_refs t) \<union> set (shared_refs w)"
  by (auto simp: shared_refs_def)

lemma counts_post:
  "task_op t = [] \<Longrightarrow> timers (post t w) i = timers w i" "task_op t = [] \<Longrightarrow> writes (post t w) i = writes w i"
  by (simp_all add: timers_def writes_def outstanding_def)

lemma good_post:
  assumes "good D w" and "set (task_refs t) \<subseteq> D" and "task_op t = []"
  shows "good D (post t w)"
  by (rule goodI[OF assms(1)]) (use assms in \<open>auto simp: good_def counts_post\<close>)

lemma mgr_erase_simps [simp]:
  "w_conns (mgr_erase k i w) = w_conns w" "w_pinned (mgr_erase k i w) = w_pinned w"
  "w_counter (mgr_erase k i w) = w_counter w" "w_ops (mgr_erase k i w) = w_ops w"
  "w_queue (mgr_erase k i w) = w_queue w" "w_contexts (mgr_erase k i w) = w_contexts w"
  "w_current (mgr_erase k i w) = w_current w"
  by (cases k; simp add: mgr_erase_def)+

lemma good_mgr_erase:
  assumes "good D w" shows "good D (mgr_erase k i w)"
proof (rule goodI[OF assms])
  have "set (shared_refs (mgr_erase k i w)) \<subseteq> set (shared_refs w)"
    by (cases k) (auto simp: mgr_erase_def shared_refs_def dest: set_remove1_subset[THEN subsetD])
  then show "set (shared_refs (mgr_erase k i w) @ w_pinned (mgr_erase k i w)) \<subseteq> dom (w_conns (mgr_erase k i w))"
    using assms by (auto simp: good_def)
qed (use assms in \<open>auto simp: good_def timers_def writes_def outstanding_def\<close>)

lemma good_mgr_add:
  assumes "good D w" and "i \<in> D" shows "good D (mgr_add k i w)"
proof (rule goodI[OF assms(1)])
  have "set (shared_refs (mgr_add k i w)) \<subseteq> insert i (set (shared_refs w))"
    by (cases k) (auto simp: mgr_add_def shared_refs_def)
  then show "set (shared_refs (mgr_add k i w) @ w_pinned (mgr_add k i w)) \<subseteq> dom (w_conns (mgr_add k i w))"
    using assms by (cases k) (auto simp: good_def mgr_add_def)
qed (use assms in \<open>cases k; auto simp: good_def mgr_add_def timers_def writes_def outstanding_def\<close>)+

section \<open>Timers\<close>

lemma cancel_waits_simps [simp]:
  "w_conns (cancel_waits i w) = w_conns w" "w_pinned (cancel_waits i w) = w_pinned w"
  "w_counter (cancel_waits i w) = w_counter w" "w_contexts (cancel_waits i w) = w_contexts w"
  "w_client_mgr (cancel_waits i w) = w_client_mgr w" "w_server_mgr (cancel_waits i w) = w_server_mgr w"
  "w_current (cancel_waits i w) = w_current w" "w_thrown (cancel_waits i w) = w_thrown w"
  "w_ops (cancel_waits i w) = filter (\<lambda>p. \<not> is_timer_of i p) (w_ops w)"
  by (simp_all add: cancel_waits_def)

lemma concat_task_op_ready [simp]: "concat (map (\<lambda>p. task_op (Ready p r)) ps) = ps"
  by (induction ps) simp_all

lemma concat_task_refs_ready [simp]: "concat (map (\<lambda>p. task_refs (Ready p r)) ps) = concat (map op_refs ps)"
  by (induction ps) simp_all

lemma length_filter_split:
  "length (filter P (filter (\<lambda>x. \<not> Q x) xs)) + length (filter P (filter Q xs)) = length (filter P xs)"
  by (induction xs) auto

lemma counts_cancel_waits [simp]:
  "timers (cancel_waits i w) j = timers w j" "writes (cancel_waits i w) j = writes w j"
  using length_filter_split[of "is_timer_of j" "is_timer_of i" "w_ops w"]
    length_filter_split[of "is_write_of j" "is_timer_of i" "w_ops w"]
  by (simp_all add: timers_def writes_def outstanding_def cancel_waits_def o_def)

lemma set_refs_cancel_waits [simp]: "set (shared_refs (cancel_waits i w)) = set (shared_refs w)"
  by (auto simp: shared_refs_def cancel_waits_def o_def)

lemma good_cancel_waits [simp]: "good D (cancel_waits i w) = good D w"
  by (simp add: good_def)

lemma good_timer_cancel: "good D w \<Longrightarrow> whenever (timer_cancel i w) (good D)"
  by (simp add: timer_cancel_def)

lemma is_timer_of_Timer [simp]: "is_timer_of j (Timer_op i t n) = (j = i)"
  by simp

lemma good_timer_start:
  assumes "good D w" and "i \<in> D"
  shows "whenever (timer_start i t notify w) (good D)"
proof -
  let ?w = "modify i (\<lambda>c. c\<lparr>c_timer := (c_timer c)\<lparr>running := True\<rparr>\<rparr>)
    (initiate (Timer_op i t notify) (cancel_waits i w))"
  have "good D ?w" if "w_conns w i = Some c" and "\<not> running (c_timer c)" for c
  proof (rule goodI[OF assms(1)])
    fix j c' assume "w_conns ?w j = Some c'"
    then show "conn_inv (timers ?w j) (writes ?w j) c'"
      using that good_conn[OF assms(1)] by (auto simp: conn_inv_def split: if_splits)
  qed (use assms in \<open>auto simp: good_def\<close>)
  then show ?thesis using assms by (auto simp: timer_start_def)
qed

section \<open>Operations of a connection\<close>

lemma good_read: "good D w \<Longrightarrow> i \<in> D \<Longrightarrow> whenever (read i w) (good D)"
  by (simp add: read_def good_initiate)

lemma good_connected:
  "good D w \<Longrightarrow> w_conns w i = Some c \<Longrightarrow> \<not> c_stopped c \<Longrightarrow> good D (modify i (\<lambda>c. c\<lparr>c_connected := True\<rparr>) w)"
  by (rule good_modify) (auto simp: conn_inv_def)

text \<open>A client's start leaves no trace of a stopped connection: the assertions of \<open>read\<close> end the process.\<close>

lemma good_client_start:
  assumes "good D w" and "i \<in> D"
  shows "whenever (client_start i w) (good D)"
proof -
  have "good D (initiate (Read_op i) (set_context k f (modify i (\<lambda>c. c\<lparr>c_connected := True\<rparr>) w)))"
    if "w_conns w i = Some c" and "\<not> c_stopped c" for k f c
    using assms that by (auto intro!: good_initiate good_connected)
  then show ?thesis by (auto simp: client_start_def Let_def read_def)
qed

lemma good_start:
  assumes "good D w" and "i \<in> D"
  shows "whenever (start i w) (good D)"
  using assms good_client_start[OF assms]
  by (auto simp: start_def server_start_def server_connect_def split: conn_kind.split intro!: good_initiate)

lemma good_stopped:
  assumes "good D w" and "\<And>c. w_conns w i = Some c \<Longrightarrow> \<not> c_connected c"
  shows "good D (modify i (\<lambda>c. c\<lparr>c_stopped := True\<rparr>) w)"
  by (rule good_modify[OF assms(1)]) (use assms(2) in \<open>auto simp: conn_inv_def\<close>)

lemma good_disconnect:
  "good D w \<Longrightarrow> good D (modify i (\<lambda>c. c\<lparr>c_connected := False\<rparr>) w)"
  by (rule good_modify) (auto simp: conn_inv_def)

lemma good_halt:
  assumes "good D w" and "i \<in> D" and "w_conns w i = Some c"
  shows "good D (halt i notify c w)"
  unfolding halt_def Let_def
proof (rule good_stopped)
  let ?w2 = "if c_connected c then modify i (\<lambda>c. c\<lparr>c_connected := False\<rparr>) w else w"
  let ?w3 = "if notify then post (Stop_task i) ?w2 else ?w2"
  let ?w4 = "if c_managed c then mgr_erase (c_kind c) i ?w3 else ?w3"
  have "good D ?w2" using assms(1) by (simp add: good_disconnect)
  then have "good D ?w3" using assms(2) by (simp add: good_post)
  then show "good D ?w4" by (simp add: good_mgr_erase)
  have "w_conns ?w4 = w_conns ?w2" by simp
  moreover fix c' assume "w_conns ?w4 i = Some c'"
  ultimately show "\<not> c_connected c'" using assms(3) by (auto split: if_splits)
qed

lemma good_cancel: "good D w \<Longrightarrow> whenever (timer_cancel i w) (\<lambda>w'. good D w' \<and> w_conns w' = w_conns w)"
  by (simp add: timer_cancel_def)

lemma good_stop:
  assumes "good D w" and "i \<in> D"
  shows "whenever (stop i notify w) (good D)"
  unfolding stop_def using assms
  by (auto intro!: whenever_mono[OF good_cancel] good_halt)

lemma good_on_timer:
  assumes "good D (modify i (\<lambda>c. c\<lparr>c_timer := (c_timer c)\<lparr>running := False\<rparr>\<rparr>) w)" and "i \<in> D"
  shows "whenever (on_timer i notify r w) (good D)"
proof -
  let ?w = "modify i (\<lambda>c. c\<lparr>c_timer := (c_timer c)\<lparr>running := False\<rparr>\<rparr>) w"
  have "good D (modify i (\<lambda>c. c\<lparr>c_timer := (c_timer c)\<lparr>triggered := True\<rparr>\<rparr>) ?w)"
    by (rule good_modify[OF assms(1)]) (auto simp: conn_inv_def)
  then show ?thesis
    using assms by (auto simp: on_timer_def Let_def split: outcome.split intro!: good_stop)
qed

text \<open>Handing a buffer to the socket.\<close>

lemma good_write_op:
  assumes "good D w" and "i \<in> D"
  shows "good D (initiate (Write_op i d) (modify i (\<lambda>c. c\<lparr>c_writing := True\<rparr>) w))" (is "good D ?w")
proof (rule goodI[OF assms(1)])
  fix j c' assume "w_conns ?w j = Some c'"
  then show "conn_inv (timers ?w j) (writes ?w j) c'"
    using good_conn[OF assms(1)] by (auto simp: conn_inv_def split: if_splits)
qed (use assms in \<open>auto simp: good_def\<close>)

lemma good_do_write:
  assumes "good D w" and "i \<in> D" and "\<And>c. w_conns w i = Some c \<Longrightarrow> \<not> c_stopped c"
  shows "whenever (do_write i w) (good D)"
  using assms by (auto simp: do_write_def split: list.split intro: good_start good_write_op)

lemma good_write_out:
  assumes "good D w" and "i \<in> D"
  shows "whenever (write_out i w) (good D)"
  unfolding write_out_def using assms
  by (auto intro!: whenever_mono[OF good_cancel] good_do_write)

lemma good_push_encoded: "good D w \<Longrightarrow> good D (push_encoded i e b w)"
  unfolding push_encoded_def by (rule good_modify) (auto simp: conn_inv_def)

lemma good_write_message:
  assumes "good D w" and "i \<in> D"
  shows "whenever (write_message i m w) (good D)"
proof -
  have "whenever (do_write i (push_encoded i e b w1)) (good D)"
    if "good D w1" and "w_conns w1 = w_conns w" and "w_conns w i = Some c" and "\<not> c_stopped c" for w1 c b e
    by (rule good_do_write[OF good_push_encoded[OF that(1)] assms(2)])
       (use that in \<open>auto simp: push_encoded_def\<close>)
  then have "whenever (new_buffer 0) (\<lambda>buf. whenever (encode m (c_encoder c) buf)
      (\<lambda>(e, b, n). whenever (do_write i (push_encoded i e b w1)) (good D)))"
    if "good D w1" and "w_conns w1 = w_conns w" and "w_conns w i = Some c" and "\<not> c_stopped c" for w1 c
    by (intro whenever_any) (use that in auto)
  then show ?thesis
    unfolding write_message_def using assms
    by (auto intro!: whenever_mono[OF good_cancel] simp: case_prod_unfold)
qed

lemma good_on_write:
  assumes "good D w" and "i \<in> D"
  shows "whenever (on_write i w) (good D)"
  using assms
  by (auto simp: on_write_def client_on_write_def server_on_write_def split: conn_kind.split
      intro!: good_read good_post)

lemma good_buffer_out: "good D w \<Longrightarrow> good D (modify i (\<lambda>c. c\<lparr>c_buffer_out := bs\<rparr>) w)"
  by (rule good_modify) (auto simp: conn_inv_def)

lemma good_on_written:
  assumes "good D (modify i (\<lambda>c. c\<lparr>c_writing := False\<rparr>) w)" and "i \<in> D"
  shows "whenever (on_written i r w) (good D)"
proof -
  have erase: "whenever (buffer_erase 0 len b) (\<lambda>b'. whenever
      (do_write i (modify i (\<lambda>c. c\<lparr>c_buffer_out := b' # bs\<rparr>) (modify i (\<lambda>c. c\<lparr>c_writing := False\<rparr>) w))) (good D))"
    if "w_conns w i = Some c" and "\<not> c_stopped c" for len b bs c
    by (rule whenever_any, rule good_do_write[OF good_buffer_out[OF assms(1)] assms(2)]) (use that in auto)
  show ?thesis
    unfolding on_written_def Let_def using assms
    by (auto split: outcome.split list.split
        intro!: good_stop good_on_write good_do_write good_buffer_out erase)
qed

section \<open>Resets and handshakes\<close>

lemma good_connection_reset: "good D w \<Longrightarrow> good D (connection_reset i w)"
  unfolding connection_reset_def by (rule good_modify) (auto simp: conn_inv_def)

lemma good_reset_codec: "good D w \<Longrightarrow> good D (reset_codec api i w)"
  unfolding reset_codec_def by (rule good_modify) (auto simp: conn_inv_def)

lemma good_server_reset: "good D w \<Longrightarrow> i \<in> D \<Longrightarrow> whenever (server_reset api i w) (good D)"
  by (auto simp: server_reset_def intro!: good_timer_start good_reset_codec good_connection_reset)

lemma good_client_reset: "good D w \<Longrightarrow> i \<in> D \<Longrightarrow> whenever (client_reset api i w) (good D)"
  by (auto simp: client_reset_def intro!: whenever_mono[OF good_timer_start] good_reset_codec
      good_connection_reset good_read)

lemma good_async_handshake: "good D w \<Longrightarrow> i \<in> D \<Longrightarrow> whenever (async_handshake i w) (good D)"
  by (auto simp: async_handshake_def intro!: good_initiate)

lemma good_switch_to_ssl: "good D w \<Longrightarrow> whenever (switch_to_ssl t ca d i w) (good D)"
  by (auto simp: switch_to_ssl_def conn_inv_def intro!: good_modify)

lemma good_handshakes:
  assumes "good D w" and "i \<in> D"
  shows "whenever (client_handshake ca d i w) (good D)" and "whenever (server_handshake i w) (good D)"
  unfolding client_handshake_def server_handshake_def whenever_bind
  by (rule whenever_mono[OF good_switch_to_ssl[OF assms(1)]], rule good_async_handshake[OF _ assms(2)],
      assumption)+

section \<open>Completion handlers\<close>

lemma good_codec: "good D w \<Longrightarrow> good D (modify i (\<lambda>c. c\<lparr>c_decoder := d, c_message := m\<rparr>) w)"
  by (rule good_modify) (auto simp: conn_inv_def)

lemma good_decoded:
  assumes "good D w" and "i \<in> D"
  shows "whenever (client_decoded i len d m n w) (good D)"
    and "whenever (server_decoded i len d m n w) (good D)"
  using assms
  by (auto simp: client_decoded_def server_decoded_def Let_def
      intro!: good_stop good_read good_timer_start good_post good_codec)

lemma good_decode:
  assumes "\<And>d m n. whenever (f d m n w) (good D)"
  shows "whenever (decode api data dec msg) (\<lambda>x. whenever (case x of (d, m, n) \<Rightarrow> f d m n w) (good D))"
  by (rule whenever_any) (use assms in auto)

lemma good_on_read:
  assumes "good D w" and "i \<in> D"
  shows "whenever (client_on_read api i r w) (good D)"
    and "whenever (server_on_read api i r w) (good D)"
  unfolding client_on_read_def server_on_read_def using assms
  by (auto split: outcome.split
      intro!: good_stop good_disconnect good_decode good_decoded whenever_mono[OF good_cancel])

lemma good_other_handlers:
  assumes "good D w" and "i \<in> D"
  shows "whenever (client_on_handshake api i r w) (good D)"
    and "whenever (server_on_handshake i r w) (good D)"
    and "whenever (server_on_resolve i r w) (good D)"
    and "whenever (server_on_connect i r w) (good D)"
  using assms
  by (auto simp: client_on_handshake_def server_on_handshake_def server_on_resolve_def server_on_connect_def
      split: outcome.split intro!: good_stop good_post good_reset_codec good_initiate good_connected)

section \<open>Contexts\<close>

lemma is_timer_of_refs: "is_timer_of i p \<Longrightarrow> i \<in> set (op_refs p)"
  by (cases p) simp_all

lemma task_op_refs: "p \<in> set (task_op t) \<Longrightarrow> set (op_refs p) \<subseteq> set (task_refs t)"
  by (cases t) simp_all

lemma outstanding_refs: "p \<in> set (outstanding w) \<Longrightarrow> set (op_refs p) \<subseteq> set (shared_refs w)"
proof -
  assume "p \<in> set (outstanding w)"
  then consider "p \<in> set (w_ops w)" | t where "t \<in> set (w_queue w)" "p \<in> set (task_op t)"
    by (auto simp: outstanding_def)
  then show ?thesis
  proof cases
    case 2
    from 2(2) have "set (op_refs p) \<subseteq> set (task_refs t)" by (rule task_op_refs)
    moreover have "set (task_refs t) \<subseteq> set (shared_refs w)"
      using 2(1) unfolding shared_refs_def set_append set_concat set_map by blast
    ultimately show ?thesis by blast
  qed (auto simp: shared_refs_def)
qed

lemma no_timers: "i \<notin> set (shared_refs w) \<Longrightarrow> timers w i = 0"
  using outstanding_refs is_timer_of_refs by (fastforce simp: timers_def filter_empty_conv)

lemma good_new_connection:
  assumes g: "good D w" and c: "\<not> c_stopped c" "\<not> running (c_timer c)" "\<not> c_writing c"
  shows "good (insert (Suc (w_counter w)) D)
           (w\<lparr>w_conns := (w_conns w)(Suc (w_counter w) \<mapsto> c), w_counter := Suc (w_counter w)\<rparr>)" (is "good _ ?w")
proof -
  have "\<forall>i \<in> dom (w_conns w). i \<le> w_counter w" using g by (simp add: good_def)
  then have "Suc (w_counter w) \<notin> dom (w_conns w)"
    and le: "\<forall>i y. w_conns w i = Some y \<longrightarrow> i \<le> Suc (w_counter w)"
    by (metis Suc_n_not_le_n, metis domI le_SucI)
  with g have "timers w (Suc (w_counter w)) = 0" by (intro no_timers) (auto simp: good_def)
  moreover have "outstanding ?w = outstanding w" by (simp add: outstanding_def)
  moreover have "shared_refs ?w = shared_refs w" by (simp add: shared_refs_def)
  ultimately show ?thesis
    using g c le by (auto simp: good_def timers_def writes_def conn_inv_def)
qed

lemma good_make_connection:
  assumes "good D w"
  shows "whenever (make_connection api k ctx w) (\<lambda>(i, w'). good (insert i D) w')"
proof -
  have "whenever (new_connection api k ctx) (\<lambda>c. \<not> c_stopped c \<and> \<not> running (c_timer c) \<and> \<not> c_writing c)"
    unfolding new_connection_def whenever_bind by (rule whenever_any) (simp add: new_timer_def)
  then show ?thesis
    unfolding make_connection_def whenever_bind
    by (rule whenever_mono) (use good_new_connection[OF assms] in \<open>simp add: Let_def\<close>)
qed

lemma good_address: "good D w \<Longrightarrow> good D (modify i (\<lambda>c. c\<lparr>c_host := h, c_port := p\<rparr>) w)"
  by (rule good_modify) (auto simp: conn_inv_def)

lemma good_thrown [simp]: "good D (w\<lparr>w_thrown := b\<rparr>) = good D w"
  by (simp add: good_def timers_def writes_def outstanding_def shared_refs_def)

lemma good_certs [simp]: "good D (w\<lparr>w_certs := b\<rparr>) = good D w"
  by (simp add: good_def timers_def writes_def outstanding_def shared_refs_def)

lemma good_open_server:
  assumes "good D w"
  shows "whenever (open_server env k m b dest w) (good D)"
proof -
  let ?g = "\<lambda>s w2. set_context k (\<lambda>x. x\<lparr>server_conn := Some s\<rparr>)
    (mgr_add Server s (modify s (\<lambda>c. c\<lparr>c_host := fst dest, c_port := snd dest\<rparr>) w2))"
  have out: "whenever (write_message j m' (?g s w2)) (good D)"
    if g: "good (insert s D) w2" and j: "j = s \<or> lock (?g s w2) r = Some j" for s w2 j m' r
  proof -
    have g: "good (insert s D) (?g s w2)" using g by (simp add: good_mgr_add good_address)
    have "good (insert j (insert s D)) (?g s w2)"
      using j g good_lock[OF g] by (auto simp: insert_absorb)
    then have "whenever (write_message j m' (?g s w2)) (good (insert j (insert s D)))"
      by (rule good_write_message) simp
    then show ?thesis by (rule whenever_mono) (auto intro: good_mono)
  qed
  have resp: "whenever (make_response SSL_REPLY) (\<lambda>resp. whenever (write_message j resp (?g s w2)) (good D))"
    if "good (insert s D) w2" and "lock (?g s w2) r = Some j" for s w2 j r
    by (rule whenever_any, rule out) (use that in auto)
  have g: "good D (set_context k f w)" for f using assms by simp
  show ?thesis
    unfolding open_server_def set_server_connection_def set_port_def set_host_def Let_def whenever_bind
    by (rule whenever_mono[OF good_make_connection[OF g]])
       (auto split: option.split intro!: out resp simp del: set_context_simps modify_simps)
qed

lemma good_on_client_message:
  assumes "good D w"
  shows "whenever (on_client_message env k m w) (good D)"
proof -
  have out: "whenever (write_message s m w) (good D)" if "lock w r = Some s" for s r
    by (rule whenever_mono[OF good_write_message[OF good_lock[OF assms that]]]) (auto intro: good_mono)
  have "whenever (parse_destination (lexical_cast env) m h) (\<lambda>x. whenever (case x of (https1, dest) \<Rightarrow>
         case dest of
           None \<Rightarrow> Inr ((set_context k (\<lambda>x. x\<lparr>https := https1\<rparr>) w)\<lparr>w_thrown := True\<rparr>)
         | Some d \<Rightarrow>
             bind_res (assert_that (h \<longrightarrow> https1)) (\<lambda>_.
             open_server env k m https1 d w)) (good D))" for h
    by (rule whenever_any) (use assms in \<open>auto split: option.split intro!: good_open_server\<close>)
  then show ?thesis
    unfolding on_client_message_def Let_def whenever_bind whenever_assert
    by (auto split: option.split intro!: out)
qed

lemma good_on_server_message:
  assumes "good D w"
  shows "whenever (on_server_message env k m w) (good D)"
proof -
  have "whenever (bind_res (write_message c m w) (\<lambda>w1.
          if \<not> completed m then read s w1
          else bind_res (conn_keep_alive (parser env) s (set_context k f w1)) (\<lambda>keep.
            if keep then server_reset (parser env) s (set_context k f w1)
            else stop s False (set_context k f w1)))) (good D)"
    if c: "lock w r = Some c" and s: "lock w r' = Some s" for c s r r' f
  proof -
    let ?D = "insert s (insert c D)"
    have g: "good ?D w" using good_lock[OF assms c] good_lock[OF _ s] by blast
    have "whenever (if \<not> completed m then read s w1
          else bind_res (conn_keep_alive (parser env) s (set_context k f w1)) (\<lambda>keep.
            if keep then server_reset (parser env) s (set_context k f w1)
            else stop s False (set_context k f w1))) (good ?D)" if "good ?D w1" for w1
      using that by (auto simp: conn_keep_alive_def intro!: good_read good_server_reset good_stop)
    then have "whenever (bind_res (write_message c m w) (\<lambda>w1.
          if \<not> completed m then read s w1
          else bind_res (conn_keep_alive (parser env) s (set_context k f w1)) (\<lambda>keep.
            if keep then server_reset (parser env) s (set_context k f w1)
            else stop s False (set_context k f w1)))) (good ?D)"
      unfolding whenever_bind[of "write_message c m w"]
      by (intro whenever_mono[OF good_write_message[OF g]]) simp_all
    then show ?thesis by (rule whenever_mono) (auto intro: good_mono)
  qed
  then show ?thesis
    unfolding on_server_message_def Let_def by (auto split: option.split simp del: whenever_bind)
qed

lemma good_lock_stop:
  assumes "good D w"
  shows "whenever (case lock w r of Some j \<Rightarrow> stop j False w | None \<Rightarrow> Inr w) (good D)"
proof (cases "lock w r")
  case (Some j)
  then show ?thesis
    using whenever_mono[OF good_stop[OF good_lock[OF assms Some]], of j "good D"]
    by (auto intro: good_mono)
qed (simp add: assms)

lemma good_on_stop: "good D w \<Longrightarrow> whenever (on_stop k i w) (good D)"
  by (simp add: on_stop_def Let_def good_lock_stop)

lemma good_certificate_event:
  assumes "good D w" and "i \<in> D"
  shows "whenever (get_certificate lib h mgr) (\<lambda>x. whenever (case x of (cert, mgr) \<Rightarrow>
           client_handshake cert (fst (run_state get_dh_parameters mgr)) i (w\<lparr>w_certs := mgr\<rparr>)) (good D))"
  by (rule whenever_any) (use assms in \<open>auto intro!: good_handshakes\<close>)

lemma good_on_client_event:
  assumes "good D w" and "i \<in> D"
  shows "whenever (on_client_event env ev i w) (good D)"
  unfolding on_client_event_def Let_def using assms
  by (auto split: connection_event.split option.split simp: conn_keep_alive_def context_reset_def
      intro!: good_on_client_message good_read good_stop good_certificate_event
        whenever_mono[OF good_client_reset])

lemma good_on_server_event:
  assumes "good D w" and "i \<in> D"
  shows "whenever (on_server_event env ev i w) (good D)"
  unfolding on_server_event_def Let_def using assms
  by (auto split: connection_event.split intro!: good_on_server_message good_handshakes good_write_out)

section \<open>The event loop\<close>

lemma good_next_context [simp]: "good D (w\<lparr>w_next_context := n\<rparr>) = good D w"
  by (simp add: good_def timers_def writes_def outstanding_def shared_refs_def)

lemma good_current:
  assumes "good D w" and "i \<in> D" shows "good D (w\<lparr>w_current := Some i\<rparr>)"
proof -
  have "set (shared_refs (w\<lparr>w_current := Some i\<rparr>)) \<subseteq> insert i (set (shared_refs w))"
    by (auto simp: shared_refs_def)
  moreover have "i \<in> dom (w_conns w)" using assms by (rule good_dom)
  moreover have "outstanding (w\<lparr>w_current := Some i\<rparr>) = outstanding w" by (simp add: outstanding_def)
  ultimately show ?thesis using assms(1) by (auto simp: good_def timers_def writes_def)
qed

lemma good_start_accept:
  assumes "good D w"
  shows "whenever (start_accept env w) (good D)"
proof -
  have "good D (set_context k f (w\<lparr>w_next_context := n\<rparr>))" for k f n using assms by simp
  note made = good_make_connection[OF this]
  have "good D (initiate (Accept_op i) (w2\<lparr>w_current := Some i\<rparr>))" if "good (insert i D) w2" for i w2
    by (rule good_mono[of "insert i D"]) (use that in \<open>auto intro!: good_initiate good_current\<close>)
  then show ?thesis
    unfolding start_accept_def Let_def whenever_bind
    by (intro whenever_mono[OF made]) auto
qed

lemma good_on_accept:
  assumes "good D w"
  shows "whenever (on_accept env i r w) (good D)"
proof -
  have "whenever (start j (mgr_add Client j (modify j (\<lambda>c. c\<lparr>c_host := h, c_port := p\<rparr>) w)))
      (\<lambda>w'. whenever (start_accept env w') (good D))" if "w_current w = Some j" for j h p
  proof -
    have "j \<in> set (shared_refs w @ w_pinned w)" using that by (simp add: shared_refs_def)
    with assms have g: "good (insert j D) w" by (rule good_refs)
    have "whenever (start j (mgr_add Client j (modify j (\<lambda>c. c\<lparr>c_host := h, c_port := p\<rparr>) w))) (good (insert j D))"
      by (rule good_start) (use g in \<open>auto intro!: good_mgr_add good_address\<close>)
    then show ?thesis by (rule whenever_mono) (auto intro!: good_start_accept intro: good_mono)
  qed
  then show ?thesis
    unfolding on_accept_def Let_def using assms
    by (auto split: option.split outcome.split)
qed

lemma good_stop_one: "good D w \<Longrightarrow> i \<in> D \<Longrightarrow> whenever (stop_one i w) (good D)"
  unfolding stop_one_def detach_def
  by (rule good_stop) (auto intro!: good_modify simp: conn_inv_def)

lemma good_union_refs: "good D w \<Longrightarrow> set is \<subseteq> set (shared_refs w) \<Longrightarrow> good (set is \<union> D) w"
  by (auto simp: good_def)

lemma good_clear_mgr:
  assumes "good D w" shows "good D (w\<lparr>w_client_mgr := []\<rparr>)" and "good D (w\<lparr>w_server_mgr := []\<rparr>)"
proof -
  have "set (shared_refs (w\<lparr>w_client_mgr := []\<rparr>)) \<subseteq> set (shared_refs w)"
    and "set (shared_refs (w\<lparr>w_server_mgr := []\<rparr>)) \<subseteq> set (shared_refs w)"
    by (auto simp: shared_refs_def)
  moreover have "outstanding (w\<lparr>w_client_mgr := []\<rparr>) = outstanding w"
    and "outstanding (w\<lparr>w_server_mgr := []\<rparr>) = outstanding w" by (simp_all add: outstanding_def)
  ultimately show "good D (w\<lparr>w_client_mgr := []\<rparr>)" and "good D (w\<lparr>w_server_mgr := []\<rparr>)"
    using assms by (auto simp: good_def timers_def writes_def)
qed

lemma good_stop_all:
  assumes "good D w"
  shows "whenever (stop_all k w) (good D)"
proof -
  let ?is = "case k of Client \<Rightarrow> w_client_mgr w | Server \<Rightarrow> w_server_mgr w"
  have "set ?is \<subseteq> set (shared_refs w)" by (cases k) (auto simp: shared_refs_def)
  then have "good (set ?is \<union> D) w" by (rule good_union_refs[OF assms])
  then have "whenever (fold_res stop_one ?is w) (good (set ?is \<union> D))"
    by (intro whenever_fold_res good_stop_one) auto
  then show ?thesis
    unfolding stop_all_def whenever_bind
    by (rule whenever_mono) (cases k; auto intro: good_clear_mgr good_mono)
qed

lemma good_close_acceptor:
  assumes "good D w" shows "good D (close_acceptor w)"
proof -
  have "length (filter (is_timer_of i) (filter is_accept ps)) = 0"
    and "length (filter (is_write_of i) (filter is_accept ps)) = 0" for i ps
    by (auto simp: filter_empty_conv elim: is_accept.elims)
  then have "timers (close_acceptor w) i = timers w i" "writes (close_acceptor w) i = writes w i" for i
    using length_filter_split[of "is_timer_of i" is_accept "w_ops w"]
      length_filter_split[of "is_write_of i" is_accept "w_ops w"]
    by (simp_all add: timers_def writes_def outstanding_def close_acceptor_def o_def)
  moreover have "set (shared_refs (close_acceptor w)) = set (shared_refs w)"
    by (auto simp: shared_refs_def close_acceptor_def o_def)
  ultimately show ?thesis using assms by (simp add: good_def close_acceptor_def)
qed

lemma good_on_signal: "good D w \<Longrightarrow> whenever (on_signal w) (good D)"
  unfolding on_signal_def whenever_bind
  by (auto intro!: whenever_mono[OF good_stop_all] good_close_acceptor)

text \<open>Taking the next handler from the queue.\<close>

lemma pop_conns:
  assumes "good {} w" and "w_queue w = t # q" and "w_pinned w = []"
  shows "set (shared_refs (w\<lparr>w_queue := q, w_pinned := task_refs t\<rparr>) @ task_refs t) \<subseteq> dom (w_conns w)"
proof -
  have "set (shared_refs (w\<lparr>w_queue := q, w_pinned := task_refs t\<rparr>) @ task_refs t) \<subseteq> set (shared_refs w)"
    by (auto simp: shared_refs_def assms(2))
  then show ?thesis using assms(1) by (auto simp: good_def)
qed

lemma pop_counts:
  assumes "w_queue w = t # q"
  shows "timers w i = timers (w\<lparr>w_queue := q, w_pinned := ps\<rparr>) i + length (filter (is_timer_of i) (task_op t))"
    and "writes w i = writes (w\<lparr>w_queue := q, w_pinned := ps\<rparr>) i + length (filter (is_write_of i) (task_op t))"
  by (simp_all add: timers_def writes_def outstanding_def assms)

lemma good_popped:
  assumes "good {} w" and "w_queue w = t # q" and "w_pinned w = []"
    and "\<And>i c. w_conns w i = Some c \<Longrightarrow> conn_inv (timers w i) (writes w i) c \<Longrightarrow>
           conn_inv (timers w i - length (filter (is_timer_of i) (task_op t)))
             (writes w i - length (filter (is_write_of i) (task_op t))) (if i = j then f c else c)"
  shows "good (set (task_refs t)) (modify j f (w\<lparr>w_queue := q, w_pinned := task_refs t\<rparr>))" (is "good _ ?w")
proof -
  let ?v = "w\<lparr>w_queue := q, w_pinned := task_refs t\<rparr>"
  have "conn_inv (timers ?v i) (writes ?v i) c'" if "w_conns ?w i = Some c'" for i c'
  proof -
    from that obtain c where c: "w_conns w i = Some c" and c': "c' = (if i = j then f c else c)"
      by (auto split: if_splits)
    have "timers ?v i = timers w i - length (filter (is_timer_of i) (task_op t))"
      "writes ?v i = writes w i - length (filter (is_write_of i) (task_op t))"
      using pop_counts[OF assms(2), of i "task_refs t"] by simp_all
    with assms(4)[OF c good_conn[OF assms(1) c]] show ?thesis by (simp add: c')
  qed
  moreover have "shared_refs ?w = shared_refs ?v" by simp
  ultimately show ?thesis
    using pop_conns[OF assms(1-3)] assms(1) by (auto simp: good_def simp del: modify_simps(12))
qed

lemma modify_id: "modify j (\<lambda>c. c) w = w"
  by (simp add: modify_def option.map_id0[unfolded id_def])

lemma good_pop_other:
  assumes "good {} w" and "w_queue w = t # q" and "w_pinned w = []"
    and "\<And>i p. p \<in> set (task_op t) \<Longrightarrow> \<not> is_timer_of i p \<and> \<not> is_write_of i p"
  shows "good (set (task_refs t)) (w\<lparr>w_queue := q, w_pinned := task_refs t\<rparr>)"
  using good_popped[OF assms(1-3), of 0 "\<lambda>c. c"] assms(4) by (simp add: modify_id filter_empty_conv)

lemma good_pop_timer:
  assumes "good {} w" and "w_queue w = Ready (Timer_op i s n) r # q" and "w_pinned w = []"
  shows "good {i} (modify i (\<lambda>c. c\<lparr>c_timer := (c_timer c)\<lparr>running := False\<rparr>\<rparr>)
           (w\<lparr>w_queue := q, w_pinned := [i]\<rparr>))"
proof -
  have "good (set (task_refs (Ready (Timer_op i s n) r))) (modify i
      (\<lambda>c. c\<lparr>c_timer := (c_timer c)\<lparr>running := False\<rparr>\<rparr>)
      (w\<lparr>w_queue := q, w_pinned := task_refs (Ready (Timer_op i s n) r)\<rparr>))"
    by (rule good_popped[OF assms]) (auto simp: conn_inv_def)
  then show ?thesis by simp
qed

lemma good_pop_write:
  assumes "good {} w" and "w_queue w = Ready (Write_op i d) r # q" and "w_pinned w = []"
  shows "good {i} (modify i (\<lambda>c. c\<lparr>c_writing := False\<rparr>) (w\<lparr>w_queue := q, w_pinned := [i]\<rparr>))"
  using good_popped[OF assms, of i "\<lambda>c. c\<lparr>c_writing := False\<rparr>"]
  by (auto simp: conn_inv_def)

lemma good_kind:
  assumes "good D w" and "\<And>c. good (insert i D) w \<Longrightarrow> whenever (f c) (good (insert i D))"
  shows "whenever (bind_res (conn w i) f) (good D)"
proof -
  have "whenever (f c) (good D)" if "w_conns w i = Some c" for c
    using assms(2)[OF good_insert[OF assms(1) that], of c] by (rule whenever_mono) (auto intro: good_mono)
  then show ?thesis by simp
qed

lemma good_run_task:
  assumes g: "good {} w" and q: "w_queue w = t # q" and p: "w_pinned w = []"
  shows "whenever (run_task env t (w\<lparr>w_queue := q, w_pinned := task_refs t\<rparr>)) (good {})"
proof (cases t)
  case (Ready op r)
  show ?thesis
  proof (cases op)
    case (Timer_op i s n)
    then have "whenever (run_task env t (w\<lparr>w_queue := q, w_pinned := task_refs t\<rparr>)) (good {i})"
      using good_on_timer[OF good_pop_timer[OF g _ p]] q Ready by simp
    then show ?thesis by (rule whenever_mono) (auto intro: good_mono)
  next
    case (Write_op i d)
    then have "whenever (run_task env t (w\<lparr>w_queue := q, w_pinned := task_refs t\<rparr>)) (good {i})"
      using good_on_written[OF good_pop_write[OF g _ p]] q Ready by simp
    then show ?thesis by (rule whenever_mono) (auto intro: good_mono)
  next
    case (Resolve_op i)
    then have "good {i} (w\<lparr>w_queue := q, w_pinned := task_refs t\<rparr>)"
      using good_pop_other[OF g q p] Ready by simp
    then have "whenever (run_task env t (w\<lparr>w_queue := q, w_pinned := task_refs t\<rparr>)) (good {i})"
      by (simp add: Resolve_op Ready good_other_handlers(3))
    then show ?thesis by (rule whenever_mono) (auto intro: good_mono)
  qed (use good_pop_other[OF g q p] Ready in
        \<open>auto split: conn_kind.split simp: client_on_connect_def simp del: whenever_bind
          intro!: good_kind good_on_read good_other_handlers good_on_accept good_on_signal
          intro: good_mono\<close>)
next
  case (Event_task ev i)
  then show ?thesis
    using good_pop_other[OF g q p]
    by (auto split: conn_kind.split simp del: whenever_bind
        intro!: good_kind good_on_client_event good_on_server_event)
next
  case (Stop_task i)
  then show ?thesis
    using good_pop_other[OF g q p]
    by (auto simp del: whenever_bind intro!: good_kind good_on_stop intro: good_mono)
qed

section \<open>Reachable states\<close>

lemma shared_refs_release [simp]: "shared_refs (release w) = shared_refs w"
  by (simp add: shared_refs_def release_def)

lemma good_release:
  assumes "good D w" shows "good {} (release w)"
proof -
  have "timers (release w) i = timers w i" "writes (release w) i = writes w i" for i
    by (simp_all add: timers_def writes_def outstanding_def release_def)
  moreover have "w_conns (release w) = w_conns w |` set (shared_refs w)" "w_pinned (release w) = []"
    "w_counter (release w) = w_counter w" by (simp_all add: release_def)
  ultimately show ?thesis using assms by (auto simp: good_def restrict_map_def split: if_splits)
qed

definition world_ok :: "'p world \<Rightarrow> bool" where
  "world_ok w \<longleftrightarrow> good {} w \<and> w_pinned w = []"

lemma restart_ok: "good D w \<Longrightarrow> whenever (restart env w) (good D)"
  by (simp add: restart_def good_start_accept)

lemma dispatch_ok:
  assumes "world_ok w" and "dispatch env w = Some (Inr w')"
  shows "world_ok w'"
proof -
  from assms(2) obtain t q where q: "w_queue w = t # q"
    and d: "bind_res (run_task env t (w\<lparr>w_queue := q, w_pinned := task_refs t\<rparr>)) (\<lambda>w1.
              bind_res (restart env (release w1)) (\<lambda>w2. Inr (release w2))) = Inr w'"
    by (auto simp: dispatch_def split: list.splits)
  have "whenever (bind_res (run_task env t (w\<lparr>w_queue := q, w_pinned := task_refs t\<rparr>)) (\<lambda>w1.
              bind_res (restart env (release w1)) (\<lambda>w2. Inr (release w2)))) (good {})"
    unfolding whenever_bind
    by (rule whenever_mono[OF good_run_task[of w t q env]])
       (use assms(1) q in \<open>auto simp: world_ok_def intro!: whenever_mono[OF restart_ok] good_release\<close>)
  then have "good {} w'" by (simp add: d)
  moreover have "w_pinned w' = []"
    using d by (auto simp: release_def elim!: bind_res_InrE)
  ultimately show ?thesis by (simp add: world_ok_def)
qed

lemma finish_ok:
  assumes "world_ok w" and "p \<in> set (w_ops w)"
  shows "world_ok (finish p r w)"
proof -
  have "length (filter P (remove1 p ps)) + (if P p then 1 else 0) = length (filter P ps)"
    if "p \<in> set ps" for P and ps :: "operation list"
    using that by (induction ps) auto
  note count = this[OF assms(2)]
  have "timers (finish p r w) i = timers w i" for i
    using count[of "is_timer_of i"] by (auto simp: timers_def outstanding_def finish_def split: if_splits)
  moreover have "writes (finish p r w) i = writes w i" for i
    using count[of "is_write_of i"] by (auto simp: writes_def outstanding_def finish_def split: if_splits)
  moreover have "set (shared_refs (finish p r w)) \<subseteq> set (shared_refs w)"
    using assms(2) set_remove1_subset[of p "w_ops w"] by (auto simp: shared_refs_def finish_def)
  ultimately show ?thesis
    using assms(1) by (auto simp: world_ok_def good_def finish_def)
qed

lemma initial_world_good: "good {} (initial_world cm)"
  by (simp add: good_def initial_world_def shared_refs_def)

lemma boot_ok: "boot env cm = Inr w \<Longrightarrow> world_ok w"
proof -
  assume b: "boot env cm = Inr w"
  have "good {} w"
    using good_start_accept[OF initial_world_good, of env cm] b by (simp add: boot_def)
  moreover have "w_pinned w = []"
    using b by (auto simp: boot_def start_accept_def make_connection_def Let_def initial_world_def
        set_context_def elim!: bind_res_InrE)
  ultimately show ?thesis by (simp add: world_ok_def)
qed

interpretation proxy: invariant "\<lambda>w. boot env cm = Inr w" "step env" world_ok for env cm
proof
  fix w assume "boot env cm = Inr w"
  then show "world_ok w" by (rule boot_ok)
next
  fix w w' assume "world_ok w" and "step env w w'"
  from this(2,1) show "world_ok w'"
    by (cases rule: step.cases) (auto intro: finish_ok dispatch_ok)
qed

lemma reachable_ok: "reachable env cm w \<Longrightarrow> world_ok w"
  unfolding reachable_def by (rule proxy.always)

section \<open>Properties\<close>

lemma new_connection_some: "\<exists>c. new_connection api k ctx = Inr c \<and> \<not> c_stopped c \<and> c_kind c = k"
  by (cases k) (simp_all add: new_connection_def new_request_def new_response_def new_message_def
      new_buffer_def new_char_def DEFAULT_SIZE_def MAX_ALLOC_def)

lemma boot_some: "\<exists>w. boot env cm = Inr w \<and> w_current w = Some 1 \<and> w_ops w = [Signal_op, Accept_op 1] \<and> w_queue w = [] \<and>
    (\<exists>c. w_conns w 1 = Some c \<and> \<not> c_stopped c \<and> c_kind c = Client)"
  using new_connection_some[of "parser env" Client 0]
  by (auto simp: boot_def start_accept_def make_connection_def Let_def initial_world_def set_context_def
      initiate_def)

definition first_world :: "'p setting \<Rightarrow> cert_manager \<Rightarrow> 'p world" where
  "first_world env cm = projr (boot env cm)"

lemma first_world_reachable: "reachable env cm (first_world env cm)"
  using boot_some[of env cm] by (auto simp: reachable_def first_world_def intro: reach.Start)

lemma first_world_refs: "1 \<in> set (shared_refs (first_world env cm))"
  using boot_some[of env cm] by (auto simp: first_world_def shared_refs_def)

lemma first_world_conn: "\<exists>c. w_conns (first_world env cm) 1 = Some c"
  using boot_some[of env cm] by (auto simp: first_world_def)

definition sample_setting :: "(parser_view \<times> callback) list list setting" where
  "sample_setting = \<lparr>parser = scripted [], library = no_files, lexical_cast = (\<lambda>s. if s = ''8080'' then Some 8080 else None)\<rparr>"

text \<open>
  Memory safety of the shared pointers. In every reachable state, every connection that a manager,
  the acceptor, a pending operation, or a queued completion or stop request refers to exists, and ids
  are not reused: none is above the counter.
\<close>

theorem shared_pointers_are_valid:
  assumes "reachable env cm w" and "i \<in> set (shared_refs w)"
  shows "\<exists>c. w_conns w i = Some c \<and> i \<le> w_counter w"
  using reachable_ok[OF assms(1)] assms(2) by (fastforce simp: world_ok_def good_def)

theorem shared_pointers_are_valid_witness:
  "\<exists>c. w_conns (first_world sample_setting new_manager) 1 = Some c \<and> 1 \<le> w_counter (first_world sample_setting new_manager)"
  using shared_pointers_are_valid[OF first_world_reachable] first_world_refs by blast

text \<open>
  C18: Timers. In every reachable state a connection has at most one timer handler outstanding (pending,
  or expired or cancelled and queued), and the flag \<open>running_\<close> says exactly whether there is one.
\<close>

theorem timer_flag_is_exact:
  assumes "reachable env cm w" and "w_conns w i = Some c"
  shows "timers w i = of_bool (running (c_timer c))"
  using reachable_ok[OF assms(1)] good_conn[OF _ assms(2)] by (auto simp: world_ok_def conn_inv_def)

theorem timer_flag_is_exact_witness:
  "\<exists>c. w_conns (first_world sample_setting new_manager) 1 = Some c \<and>
       timers (first_world sample_setting new_manager) 1 = of_bool (running (c_timer c))"
proof -
  obtain c where "w_conns (first_world sample_setting new_manager) 1 = Some c"
    using first_world_conn by blast
  with timer_flag_is_exact[OF first_world_reachable this] show ?thesis by blast
qed

text \<open>
  Connection states. In every reachable state a stopped connection is not connected, and a
  connection whose flag \<open>writing_\<close> is set has a write outstanding, so its queue is never stuck.
\<close>

theorem connection_states_consistent:
  assumes "reachable env cm w" and "w_conns w i = Some c"
  shows "\<not> (c_stopped c \<and> c_connected c) \<and> \<not> (c_writing c \<and> writes w i = 0)"
  using reachable_ok[OF assms(1)] good_conn[OF _ assms(2)] by (auto simp: world_ok_def conn_inv_def)

theorem connection_states_consistent_witness:
  "\<exists>c. w_conns (first_world sample_setting new_manager) 1 = Some c \<and> \<not> (c_stopped c \<and> c_connected c)"
proof -
  obtain c where "w_conns (first_world sample_setting new_manager) 1 = Some c"
    using first_world_conn by blast
  with connection_states_consistent[OF first_world_reachable this] show ?thesis by blast
qed

end
