(* ===== verification/NetworkProperties.thy ===== *)
theory NetworkProperties
  imports NetworkInvariants
begin

text \<open>
  What the operations of connections and managers do: the bytes that a connection still has to send, the
  buffer in front of its queue, stopping, and what the handler of the signal does to all connections.
\<close>

lemma conn_some [simp]: "w_conns w i = Some c \<Longrightarrow> conn w i = Inr c"
  by (simp add: conn_def)

section \<open>Queued bytes\<close>

definition unsent :: "'p connection \<Rightarrow> string" where
  "unsent c = concat (map bytes (c_buffer_out c))"

text \<open>A connection that is up and whose queued buffers are well formed and not empty.\<close>

definition up :: "'p connection \<Rightarrow> bool" where
  "up c \<longleftrightarrow> \<not> c_stopped c \<and> c_connected c \<and> list_all (\<lambda>b. bb_ok b \<and> 0 < bb_size b) (c_buffer_out c)"

lemma do_write_up:
  assumes "w_conns w i = Some c" and "\<not> c_writing c" and "c_connected c" and "c_buffer_out c = b # bs"
  shows "do_write i w = Inr (initiate (Write_op i (bytes b)) (modify i (\<lambda>c. c\<lparr>c_writing := True\<rparr>) w))"
  using assms by (simp add: do_write_def)

lemma erase_front:
  assumes "bb_ok b" and "n < bb_size b"
  shows "\<exists>b'. buffer_erase 0 n b = Inr b' \<and> bb_ok b' \<and> 0 < bb_size b' \<and> bytes b' = drop n (bytes b)"
proof -
  obtain b' where "buffer_erase 0 n b = Inr b'" "bb_ok b'"
    and b': "bytes b' = (if 0 < n \<and> n \<le> length (bytes b) then take 0 (bytes b) @ drop n (bytes b) else bytes b)"
    using buffer_erase_spec[OF assms(1), of 0 n] assms(1) by (auto simp: succeeds_iff)
  moreover have "bytes b' = drop n (bytes b)" using b' assms by (auto split: if_splits)
  ultimately show ?thesis using assms length_bytes[of b] length_bytes[of b'] by (intro exI[of _ b']) simp
qed

section \<open>Stopping\<close>

fun is_stop_task :: "task \<Rightarrow> bool" where
  "is_stop_task (Stop_task i) = True"
| "is_stop_task _ = False"

lemma halt_conns:
  "w_conns w i = Some c \<Longrightarrow> w_conns (halt i notify c w) =
     (w_conns w)(i \<mapsto> c\<lparr>c_connected := False, c_stopped := True\<rparr>)"
  by (rule ext) (auto simp: halt_def Let_def)

lemma halt_queue: "w_queue (halt i notify c w) = w_queue w @ (if notify then [Stop_task i] else [])"
  by (auto simp: halt_def Let_def mgr_erase_def split: conn_kind.split)

lemma halt_ops: "w_ops (halt i notify c w) = w_ops w"
  by (simp add: halt_def Let_def)

lemma halt_mgr:
  "w_client_mgr (halt i notify c w) =
     (if c_managed c \<and> c_kind c = Client then remove1 i (w_client_mgr w) else w_client_mgr w)"
  "w_server_mgr (halt i notify c w) =
     (if c_managed c \<and> c_kind c = Server then remove1 i (w_server_mgr w) else w_server_mgr w)"
  by (auto simp: halt_def Let_def mgr_erase_def split: conn_kind.split)

lemma stop_eq:
  assumes "w_conns w i = Some c" and "\<not> c_stopped c"
  shows "stop i notify w = Inr (halt i notify c (if running (c_timer c) then cancel_waits i w else w))"
  using assms by (simp add: stop_def timer_cancel_def)

lemma stop_stopped: "w_conns w i = Some c \<Longrightarrow> c_stopped c \<Longrightarrow> stop i notify w = Inr w"
  by (simp add: stop_def)

lemma stop_tasks_cancel: "filter is_stop_task (w_queue (cancel_waits i w)) = filter is_stop_task (w_queue w)"
  by (simp add: cancel_waits_def filter_empty_conv)

lemma no_timer_left: "filter (is_timer_of i) (w_ops (cancel_waits i w)) = []"
  by (simp add: filter_empty_conv)

text \<open>Stopping any existing connection, stopped before or not.\<close>

lemma stop_silently:
  assumes "w_conns w i = Some c"
  shows "\<exists>w' c'. stop i False w = Inr w' \<and> w_conns w' = (w_conns w)(i \<mapsto> c') \<and> c_stopped c' \<and>
           (\<not> (c_stopped c \<and> c_connected c) \<longrightarrow> \<not> c_connected c') \<and>
           filter is_stop_task (w_queue w') = filter is_stop_task (w_queue w) \<and>
           (\<not> c_managed c \<longrightarrow> w_client_mgr w' = w_client_mgr w \<and> w_server_mgr w' = w_server_mgr w)"
proof (cases "c_stopped c")
  case True
  then show ?thesis using stop_stopped[OF assms True] assms by (intro exI[of _ w] exI[of _ c]) auto
next
  case False
  define v where "v = (if running (c_timer c) then cancel_waits i w else w)"
  have v: "w_conns v = w_conns w" "w_client_mgr v = w_client_mgr w" "w_server_mgr v = w_server_mgr w"
    "filter is_stop_task (w_queue v) = filter is_stop_task (w_queue w)"
    by (simp_all add: v_def stop_tasks_cancel)
  have "stop i False w = Inr (halt i False c v)" using stop_eq[OF assms False] by (simp add: v_def)
  then show ?thesis
    using halt_conns[of v i c] assms v by (auto simp: halt_queue halt_mgr)
qed

lemma stop_one_effect:
  assumes "w_conns w i = Some c"
  shows "\<exists>w' c'. stop_one i w = Inr w' \<and> w_conns w' = (w_conns w)(i \<mapsto> c') \<and> c_stopped c' \<and>
           w_client_mgr w' = w_client_mgr w \<and> w_server_mgr w' = w_server_mgr w"
proof -
  have "w_conns (detach i w) i = Some (c\<lparr>c_managed := False\<rparr>)" using assms by (simp add: detach_def)
  from stop_silently[OF this] obtain w' c' where "stop i False (detach i w) = Inr w'" "c_stopped c'"
    "w_conns w' = (w_conns (detach i w))(i \<mapsto> c')"
    "w_client_mgr w' = w_client_mgr w \<and> w_server_mgr w' = w_server_mgr w"
    by (auto simp: detach_def)
  moreover have "(w_conns (detach i w))(i \<mapsto> c') = (w_conns w)(i \<mapsto> c')"
    by (rule ext) (simp add: detach_def)
  ultimately show ?thesis by (auto simp: stop_one_def)
qed

lemma stop_each:
  "set is \<subseteq> dom (w_conns w) \<Longrightarrow>
   \<exists>w'. fold_res stop_one is w = Inr w' \<and> dom (w_conns w') = dom (w_conns w) \<and>
     w_client_mgr w' = w_client_mgr w \<and> w_server_mgr w' = w_server_mgr w \<and>
     (\<forall>j c'. w_conns w' j = Some c' \<longrightarrow>
        (j \<in> set is \<longrightarrow> c_stopped c') \<and> (\<forall>c. w_conns w j = Some c \<longrightarrow> c_stopped c \<longrightarrow> c_stopped c'))"
proof (induction "is" arbitrary: w)
  case Nil
  then show ?case by auto
next
  case (Cons i "is")
  then obtain c where c: "w_conns w i = Some c" by auto
  obtain w1 c1 where 1: "stop_one i w = Inr w1" "w_conns w1 = (w_conns w)(i \<mapsto> c1)" "c_stopped c1"
    "w_client_mgr w1 = w_client_mgr w" "w_server_mgr w1 = w_server_mgr w"
    using stop_one_effect[OF c] by blast
  have d: "dom (w_conns w1) = dom (w_conns w)" using 1(2) c by auto
  with Cons.prems obtain w2 where 2: "fold_res stop_one is w1 = Inr w2" "dom (w_conns w2) = dom (w_conns w1)"
    "w_client_mgr w2 = w_client_mgr w1" "w_server_mgr w2 = w_server_mgr w1"
    "\<forall>j c'. w_conns w2 j = Some c' \<longrightarrow>
        (j \<in> set is \<longrightarrow> c_stopped c') \<and> (\<forall>c. w_conns w1 j = Some c \<longrightarrow> c_stopped c \<longrightarrow> c_stopped c')"
    using Cons.IH[of w1] by auto
  have "c_stopped c'" if "w_conns w2 j = Some c'" and "j = i \<or> (\<exists>c. w_conns w j = Some c \<and> c_stopped c)" for j c'
    using 2(5) that 1(2,3) by (cases "j = i") auto
  then show ?case using 1 2 d by (auto simp: fold_res_Cons_fun)
qed

section \<open>Properties of stopping\<close>

text \<open>A client and a server connection in one context, for the witnesses.\<close>

definition sample_conn :: "conn_kind \<Rightarrow> (parser_view \<times> callback) list list connection" where
  "sample_conn k = \<lparr>c_kind = k, c_connected = True, c_stopped = False, c_host = ''h'', c_port = 80,
     c_timer = new_timer, c_context = 0, c_decoder = new_decoder (scripted []) HTTP_REQUEST,
     c_encoder = new_encoder HTTP_RESPONSE, c_message = sample_request, c_managed = True,
     c_buffer_out = [], c_writing = False, c_ssl = None\<rparr>"

definition sample_world :: "(parser_view \<times> callback) list list connection \<Rightarrow>
    (parser_view \<times> callback) list list connection \<Rightarrow> (parser_view \<times> callback) list list world" where
  "sample_world c s = \<lparr>w_conns = [1 \<mapsto> c, 2 \<mapsto> s],
     w_contexts = (\<lambda>_. new_context\<lparr>client_conn := Some 1, server_conn := Some 2\<rparr>), w_ops = [Signal_op],
     w_queue = [], w_client_mgr = [1], w_server_mgr = [2], w_current = None, w_accepting = True,
     w_pinned = [], w_counter = 2, w_next_context = 1, w_certs = new_manager, w_thrown = False\<rparr>"

lemma sample_world_simps [simp]:
  "w_conns (sample_world c s) = [1 \<mapsto> c, 2 \<mapsto> s]" "w_queue (sample_world c s) = []"
  "w_client_mgr (sample_world c s) = [1]" "w_server_mgr (sample_world c s) = [2]"
  "w_ops (sample_world c s) = [Signal_op]" "w_current (sample_world c s) = None"
  "w_contexts (sample_world c s) k = new_context\<lparr>client_conn := Some 1, server_conn := Some 2\<rparr>"
  "w_pinned (sample_world c s) = []" "shared_refs (sample_world c s) = [1, 2]"
  by (simp_all add: sample_world_def shared_refs_def)

lemma sample_world_good: "good {} (sample_world (sample_conn Client) (sample_conn Server))"
  by (auto simp: good_def timers_def writes_def outstanding_def sample_conn_def conn_inv_def new_timer_def
      sample_world_def shared_refs_def split: if_splits)

text \<open>
  Stopping. \<open>stop\<close> on a connection that is not stopped succeeds: the connection is stopped and not
  connected, its timer is cancelled, the manager that it is attached to no longer holds it, and the
  context is told exactly when \<open>notify\<close> is set. A second \<open>stop\<close> changes nothing, so the context is told
  at most once.
\<close>

theorem stop_releases_connection:
  assumes "w_conns w i = Some c" and "\<not> c_stopped c"
  shows "\<exists>w' c'. stop i notify w = Inr w' \<and> w_conns w' = (w_conns w)(i \<mapsto> c') \<and>
           c_stopped c' \<and> \<not> c_connected c' \<and>
           filter is_stop_task (w_queue w') =
             filter is_stop_task (w_queue w) @ (if notify then [Stop_task i] else []) \<and>
           (running (c_timer c) \<longrightarrow> filter (is_timer_of i) (w_ops w') = []) \<and>
           w_client_mgr w' = (if c_managed c \<and> c_kind c = Client then remove1 i (w_client_mgr w) else w_client_mgr w) \<and>
           w_server_mgr w' = (if c_managed c \<and> c_kind c = Server then remove1 i (w_server_mgr w) else w_server_mgr w) \<and>
           stop i notify' w' = Inr w'"
proof -
  define v where "v = (if running (c_timer c) then cancel_waits i w else w)"
  have v: "w_conns v = w_conns w" "w_client_mgr v = w_client_mgr w" "w_server_mgr v = w_server_mgr w"
    "filter is_stop_task (w_queue v) = filter is_stop_task (w_queue w)"
    "running (c_timer c) \<longrightarrow> filter (is_timer_of i) (w_ops v) = []"
    by (simp_all add: v_def stop_tasks_cancel no_timer_left del: cancel_waits_simps(9))
  have s: "stop i notify w = Inr (halt i notify c v)" using stop_eq[OF assms] by (simp add: v_def)
  have c: "w_conns (halt i notify c v) = (w_conns w)(i \<mapsto> c\<lparr>c_connected := False, c_stopped := True\<rparr>)"
    using halt_conns[of v i c] assms(1) v(1) by simp
  have "stop i notify' (halt i notify c v) = Inr (halt i notify c v)"
    by (rule stop_stopped[of _ _ "c\<lparr>c_connected := False, c_stopped := True\<rparr>"]) (simp_all add: c)
  then show ?thesis
    using s c v by (intro exI[of _ "halt i notify c v"] exI[of _ "c\<lparr>c_connected := False, c_stopped := True\<rparr>"])
      (simp add: halt_queue halt_mgr halt_ops)
qed

theorem stop_releases_connection_witness:
  "\<exists>w'. stop 2 True (sample_world (sample_conn Client) (sample_conn Server)) = Inr w' \<and>
        w_server_mgr w' = [] \<and> filter is_stop_task (w_queue w') = [Stop_task 2] \<and> stop 2 True w' = Inr w'"
  using stop_releases_connection[of "sample_world (sample_conn Client) (sample_conn Server)" 2 "sample_conn Server" True True]
  by (auto simp: sample_conn_def)

text \<open>
  Stopping the peer. When the context handles the stop of one of its two living connections, the
  other one is stopped, without a further stop request, and the first is left as it is; so a pair of
  connections goes down together and the exchange of stop requests ends.
\<close>

theorem stop_reaches_peer:
  assumes "client_conn (w_contexts w k) = Some c" and "server_conn (w_contexts w k) = Some s" and "c \<noteq> s"
    and "{c, s} \<subseteq> set (shared_refs w)" and "good {} w" and "(i, j) \<in> {(c, s), (s, c)}"
  shows "\<exists>w' cj. on_stop k i w = Inr w' \<and> w_conns w' = (w_conns w)(j \<mapsto> cj) \<and> c_stopped cj \<and>
           \<not> c_connected cj \<and> filter is_stop_task (w_queue w') = filter is_stop_task (w_queue w)"
proof -
  have l: "lock w (client_conn (w_contexts w k)) = Some c" "lock w (server_conn (w_contexts w k)) = Some s"
    using assms(1,2,4) by (simp_all add: lock_def)
  have "j \<in> set (shared_refs w @ w_pinned w)" using assms(4,6) by auto
  then obtain cj where cj: "w_conns w j = Some cj" using good_dom[OF good_refs[OF assms(5)]] by blast
  have "\<not> (c_stopped cj \<and> c_connected cj)" using good_conn[OF assms(5) cj] by (simp add: conn_inv_def)
  moreover have "on_stop k i w = stop j False w"
    using l assms(3,6) by (auto simp: on_stop_def)
  ultimately show ?thesis using stop_silently[OF cj] by auto
qed

theorem stop_reaches_peer_witness:
  "\<exists>w' cj. on_stop 0 2 (sample_world (sample_conn Client) (sample_conn Server)) = Inr w' \<and>
           w_conns w' 1 = Some cj \<and> c_stopped cj"
  using stop_reaches_peer[of "sample_world (sample_conn Client) (sample_conn Server)" 0 1 2 2 1] sample_world_good
  by auto

text \<open>What the handler of the signals does.\<close>

lemma signal_result:
  assumes "good {} w"
  shows "\<exists>w'. on_signal w = Inr w' \<and> w_client_mgr w' = [] \<and> w_server_mgr w' = [] \<and> \<not> w_accepting w' \<and>
           filter is_accept (w_ops w') = [] \<and>
           list_all (\<lambda>i. \<exists>c. w_conns w' i = Some c \<and> c_stopped c) (w_client_mgr w @ w_server_mgr w)"
proof -
  have d: "set (w_client_mgr w) \<subseteq> dom (w_conns w)" "set (w_server_mgr w) \<subseteq> dom (w_conns w)"
    using assms by (auto simp: good_def shared_refs_def)
  obtain w1 where 1: "fold_res stop_one (w_client_mgr w) w = Inr w1" "dom (w_conns w1) = dom (w_conns w)"
    "w_server_mgr w1 = w_server_mgr w"
    "\<forall>j c'. w_conns w1 j = Some c' \<longrightarrow> j \<in> set (w_client_mgr w) \<longrightarrow> c_stopped c'"
    using stop_each[OF d(1)] by blast
  let ?v = "w1\<lparr>w_client_mgr := []\<rparr>"
  have "set (w_server_mgr w) \<subseteq> dom (w_conns ?v)" using d(2) 1(2) by simp
  from stop_each[OF this] obtain w2 where 2: "fold_res stop_one (w_server_mgr w) ?v = Inr w2"
    "dom (w_conns w2) = dom (w_conns w1)" "w_client_mgr w2 = []"
    "\<forall>j c'. w_conns w2 j = Some c' \<longrightarrow> (j \<in> set (w_server_mgr w) \<longrightarrow> c_stopped c') \<and>
       (\<forall>c. w_conns w1 j = Some c \<longrightarrow> c_stopped c \<longrightarrow> c_stopped c')"
    by auto
  have "on_signal w = Inr (close_acceptor (w2\<lparr>w_server_mgr := []\<rparr>))"
    using 1(1,3) 2(1) by (simp add: on_signal_def stop_all_def)
  moreover have "\<exists>c. w_conns w2 i = Some c \<and> c_stopped c" if i: "i \<in> set (w_client_mgr w @ w_server_mgr w)" for i
  proof -
    have "i \<in> dom (w_conns w1)" "i \<in> dom (w_conns w2)" using i d 1(2) 2(2) by auto
    then obtain c1 c2 where "w_conns w1 i = Some c1" "w_conns w2 i = Some c2" by blast
    then show ?thesis using i 1(4) 2(4) by auto
  qed
  ultimately show ?thesis
    using 2(3) by (auto simp: close_acceptor_def list_all_iff filter_empty_conv)
qed

text \<open>
  C26: Shutdown. The handler of the signals runs without a fault: afterwards both managers are empty,
  every connection that they held is stopped, and the acceptor waits for no further client.
\<close>

theorem shutdown_stops_everything:
  assumes "good {} w"
  shows "\<exists>w'. on_signal w = Inr w' \<and> w_client_mgr w' = [] \<and> w_server_mgr w' = [] \<and> \<not> w_accepting w' \<and>
           filter is_accept (w_ops w') = [] \<and>
           list_all (\<lambda>i. \<exists>c. w_conns w' i = Some c \<and> c_stopped c) (w_client_mgr w @ w_server_mgr w)"
  by (rule signal_result[OF assms])

theorem shutdown_stops_everything_witness:
  "\<exists>w'. on_signal (sample_world (sample_conn Client) (sample_conn Server)) = Inr w' \<and> w_client_mgr w' = [] \<and>
        (\<exists>c. w_conns w' 1 = Some c \<and> c_stopped c) \<and> (\<exists>c. w_conns w' 2 = Some c \<and> c_stopped c)"
  using shutdown_stops_everything[OF sample_world_good] by auto

end
