(* ===== verification/Exchanges.thy ===== *)
theory Exchanges
  imports NetworkProperties
begin

text \<open>
  What a message does when it reaches the context (\<open>on_client_message\<close>, \<open>on_server_message\<close>,
  \<open>parse_destination\<close>): where a request goes, what is put on the wire for it, how the reply to CONNECT
  and the pieces of a response travel to the client, and what becomes of the server connection after.
\<close>

section \<open>Destinations\<close>

text \<open>
  The reference: the authority is the target of a CONNECT request and the value of \<open>Host\<close> otherwise;
  it is a host, with the default port of the scheme, or a host, a colon and a port.
\<close>

definition is_connect :: "string \<Rightarrow> bool" where
  "is_connect meth \<longleftrightarrow> length meth = 7 \<and> take 2 meth = ''CO''"

definition authority :: "string \<Rightarrow> string \<Rightarrow> http_message \<Rightarrow> string option" where
  "authority meth u m = (if is_connect meth then Some u else find_header m ''Host'')"

definition split_authority :: "(string \<Rightarrow> nat option) \<Rightarrow> nat \<Rightarrow> string \<Rightarrow> (string \<times> nat) option" where
  "split_authority cast dport a =
     (case dropWhile (\<lambda>c. c \<noteq> CHR '':'') a of
        [] \<Rightarrow> Some (a, dport)
      | _ # digits \<Rightarrow> map_option (Pair (takeWhile (\<lambda>c. c \<noteq> CHR '':'') a)) (cast digits))"

lemma is_connect_alt:
  "is_connect meth \<longleftrightarrow> length meth = 7 \<and> meth ! 0 = CHR ''C'' \<and> meth ! 1 = CHR ''O''"
proof -
  have "take 2 meth = [meth ! 0, meth ! 1]" if "length meth = 7"
    using that by (auto simp: take_Suc_conv_app_nth numeral_2_eq_2)
  then show ?thesis by (auto simp: is_connect_def)
qed

text \<open>What the code does with the authority.\<close>

definition code_split :: "(string \<Rightarrow> nat option) \<Rightarrow> bool \<Rightarrow> string \<Rightarrow> nat \<Rightarrow> (bool \<times> (string \<times> nat) option) result" where
  "code_split cast https1 host port =
     (let sep = find_char CHR '':'' host 0 in
      if sep \<noteq> npos then
        bind_res (substr_from host (size_add sep 1)) (\<lambda>digits.
        case cast digits of
          None \<Rightarrow> Inr (https1, None)
        | Some p \<Rightarrow> bind_res (substr_len host 0 sep) (\<lambda>h. Inr (https1, Some (h, p))))
      else Inr (https1, Some (host, port)))"

lemma code_split_spec:
  assumes "length a \<le> MAX_ALLOC"
  shows "code_split cast https1 a port = Inr (https1, split_authority cast port a)"
proof (cases "CHR '':'' \<in> set a")
  case False
  then have d: "dropWhile (\<lambda>c. c \<noteq> CHR '':'') a = []" by (auto simp: dropWhile_eq_Nil_conv)
  show ?thesis unfolding split_authority_def d by (simp add: code_split_def find_char_none[OF False])
next
  case True
  then obtain h d where a: "a = h @ CHR '':'' # d" "CHR '':'' \<notin> set h"
    by (meson split_list_first)
  have h: "takeWhile (\<lambda>c. c \<noteq> CHR '':'') a = h" "dropWhile (\<lambda>c. c \<noteq> CHR '':'') a = CHR '':'' # d"
    using a(2) by (auto simp: a(1) takeWhile_append dropWhile_append)
  have "find_char CHR '':'' a 0 = length h" using a by (simp add: find_char_some)
  moreover have "length h \<noteq> npos" using assms a(1) by (simp add: npos_def MAX_ALLOC_def SIZE_MOD_def)
  moreover have "size_add (length h) 1 = Suc (length h)"
    using assms a(1) by (simp add: size_add_two MAX_ALLOC_def)
  ultimately show ?thesis using h
    by (auto simp: code_split_def Let_def a(1) substr_from_def substr_len_def split_authority_def split: option.split)
qed

lemma parse_destination_alt:
  "derived m = Request_part meth u \<Longrightarrow> parse_destination cast m https0 =
     (case authority meth u m of None \<Rightarrow> Inl Assertion_Failed
      | Some a \<Rightarrow> code_split cast (https0 \<or> is_connect meth) a (if is_connect meth then 443 else 80))"
  by (cases "is_connect meth")
    (simp_all add: parse_destination_def authority_def code_split_def is_connect_alt[symmetric] del: One_nat_def split: option.split)

lemma parse_destination_ok:
  assumes "derived m = Request_part meth u" and "authority meth u m = Some a" and "length a \<le> MAX_ALLOC"
  shows "parse_destination cast m https0 = Inr (https0 \<or> is_connect meth,
           split_authority cast (if is_connect meth then 443 else 80) a)"
  using assms by (simp add: parse_destination_alt code_split_spec)

section \<open>Putting a message on a connection\<close>

text \<open>A message that the encoder can take, within the bound on sizes.\<close>

definition sendable :: "http_encoder \<Rightarrow> http_message \<Rightarrow> bool" where
  "sendable e m \<longleftrightarrow> headers_done m \<and> enc_ok e m \<and> msg_ok SINK_LIMIT m \<and>
     length (serialize m) \<le> SINK_LIMIT \<and> (completed m \<or> enc_state e \<noteq> END)"

lemma write_message_encodes:
  assumes "w_conns w i = Some c" and "\<not> c_stopped c" and s: "sendable (c_encoder c) m"
  shows "\<exists>e buf. write_message i m w =
           do_write i (push_encoded i e buf (if running (c_timer c) then cancel_waits i w else w)) \<and>
           emitted (c_encoder c) m @ bytes buf = serialize m \<and> emitted e m = serialize m \<and> enc_ok e m \<and>
           enc_state e = (if completed m then END else BODY) \<and> bb_ok buf"
proof -
  obtain b where b: "new_buffer 0 = Inr b" "fits SINK_LIMIT b" "bytes b = []"
    using fits_new[of SINK_LIMIT] by (auto simp: succeeds_iff)
  obtain e buf n where "encode m (c_encoder c) b = Inr (e, buf, n)"
    and r: "call_result m (c_encoder c) b SINK_LIMIT (e, buf, n)"
    using encode_call[of m "c_encoder c" SINK_LIMIT SINK_LIMIT b] s b(2,3) by (auto simp: sendable_def)
  then have "write_message i m w =
      do_write i (push_encoded i e buf (if running (c_timer c) then cancel_waits i w else w))"
    using assms(1,2) b(1) by (simp add: write_message_def timer_cancel_def)
  then show ?thesis using r b(3) by (intro exI[of _ e] exI[of _ buf]) (auto simp: call_result_def fits_def)
qed

lemma push_encoded_conn:
  "w_conns w i = Some c \<Longrightarrow> w_conns (push_encoded i e buf w) = (w_conns w)(i \<mapsto> c\<lparr>c_encoder := e,
     c_buffer_out := (if bb_size buf > 0 then c_buffer_out c @ [buf] else c_buffer_out c)\<rparr>)"
  by (rule ext) (simp add: push_encoded_def)

lemma push_encoded_simps [simp]:
  "w_ops (push_encoded i e buf w) = w_ops w" "w_queue (push_encoded i e buf w) = w_queue w"
  "w_client_mgr (push_encoded i e buf w) = w_client_mgr w" "w_server_mgr (push_encoded i e buf w) = w_server_mgr w"
  "w_contexts (push_encoded i e buf w) = w_contexts w" "w_counter (push_encoded i e buf w) = w_counter w"
  "w_current (push_encoded i e buf w) = w_current w" "w_thrown (push_encoded i e buf w) = w_thrown w"
  by (simp_all add: push_encoded_def)

text \<open>The first bytes of an exchange with a server that is not connected: it is looked up.\<close>

lemma write_message_starts_server:
  assumes c: "w_conns w i = Some c" and "c_kind c = Server" and "\<not> c_connected c" and "\<not> c_stopped c"
    and "\<not> c_writing c" and "\<not> running (c_timer c)" and "c_buffer_out c = []"
    and e: "c_encoder c = new_encoder HTTP_REQUEST" and "sendable (c_encoder c) m"
    and "c_host c \<noteq> []" and "c_port c \<noteq> 0"
  shows "\<exists>c'. write_message i m w = Inr (initiate (Resolve_op i) (set_context (c_context c)
             (\<lambda>x. x\<lparr>server_conn := Some i\<rparr>) (w\<lparr>w_conns := (w_conns w)(i \<mapsto> c')\<rparr>))) \<and>
           unsent c' = serialize m \<and> c_kind c' = Server \<and> c_host c' = c_host c \<and> c_port c' = c_port c \<and>
           c_context c' = c_context c \<and> \<not> c_connected c'"
proof -
  obtain e' buf where 1: "write_message i m w = do_write i (push_encoded i e' buf w)"
    "emitted (c_encoder c) m @ bytes buf = serialize m" "bb_ok buf"
    using write_message_encodes[OF c assms(4,9)] assms(6) by auto
  have ser: "bytes buf = serialize m" using 1(2) e by (simp add: new_encoder_def emitted_def)
  have "0 < length (serialize m)" by (simp add: serialize_def header_block_def CRLF_def)
  moreover have "length (bytes buf) = bb_size buf" using 1(3) by simp
  ultimately have pos: "0 < bb_size buf" using ser by metis
  let ?c = "c\<lparr>c_encoder := e', c_buffer_out := [buf]\<rparr>"
  let ?w = "push_encoded i e' buf w"
  have conns: "w_conns ?w = (w_conns w)(i \<mapsto> ?c)"
    using push_encoded_conn[OF c] pos assms(7) by simp
  then have w: "?w = w\<lparr>w_conns := (w_conns w)(i \<mapsto> ?c)\<rparr>" by (simp add: push_encoded_def modify_def)
  have "do_write i ?w = initiate_resolve" if "initiate_resolve = Inr (initiate (Resolve_op i)
      (set_context (c_context c) (\<lambda>x. x\<lparr>server_conn := Some i\<rparr>) ?w))" for initiate_resolve
    using that assms by (simp add: do_write_def conn_def conns start_def server_start_def server_connect_def)
  then show ?thesis using 1(1) ser assms(2,3)
    by (intro exI[of _ ?c]) (simp add: w unsent_def)
qed

text \<open>More bytes for a connection that is up.\<close>

lemma write_encoded_up:
  assumes c: "w_conns w i = Some c" and u: "up c" and ok: "bb_ok buf"
    and wr: "write_message i m w = do_write i (push_encoded i e buf (if running (c_timer c) then cancel_waits i w else w))"
  shows "\<exists>w' c'. write_message i m w = Inr w' \<and> w_conns w' = (w_conns w)(i \<mapsto> c') \<and> up c' \<and>
           unsent c' = unsent c @ bytes buf \<and> c_encoder c' = e \<and> w_thrown w' = w_thrown w \<and>
           w_queue w' = w_queue w @ (if running (c_timer c)
             then map (\<lambda>p. Ready p Aborted) (filter (is_timer_of i) (w_ops w)) else []) \<and>
           w_contexts w' = w_contexts w \<and> w_server_mgr w' = w_server_mgr w \<and> w_client_mgr w' = w_client_mgr w \<and>
           w_ops w' = (if running (c_timer c) then filter (\<lambda>p. \<not> is_timer_of i p) (w_ops w) else w_ops w) @
             (case c_buffer_out c' of [] \<Rightarrow> [] | b # _ \<Rightarrow> if c_writing c then [] else [Write_op i (bytes b)])"
proof -
  let ?v = "if running (c_timer c) then cancel_waits i w else w"
  define c1 where "c1 = c\<lparr>c_encoder := e,
    c_buffer_out := (if bb_size buf > 0 then c_buffer_out c @ [buf] else c_buffer_out c)\<rparr>"
  define w1 where "w1 = push_encoded i e buf ?v"
  have v: "w_conns ?v i = Some c" using c by simp
  have conns: "w_conns w1 = (w_conns w)(i \<mapsto> c1)"
    unfolding w1_def push_encoded_conn[OF v] c1_def by simp
  have w1: "w_contexts w1 = w_contexts w" "w_server_mgr w1 = w_server_mgr w" "w_client_mgr w1 = w_client_mgr w"
    "w_ops w1 = (if running (c_timer c) then filter (\<lambda>p. \<not> is_timer_of i p) (w_ops w) else w_ops w)"
    "w_thrown w1 = w_thrown w" "w_queue w1 = w_queue w @ (if running (c_timer c)
       then map (\<lambda>p. Ready p Aborted) (filter (is_timer_of i) (w_ops w)) else [])"
    by (simp_all add: w1_def cancel_waits_def)
  have "length (bytes buf) = bb_size buf" using ok by simp
  then have none: "bytes buf = []" if "bb_size buf = 0" using that by simp
  have c1: "up c1" "unsent c1 = unsent c @ bytes buf" "c_encoder c1 = e" "c_writing c1 = c_writing c"
    using u ok none by (auto simp: c1_def up_def unsent_def)
  have up1: "up (c1\<lparr>c_writing := b\<rparr>)" "unsent (c1\<lparr>c_writing := b\<rparr>) = unsent c1" for b
    using c1(1) by (simp_all add: up_def unsent_def)
  show ?thesis
  proof (cases "c_writing c \<or> c_buffer_out c1 = []")
    case True
    then have "write_message i m w = Inr w1"
      using wr c1(1,4) conns by (auto simp: w1_def[symmetric] do_write_def conn_def)
    with True show ?thesis using conns c1 w1
      by (intro exI[of _ w1] exI[of _ c1]) (auto split: list.split)
  next
    case False
    then obtain b bs where out: "c_buffer_out c1 = b # bs" by (cases "c_buffer_out c1") auto
    define w2 where "w2 = initiate (Write_op i (bytes b)) (modify i (\<lambda>c. c\<lparr>c_writing := True\<rparr>) w1)"
    have "write_message i m w = Inr w2"
      unfolding wr w1_def[symmetric] w2_def using conns c1 out False
      by (intro do_write_up[of _ _ c1]) (auto simp: up_def)
    moreover have "w_conns w2 = (w_conns w)(i \<mapsto> c1\<lparr>c_writing := True\<rparr>)"
      by (rule ext) (simp add: w2_def initiate_def conns)
    ultimately show ?thesis using False out c1 w1 up1
      by (intro exI[of _ w2] exI[of _ "c1\<lparr>c_writing := True\<rparr>"]) (simp add: w2_def initiate_def)
  qed
qed

lemma write_message_up:
  assumes c: "w_conns w i = Some c" and u: "up c" and s: "sendable (c_encoder c) m"
  shows "\<exists>w' c' rest. write_message i m w = Inr w' \<and> w_conns w' = (w_conns w)(i \<mapsto> c') \<and> up c' \<and>
           emitted (c_encoder c) m @ rest = serialize m \<and> unsent c' = unsent c @ rest \<and>
           emitted (c_encoder c') m = serialize m \<and> enc_ok (c_encoder c') m \<and>
           enc_state (c_encoder c') = (if completed m then END else BODY) \<and> w_thrown w' = w_thrown w \<and>
           w_queue w' = w_queue w @ (if running (c_timer c)
             then map (\<lambda>p. Ready p Aborted) (filter (is_timer_of i) (w_ops w)) else []) \<and>
           w_contexts w' = w_contexts w \<and> w_server_mgr w' = w_server_mgr w \<and> w_client_mgr w' = w_client_mgr w \<and>
           w_ops w' = (if running (c_timer c) then filter (\<lambda>p. \<not> is_timer_of i p) (w_ops w) else w_ops w) @
             (case c_buffer_out c' of [] \<Rightarrow> [] | b # _ \<Rightarrow> if c_writing c then [] else [Write_op i (bytes b)])"
proof -
  obtain e buf where 1: "write_message i m w =
      do_write i (push_encoded i e buf (if running (c_timer c) then cancel_waits i w else w))"
    "emitted (c_encoder c) m @ bytes buf = serialize m" "emitted e m = serialize m" "bb_ok buf"
    "enc_ok e m" "enc_state e = (if completed m then END else BODY)"
    using write_message_encodes[OF c _ s] u by (auto simp: up_def)
  from write_encoded_up[OF c u 1(4,1)] 1(2,3,5,6) show ?thesis by blast
qed

text \<open>A message whose headers are not complete puts nothing on the connection.\<close>

lemma write_message_early:
  assumes c: "w_conns w i = Some c" and u: "up c" and "\<not> headers_done m"
  shows "\<exists>w' c'. write_message i m w = Inr w' \<and> w_conns w' = (w_conns w)(i \<mapsto> c') \<and> up c' \<and>
           unsent c' = unsent c \<and> c_encoder c' = c_encoder c \<and> w_thrown w' = w_thrown w \<and>
           w_queue w' = w_queue w @ (if running (c_timer c)
             then map (\<lambda>p. Ready p Aborted) (filter (is_timer_of i) (w_ops w)) else []) \<and>
           w_contexts w' = w_contexts w \<and> w_server_mgr w' = w_server_mgr w \<and> w_client_mgr w' = w_client_mgr w"
proof -
  obtain b where b: "new_buffer 0 = Inr b" "bb_ok b" "bytes b = []"
    using fits_new[of SINK_LIMIT] by (auto simp: succeeds_iff fits_def)
  have "write_message i m w =
      do_write i (push_encoded i (c_encoder c) b (if running (c_timer c) then cancel_waits i w else w))"
    using assms b(1) by (simp add: write_message_def timer_cancel_def encode_early up_def)
  from write_encoded_up[OF c u b(2) this] b(3) show ?thesis by auto
qed

section \<open>Opening a server connection\<close>

lemma lock_some: "lock w r = Some i \<Longrightarrow> r = Some i \<and> i \<in> set (shared_refs w @ w_pinned w)"
  by (auto simp: lock_def split: option.splits if_splits)

lemma new_server_connection:
  "\<exists>c. new_connection api Server k = Inr c \<and> c_kind c = Server \<and> \<not> c_connected c \<and> \<not> c_stopped c \<and>
     \<not> c_writing c \<and> \<not> running (c_timer c) \<and> c_buffer_out c = [] \<and> c_context c = k \<and>
     c_encoder c = new_encoder HTTP_REQUEST \<and> c_ssl c = None"
  by (simp add: new_connection_def new_response_def new_message_def new_buffer_def new_char_def
      DEFAULT_SIZE_def MAX_ALLOC_def new_timer_def)

text \<open>The world after the server connection is made and registered.\<close>

definition with_server :: "nat \<Rightarrow> bool \<Rightarrow> 'p connection \<Rightarrow> 'p world \<Rightarrow> 'p world" where
  "with_server k https1 c w =
     (let s = Suc (w_counter w) in
      (set_context k (\<lambda>x. x\<lparr>https := https1, server_conn := Some s\<rparr>) w)
        \<lparr>w_conns := (w_conns w)(s \<mapsto> c), w_counter := s, w_server_mgr := List.insert s (w_server_mgr w)\<rparr>)"

lemma with_server_simps [simp]:
  "w_conns (with_server k b c w) = (w_conns w)(Suc (w_counter w) \<mapsto> c)"
  "w_ops (with_server k b c w) = w_ops w" "w_queue (with_server k b c w) = w_queue w"
  "w_client_mgr (with_server k b c w) = w_client_mgr w" "w_current (with_server k b c w) = w_current w"
  "w_pinned (with_server k b c w) = w_pinned w"
  "w_server_mgr (with_server k b c w) = List.insert (Suc (w_counter w)) (w_server_mgr w)"
  "w_contexts (with_server k b c w) =
     (w_contexts w)(k := (w_contexts w k)\<lparr>https := b, server_conn := Some (Suc (w_counter w))\<rparr>)"
  by (simp_all add: with_server_def set_context_def Let_def)

lemma lock_with_server:
  assumes "lock w r = Some i"
  shows "lock (with_server k b c w) r = Some i"
proof -
  have "set (shared_refs w @ w_pinned w) \<subseteq> set (shared_refs (with_server k b c w) @ w_pinned (with_server k b c w))"
    by (auto simp: shared_refs_def List.insert_def)
  with lock_some[OF assms] show ?thesis by (auto simp: lock_def)
qed

lemma open_server_eq:
  "\<exists>c. c_kind c = Server \<and> c_host c = fst dest \<and> c_port c = snd dest \<and> \<not> c_connected c \<and> \<not> c_stopped c \<and>
     \<not> c_writing c \<and> \<not> running (c_timer c) \<and> c_buffer_out c = [] \<and> c_context c = k \<and>
     c_encoder c = new_encoder HTTP_REQUEST \<and> c_ssl c = None \<and>
     open_server env k m b dest w =
       (case lock (with_server k b c w) (client_conn (w_contexts w k)) of
          None \<Rightarrow> Inl Assertion_Failed
        | Some i \<Rightarrow>
            if b \<and> \<not> ssl_setup (w_contexts w k)
            then bind_res (make_response SSL_REPLY) (\<lambda>resp. write_message i resp (with_server k b c w))
            else write_message (Suc (w_counter w)) m (with_server k b c w))"
proof -
  obtain c where c: "new_connection (parser env) Server k = Inr c" "c_kind c = Server" "\<not> c_connected c"
    "\<not> c_stopped c" "\<not> c_writing c" "\<not> running (c_timer c)" "c_buffer_out c = []" "c_context c = k"
    "c_encoder c = new_encoder HTTP_REQUEST" "c_ssl c = None"
    using new_server_connection by blast
  let ?c = "c\<lparr>c_host := fst dest, c_port := snd dest\<rparr>"
  let ?v = "with_server k b ?c w"
  have "mgr_add Server (Suc (w_counter w)) (modify (Suc (w_counter w)) (\<lambda>c. c\<lparr>c_host := fst dest, c_port := snd dest\<rparr>)
      ((set_context k (\<lambda>x. x\<lparr>https := b\<rparr>) w)\<lparr>w_conns := (w_conns w)(Suc (w_counter w) \<mapsto> c), w_counter := Suc (w_counter w)\<rparr>)) =
      (set_context k (\<lambda>x. x\<lparr>https := b\<rparr>) w)\<lparr>w_conns := (w_conns w)(Suc (w_counter w) \<mapsto> ?c),
         w_counter := Suc (w_counter w), w_server_mgr := List.insert (Suc (w_counter w)) (w_server_mgr w)\<rparr>" (is "?l = ?r")
    by (simp add: mgr_add_def modify_def set_context_def)
  moreover have "set_context k (\<lambda>x. x\<lparr>server_conn := Some (Suc (w_counter w))\<rparr>) ?r = ?v"
    by (simp add: set_context_def with_server_def Let_def)
  ultimately have "open_server env k m b dest w = (case lock ?v (client_conn (w_contexts w k)) of
      None \<Rightarrow> Inl Assertion_Failed
    | Some i \<Rightarrow> if b \<and> \<not> ssl_setup (w_contexts w k)
        then bind_res (make_response SSL_REPLY) (\<lambda>resp. write_message i resp ?v)
        else write_message (Suc (w_counter w)) m ?v)"
    using c(1) by (simp only: open_server_def make_connection_def Let_def bind_res.simps prod.case fst_conv snd_conv
        set_context_simps set_host_def set_port_def set_server_connection_def)
  then show ?thesis using c(2-) by (intro exI[of _ ?c]) simp
qed

lemma on_client_message_opens:
  assumes "derived m = Request_part meth u" and "authority meth u m = Some a" and "length a \<le> MAX_ALLOC"
    and d: "split_authority (lexical_cast env) (if is_connect meth then 443 else 80) a = Some (h, p)"
    and "completed m" and "lock w (server_conn (w_contexts w k)) = None"
    and l: "lock w (client_conn (w_contexts w k)) = Some i"
  shows "\<exists>c. c_kind c = Server \<and> c_host c = h \<and> c_port c = p \<and> \<not> c_connected c \<and> \<not> c_stopped c \<and>
     \<not> c_writing c \<and> \<not> running (c_timer c) \<and> c_buffer_out c = [] \<and> c_context c = k \<and>
     c_encoder c = new_encoder HTTP_REQUEST \<and>
     on_client_message env k m w =
       (let v = with_server k (https (w_contexts w k) \<or> is_connect meth) c w in
        if (https (w_contexts w k) \<or> is_connect meth) \<and> \<not> ssl_setup (w_contexts w k)
        then bind_res (make_response SSL_REPLY) (\<lambda>resp. write_message i resp v)
        else write_message (Suc (w_counter w)) m v)"
proof -
  let ?b = "https (w_contexts w k) \<or> is_connect meth"
  have "parse_destination (lexical_cast env) m (https (w_contexts w k)) = Inr (?b, Some (h, p))"
    using parse_destination_ok[OF assms(1-3)] d by simp
  then have "on_client_message env k m w = open_server env k m ?b (h, p) w"
    using assms(1,5,6) by (simp add: on_client_message_def Let_def)
  then show ?thesis using open_server_eq[of "(h, p)" k env m ?b w] lock_with_server[OF l] by (auto simp: Let_def)
qed

section \<open>Properties of destinations\<close>

text \<open>
  C24: Where a request goes. For a CONNECT request the destination is its target with port 443 unless a
  port is given, and the context becomes an https one; for any other request it is the value of the
  header \<open>Host\<close> with default port 80. A port that is not a number is an exception, and a request that
  is not CONNECT and has no header of that exact spelling fails an assertion, which ends the process.
\<close>

theorem destination_of_request:
  assumes "derived m = Request_part meth u"
    and "case authority meth u m of None \<Rightarrow> True | Some a \<Rightarrow> length a \<le> MAX_ALLOC"
  shows "parse_destination cast m https0 =
     (case authority meth u m of
        None \<Rightarrow> Inl Assertion_Failed
      | Some a \<Rightarrow> Inr (https0 \<or> is_connect meth,
          split_authority cast (if is_connect meth then 443 else 80) a))"
  using assms by (auto simp: parse_destination_alt code_split_spec split: option.splits)

definition get_request :: "header_map \<Rightarrow> http_message" where
  "get_request hs = \<lparr>major_version = 1, minor_version = 1, headers_done = True, message_done = True,
     headers = hs, body = null_buffer, derived = Request_part ''GET'' ''/''\<rparr>"

theorem destination_of_request_witness:
  "parse_destination (lexical_cast sample_setting) (get_request [(''Host'', ''h.com:8080'')]) False =
     Inr (False, Some (''h.com'', 8080)) \<and>
   parse_destination (lexical_cast sample_setting) (get_request [(''Host'', ''h.com'')]) False =
     Inr (False, Some (''h.com'', 80)) \<and>
   parse_destination (lexical_cast sample_setting) (get_request [(''Host'', ''h.com:x'')]) False =
     Inr (False, None) \<and>
   parse_destination (lexical_cast sample_setting) (get_request [(''host'', ''h.com'')]) False = Inl Assertion_Failed"
  using destination_of_request[of "get_request [(''Host'', ''h.com:8080'')]" "''GET''" "''/''" "lexical_cast sample_setting" False]
    destination_of_request[of "get_request [(''Host'', ''h.com'')]" "''GET''" "''/''" "lexical_cast sample_setting" False]
    destination_of_request[of "get_request [(''Host'', ''h.com:x'')]" "''GET''" "''/''" "lexical_cast sample_setting" False]
    destination_of_request[of "get_request [(''host'', ''h.com'')]" "''GET''" "''/''" "lexical_cast sample_setting" False]
  by (simp add: get_request_def authority_def is_connect_def find_header_def MAX_ALLOC_def split_authority_def
      sample_setting_def)

section \<open>Properties of requests\<close>

text \<open>
  A request without a server connection. A complete request on a context whose client is alive and
  whose server connection does not exist (the first one, or one after the server connection timed
  out) makes a new server connection with a fresh id, known to the manager and the context, for the
  host and port of the request; the bytes queued on it are exactly the serialisation of the request,
  and the look-up of the host is started. Nothing else is changed.
\<close>

theorem request_opens_server:
  assumes "derived m = Request_part meth u" and "authority meth u m = Some a" and "length a \<le> MAX_ALLOC"
    and "split_authority (lexical_cast env) (if is_connect meth then 443 else 80) a = Some (h, p)"
    and "h \<noteq> []" and "p \<noteq> 0" and "completed m" and "sendable (new_encoder HTTP_REQUEST) m"
    and "lock w (server_conn (w_contexts w k)) = None"
    and "lock w (client_conn (w_contexts w k)) = Some i"
    and "\<not> ((https (w_contexts w k) \<or> is_connect meth) \<and> \<not> ssl_setup (w_contexts w k))"
  shows "\<exists>w' c s. on_client_message env k m w = Inr w' \<and> s = Suc (w_counter w) \<and>
           w_conns w' = (w_conns w)(s \<mapsto> c) \<and> c_kind c = Server \<and> c_host c = h \<and> c_port c = p \<and>
           unsent c = serialize m \<and> w_server_mgr w' = List.insert s (w_server_mgr w) \<and>
           server_conn (w_contexts w' k) = Some s \<and> w_ops w' = w_ops w @ [Resolve_op s] \<and>
           w_queue w' = w_queue w \<and> w_client_mgr w' = w_client_mgr w"
proof -
  obtain c where c: "c_kind c = Server" "c_host c = h" "c_port c = p" "\<not> c_connected c" "\<not> c_stopped c"
    "\<not> c_writing c" "\<not> running (c_timer c)" "c_buffer_out c = []" "c_context c = k"
    "c_encoder c = new_encoder HTTP_REQUEST"
    and on: "on_client_message env k m w = write_message (Suc (w_counter w)) m
       (with_server k (https (w_contexts w k) \<or> is_connect meth) c w)"
    using on_client_message_opens[OF assms(1-4,7,9,10)] assms(11) by (auto simp: Let_def)
  let ?v = "with_server k (https (w_contexts w k) \<or> is_connect meth) c w"
  have "w_conns ?v (Suc (w_counter w)) = Some c" by simp
  from write_message_starts_server[OF this c(1,4,5,6,7,8,10)] assms(5,6,8) c(2,3,10) obtain c' where
    "write_message (Suc (w_counter w)) m ?v = Inr (initiate (Resolve_op (Suc (w_counter w)))
       (set_context (c_context c) (\<lambda>x. x\<lparr>server_conn := Some (Suc (w_counter w))\<rparr>)
         (?v\<lparr>w_conns := (w_conns ?v)(Suc (w_counter w) \<mapsto> c')\<rparr>)))"
    "unsent c' = serialize m" "c_kind c' = Server" "c_host c' = h" "c_port c' = p"
    by auto
  then show ?thesis using on c(9) by (auto simp: initiate_def set_context_def)
qed

text \<open>A request and a world whose context has no server connection, for the witnesses.\<close>

definition simple_get :: http_message where
  "simple_get = get_request [(''Host'', ''h.com'')]"

definition client_world :: "bool \<Rightarrow> (parser_view \<times> callback) list list world" where
  "client_world secure = (sample_world (sample_conn Client) (sample_conn Server))
     \<lparr>w_contexts := (\<lambda>_. new_context\<lparr>https := secure, ssl_setup := secure, client_conn := Some 1\<rparr>)\<rparr>"

lemma client_world_simps [simp]:
  "w_contexts (client_world b) k = new_context\<lparr>https := b, ssl_setup := b, client_conn := Some 1\<rparr>"
  "w_conns (client_world b) = [1 \<mapsto> sample_conn Client, 2 \<mapsto> sample_conn Server]"
  "w_counter (client_world b) = 2" "w_server_mgr (client_world b) = [2]" "w_ops (client_world b) = [Signal_op]"
  "lock (client_world b) (Some (Suc 0)) = Some (Suc 0)" "lock (client_world b) None = None"
  by (simp_all add: client_world_def sample_world_def shared_refs_def lock_def)

lemma simple_get_text:
  "serialize simple_get = ''GET / HTTP/1.1'' @ CRLF @ ''Host: h.com'' @ CRLF @ CRLF"
  by (simp add: simple_get_def get_request_def serialize_def start_line_def header_block_def header_line_def body_text_def
      to_string_int_def to_string_nat_def digits_in.simps digit_char_def)

lemma simple_get_sendable: "sendable (new_encoder HTTP_REQUEST) simple_get"
proof -
  have "length (serialize simple_get) \<le> SINK_LIMIT"
    by (simp add: simple_get_text CRLF_def SINK_LIMIT_def)
  then show ?thesis
    by (simp add: sendable_def simple_get_def get_request_def enc_ok_def new_encoder_def msg_ok_def headers_ok_def
        fits_def completed_def)
qed

lemma simple_get_destination [simp]:
  "derived simple_get = Request_part ''GET'' ''/''" "completed simple_get" "is_connect ''GET'' = False"
  "authority ''GET'' ''/'' simple_get = Some ''h.com''" "find_header simple_get ''Host'' = Some ''h.com''"
  "split_authority cast p ''h.com'' = Some (''h.com'', p)"
  by (simp_all add: simple_get_def get_request_def completed_def is_connect_def authority_def find_header_def split_authority_def)

theorem request_opens_server_witness:
  "\<exists>w' c. on_client_message sample_setting 0 simple_get (client_world False) = Inr w' \<and> w_conns w' 3 = Some c \<and>
     unsent c = ''GET / HTTP/1.1'' @ CRLF @ ''Host: h.com'' @ CRLF @ CRLF \<and> c_port c = 80 \<and>
     w_ops w' = [Signal_op, Resolve_op 3]"
proof -
  obtain w' c s where "on_client_message sample_setting 0 simple_get (client_world False) = Inr w'"
    "s = Suc (w_counter (client_world False))" "w_conns w' = (w_conns (client_world False))(s \<mapsto> c)" "c_port c = 80"
    "unsent c = serialize simple_get" "w_ops w' = w_ops (client_world False) @ [Resolve_op s]"
    using request_opens_server[of simple_get "''GET''" "''/''" "''h.com''" sample_setting "''h.com''" 80 "client_world False" 0 1]
      simple_get_sendable
    by (simp add: MAX_ALLOC_def new_context_def) blast
  then show ?thesis by (intro exI[of _ w'] exI[of _ c]) (simp add: simple_get_text)
qed

text \<open>
  C25: A CONNECT request. When its message is complete, its target has a valid port, the context has no
  live server connection and is not set up for encryption, and its client is up with a fresh encoder, it
  makes the server connection for its destination. That connection is added to the manager of server
  connections, so that a signal reaches it, and is the server of the context, which is now an https one;
  it is not started: no look-up is under way. The client is sent the reply to CONNECT, at once when it
  is not already writing, and its queue is otherwise unchanged; its timer is cancelled, so that only its
  aborted handler is queued.
\<close>

theorem connect_is_acknowledged:
  assumes "derived m = Request_part meth u" and "is_connect meth" and "length u \<le> MAX_ALLOC"
    and "split_authority (lexical_cast env) 443 u = Some (h, p)" and "completed m"
    and "lock w (server_conn (w_contexts w k)) = None"
    and "lock w (client_conn (w_contexts w k)) = Some i" and "\<not> ssl_setup (w_contexts w k)"
    and "w_conns w i = Some cc" and "up cc" and "i \<le> w_counter w"
    and "c_encoder cc = new_encoder HTTP_RESPONSE"
  shows "\<exists>w' c cc' s. on_client_message env k m w = Inr w' \<and> s = Suc (w_counter w) \<and>
           w_conns w' = (w_conns w)(s \<mapsto> c, i \<mapsto> cc') \<and> c_kind c = Server \<and> c_host c = h \<and> c_port c = p \<and>
           unsent c = [] \<and> unsent cc' = unsent cc @ connect_reply \<and>
           w_server_mgr w' = List.insert s (w_server_mgr w) \<and> w_client_mgr w' = w_client_mgr w \<and>
           https (w_contexts w' k) \<and> server_conn (w_contexts w' k) = Some s \<and>
           w_queue w' = w_queue w @ (if running (c_timer cc)
             then map (\<lambda>p. Ready p Aborted) (filter (is_timer_of i) (w_ops w)) else []) \<and>
           w_ops w' = (if running (c_timer cc) then filter (\<lambda>p. \<not> is_timer_of i p) (w_ops w) else w_ops w) @
             (case c_buffer_out cc' of [] \<Rightarrow> [] | b # _ \<Rightarrow> if c_writing cc then [] else [Write_op i (bytes b)])"
proof -
  have a: "authority meth u m = Some u" using assms(2) by (simp add: authority_def)
  obtain c where c: "c_kind c = Server" "c_host c = h" "c_port c = p" "c_buffer_out c = []"
    and on: "on_client_message env k m w =
      bind_res (make_response SSL_REPLY) (\<lambda>resp. write_message i resp (with_server k True c w))"
    using on_client_message_opens[OF assms(1) a assms(3) _ assms(5-7), of env h p] assms(2,4,8) by (auto simp: Let_def)
  obtain resp where resp: "make_response SSL_REPLY = Inr resp" "headers_done resp" "completed resp"
    "msg_ok SINK_LIMIT resp" "enc_ok (new_encoder HTTP_RESPONSE) resp" "serialize resp = connect_reply"
    using ssl_reply_message[of SINK_LIMIT] by auto
  have "length connect_reply \<le> SINK_LIMIT" by (simp add: connect_reply_def CRLF_def SINK_LIMIT_def)
  then have "sendable (c_encoder cc) resp" using resp assms(12) by (simp add: sendable_def)
  moreover have "w_conns (with_server k True c w) i = Some cc" using assms(9,11) by simp
  ultimately obtain w' cc' where w': "write_message i resp (with_server k True c w) = Inr w'"
    "w_conns w' = (w_conns (with_server k True c w))(i \<mapsto> cc')"
    "unsent cc' = unsent cc @ connect_reply" "w_contexts w' = w_contexts (with_server k True c w)"
    "w_server_mgr w' = List.insert (Suc (w_counter w)) (w_server_mgr w)" "w_client_mgr w' = w_client_mgr w"
    "w_queue w' = w_queue w @ (if running (c_timer cc)
       then map (\<lambda>p. Ready p Aborted) (filter (is_timer_of i) (w_ops w)) else [])"
    "w_ops w' = (if running (c_timer cc) then filter (\<lambda>p. \<not> is_timer_of i p) (w_ops w) else w_ops w) @
             (case c_buffer_out cc' of [] \<Rightarrow> [] | b # _ \<Rightarrow> if c_writing cc then [] else [Write_op i (bytes b)])"
    using write_message_up[OF _ assms(10), of "with_server k True c w" i resp] assms(12) resp(6)
    by (auto simp: new_encoder_def emitted_def)
  moreover have "on_client_message env k m w = Inr w'" using on resp(1) w'(1) by simp
  moreover have "unsent c = []" using c(4) by (simp add: unsent_def)
  ultimately show ?thesis using c(1-3) by (intro exI[of _ w'] exI[of _ c] exI[of _ cc'] exI) simp
qed

definition connect_request :: http_message where
  "connect_request = (get_request [])\<lparr>derived := Request_part ''CONNECT'' ''h.com:8080''\<rparr>"

theorem connect_is_acknowledged_witness:
  "\<exists>w' c cc'. on_client_message sample_setting 0 connect_request (client_world False) = Inr w' \<and>
     w_conns w' 3 = Some c \<and> c_host c = ''h.com'' \<and> c_port c = 8080 \<and>
     w_conns w' 1 = Some cc' \<and> unsent cc' = connect_reply \<and> 3 \<in> set (w_server_mgr w')"
proof -
  have "up (sample_conn Client)" "c_encoder (sample_conn Client) = new_encoder HTTP_RESPONSE"
    "unsent (sample_conn Client) = []" by (simp_all add: up_def sample_conn_def unsent_def)
  moreover have "split_authority (lexical_cast sample_setting) 443 ''h.com:8080'' = Some (''h.com'', 8080)"
    by (simp add: split_authority_def sample_setting_def)
  ultimately show ?thesis
    using connect_is_acknowledged[of connect_request "''CONNECT''" "''h.com:8080''" sample_setting "''h.com''" 8080
        "client_world False" 0 1 "sample_conn Client"]
    by (simp add: connect_request_def get_request_def is_connect_def completed_def MAX_ALLOC_def new_context_def)
      (elim exE conjE, intro exI conjI, assumption, simp_all)
qed

text \<open>
  The port of a new connection for an encrypted context. After the server connection of an https
  context is gone, the next request, whose header \<open>Host\<close> names no port, opens a connection to port 80
  of the host, not 443, and the context is still an https one, so the TLS handshake is sent there.
\<close>

theorem https_reconnect_uses_port_80:
  assumes "derived m = Request_part meth u" and "\<not> is_connect meth" and "find_header m ''Host'' = Some h"
    and "h \<noteq> []" and "CHR '':'' \<notin> set h" and "length h \<le> MAX_ALLOC"
    and "completed m" and "sendable (new_encoder HTTP_REQUEST) m"
    and "lock w (server_conn (w_contexts w k)) = None"
    and "lock w (client_conn (w_contexts w k)) = Some i"
    and "https (w_contexts w k)" and "ssl_setup (w_contexts w k)"
  shows "\<exists>w' c. on_client_message env k m w = Inr w' \<and> w_conns w' (Suc (w_counter w)) = Some c \<and>
           c_kind c = Server \<and> c_context c = k \<and> c_host c = h \<and> c_port c = 80 \<and>
           w_ops w' = w_ops w @ [Resolve_op (Suc (w_counter w))] \<and> https (w_contexts w' k)"
proof -
  have a: "authority meth u m = Some h" using assms(2,3) by (simp add: authority_def)
  have "dropWhile (\<lambda>c. c \<noteq> CHR '':'') h = []" using assms(5) by (auto simp: dropWhile_eq_Nil_conv)
  then have d: "split_authority (lexical_cast env) 80 h = Some (h, 80)" unfolding split_authority_def by (rule ssubst) simp
  obtain c where c: "c_kind c = Server" "c_host c = h" "c_port c = 80" "\<not> c_connected c" "\<not> c_stopped c"
    "\<not> c_writing c" "\<not> running (c_timer c)" "c_buffer_out c = []" "c_context c = k"
    "c_encoder c = new_encoder HTTP_REQUEST"
    and on: "on_client_message env k m w = write_message (Suc (w_counter w)) m (with_server k True c w)"
    using on_client_message_opens[OF assms(1) a assms(6) _ assms(7,9,10), of env h 80] d assms(2,11,12)
    by (auto simp: Let_def)
  have "w_conns (with_server k True c w) (Suc (w_counter w)) = Some c" by simp
  from write_message_starts_server[OF this c(1,4,5,6,7,8,10)] assms(4,8) on c show ?thesis
    by (fastforce simp: initiate_def set_context_def)
qed

theorem https_reconnect_uses_port_80_witness:
  "\<exists>w' c. on_client_message sample_setting 0 simple_get (client_world True) = Inr w' \<and> w_conns w' 3 = Some c \<and>
     c_port c = 80 \<and> https (w_contexts w' 0)"
  using https_reconnect_uses_port_80[of simple_get "''GET''" "''/''" "''h.com''" "client_world True" 0 1 sample_setting]
    simple_get_sendable
  by (simp add: MAX_ALLOC_def new_context_def) blast

section \<open>Properties of responses\<close>

lemma server_reset_effect:
  assumes "w_conns w s = Some sc"
  shows "\<exists>w' sc'. server_reset api s w = Inr w' \<and> w_conns w' = (w_conns w)(s \<mapsto> sc') \<and>
           w_contexts w' = w_contexts w \<and> unsent sc' = [] \<and> running (c_timer sc') \<and>
           c_stopped sc' = c_stopped sc \<and> c_message sc' = reset_message (c_message sc) \<and>
           c_decoder sc' = reset_decoder api (c_decoder sc) \<and> c_encoder sc' = reset_encoder (c_encoder sc) \<and>
           w_server_mgr w' = w_server_mgr w \<and> w_client_mgr w' = w_client_mgr w \<and>
           (\<not> running (c_timer sc) \<longrightarrow> Timer_op s SERVER_IDLE_WAITING_TIME False \<in> set (w_ops w'))"
proof -
  let ?c = "sc\<lparr>c_buffer_out := [], c_writing := False, c_decoder := reset_decoder api (c_decoder sc),
     c_encoder := reset_encoder (c_encoder sc), c_message := reset_message (c_message sc)\<rparr>"
  let ?w = "reset_codec api s (connection_reset s w)"
  have conns: "w_conns ?w = (w_conns w)(s \<mapsto> ?c)"
    using assms by (intro ext) (simp add: reset_codec_def connection_reset_def)
  have ctx: "w_contexts ?w = w_contexts w" by (simp add: reset_codec_def connection_reset_def)
  have mgrs: "w_server_mgr ?w = w_server_mgr w" "w_client_mgr ?w = w_client_mgr w"
    by (simp_all add: reset_codec_def connection_reset_def)
  show ?thesis
  proof (cases "running (c_timer sc)")
    case True
    then show ?thesis using assms conns ctx mgrs
      by (intro exI[of _ ?w] exI[of _ ?c]) (simp add: server_reset_def timer_start_def conn_def unsent_def)
  next
    case False
    let ?c' = "?c\<lparr>c_timer := (c_timer sc)\<lparr>running := True\<rparr>\<rparr>"
    let ?w' = "modify s (\<lambda>c. c\<lparr>c_timer := (c_timer c)\<lparr>running := True\<rparr>\<rparr>)
        (initiate (Timer_op s SERVER_IDLE_WAITING_TIME False) (cancel_waits s ?w))"
    have "w_conns ?w' = (w_conns w)(s \<mapsto> ?c')" by (rule ext) (simp add: conns initiate_def)
    then show ?thesis using False assms conns ctx mgrs
      by (intro exI[of _ ?w'] exI[of _ ?c']) (simp add: server_reset_def timer_start_def conn_def unsent_def initiate_def)
  qed
qed

text \<open>
  C15: Forwarding a response. When a piece of a response is handed to the context while both connections
  are alive and up and the piece can be encoded, the client's queue is extended by exactly the bytes of
  the serialisation that earlier pieces have not put there. If the response is not complete the server
  is read again; if it is, the exchange is marked as completed. The server connection is then reset and
  kept by its manager, with an idle timer of 15 s when it had none, if the parser says that it can be
  kept alive; otherwise it is stopped and leaves its manager.
\<close>

theorem response_reaches_client:
  assumes "lock w (client_conn (w_contexts w k)) = Some i" and "lock w (server_conn (w_contexts w k)) = Some s"
    and "i \<noteq> s" and "w_conns w i = Some cc" and "w_conns w s = Some sc"
    and "up cc" and "up sc" and "sendable (c_encoder cc) m"
  shows "\<exists>w' cc' sc' rest. on_server_message env k m w = Inr w' \<and> w_conns w' = (w_conns w)(i \<mapsto> cc', s \<mapsto> sc') \<and>
           emitted (c_encoder cc) m @ rest = serialize m \<and> unsent cc' = unsent cc @ rest \<and>
           emitted (c_encoder cc') m = serialize m \<and>
           (if \<not> completed m then sc' = sc \<and> last (w_ops w') = Read_op s \<and> w_contexts w' = w_contexts w
            else exchange_completed (w_contexts w' k) \<and>
              (if keep_alive (parser env) (c_decoder sc)
               then \<not> c_stopped sc' \<and> running (c_timer sc') \<and> unsent sc' = [] \<and>
                    c_message sc' = reset_message (c_message sc) \<and> w_server_mgr w' = w_server_mgr w \<and>
                    (\<not> running (c_timer sc) \<longrightarrow> Timer_op s 15 False \<in> set (w_ops w'))
               else c_stopped sc' \<and> \<not> c_connected sc' \<and>
                    w_server_mgr w' = (if c_managed sc \<and> c_kind sc = Server then remove1 s (w_server_mgr w) else w_server_mgr w)))"
proof -
  obtain w1 cc' rest where w1: "write_message i m w = Inr w1" "w_conns w1 = (w_conns w)(i \<mapsto> cc')"
    "emitted (c_encoder cc) m @ rest = serialize m" "unsent cc' = unsent cc @ rest"
    "emitted (c_encoder cc') m = serialize m" "w_contexts w1 = w_contexts w" "w_server_mgr w1 = w_server_mgr w"
    using write_message_up[OF assms(4,6,8)] by blast
  have s1: "w_conns w1 s = Some sc" using w1(2) assms(3,5) by simp
  let ?w2 = "set_context k (\<lambda>x. x\<lparr>exchange_completed := True\<rparr>) w1"
  have s2: "w_conns ?w2 s = Some sc" using s1 by simp
  have on: "on_server_message env k m w =
      (if \<not> completed m then read s w1
       else if keep_alive (parser env) (c_decoder sc) then server_reset (parser env) s ?w2 else stop s False ?w2)"
    using assms(1,2) w1(1) s2 by (simp add: on_server_message_def Let_def conn_keep_alive_def)
  consider "\<not> completed m" | "completed m" "keep_alive (parser env) (c_decoder sc)"
    | "completed m" "\<not> keep_alive (parser env) (c_decoder sc)" by blast
  then show ?thesis
  proof cases
    case 1
    have "read s w1 = Inr (initiate (Read_op s) w1)" using s1 assms(7) by (simp add: read_def up_def)
    moreover have "(w_conns w)(i \<mapsto> cc', s \<mapsto> sc) = (w_conns w)(i \<mapsto> cc')" using assms(3,5) by auto
    ultimately show ?thesis using 1 on w1
      by (intro exI[of _ "initiate (Read_op s) w1"] exI[of _ cc'] exI[of _ sc] exI[of _ rest]) (simp add: initiate_def)
  next
    case 2
    obtain w' sc' where "server_reset (parser env) s ?w2 = Inr w'" "w_conns w' = (w_conns ?w2)(s \<mapsto> sc')"
      "w_contexts w' = w_contexts ?w2" "unsent sc' = []" "running (c_timer sc')"
      "c_stopped sc' = c_stopped sc" "c_message sc' = reset_message (c_message sc)"
      "w_server_mgr w' = w_server_mgr ?w2" "\<not> running (c_timer sc) \<longrightarrow> Timer_op s 15 False \<in> set (w_ops w')"
      using server_reset_effect[OF s2] unfolding SERVER_IDLE_WAITING_TIME_def by blast
    then show ?thesis using 2 on w1 assms(7)
      by (intro exI[of _ w'] exI[of _ cc'] exI[of _ sc'] exI[of _ rest]) (simp add: set_context_def up_def)
  next
    case 3
    let ?v = "if running (c_timer sc) then cancel_waits s ?w2 else ?w2"
    have "stop s False ?w2 = Inr (halt s False sc ?v)" using stop_eq[OF s2] assms(7) by (simp add: up_def)
    moreover have "w_conns (halt s False sc ?v) = (w_conns ?w2)(s \<mapsto> sc\<lparr>c_connected := False, c_stopped := True\<rparr>)"
      using halt_conns[of ?v s sc False] s2 by simp
    moreover have "w_contexts (halt s False sc ?v) = w_contexts ?w2"
      by (simp add: halt_def Let_def mgr_erase_def cancel_waits_def split: conn_kind.split)
    moreover have "w_server_mgr (halt s False sc ?v) =
        (if c_managed sc \<and> c_kind sc = Server then remove1 s (w_server_mgr w) else w_server_mgr w)"
      using w1(7) by (cases "c_kind sc") (simp_all add: halt_def Let_def mgr_erase_def)
    ultimately show ?thesis using 3 on w1
      by (intro exI[of _ "halt s False sc ?v"] exI[of _ cc'] exI[of _ "sc\<lparr>c_connected := False, c_stopped := True\<rparr>"]
          exI[of _ rest]) (simp add: set_context_def)
  qed
qed

lemma sample_response_sendable:
  assumes "length s \<le> 100"
  shows "sendable (new_encoder HTTP_RESPONSE) (sample_response b s)"
proof -
  have "piece_ok HTTP_RESPONSE 100 1000 (sample_response b s)" by (rule sample_response_ok[OF assms])
  moreover have "fits SINK_LIMIT x" if "fits 100 x" for x using that by (auto simp: fits_def)
  ultimately show ?thesis
    by (auto simp: piece_ok_def sendable_def msg_ok_def enc_ok_def new_encoder_def SINK_LIMIT_def sample_response_def)
qed

theorem response_reaches_client_witness:
  "\<exists>w' cc' sc'. on_server_message sample_setting 0 (sample_response True ''hello'')
       (sample_world (sample_conn Client) (sample_conn Server)) = Inr w' \<and>
     w_conns w' 1 = Some cc' \<and> unsent cc' = serialize (sample_response True ''hello'') \<and>
     w_conns w' 2 = Some sc' \<and> c_stopped sc'"
proof -
  let ?w = "sample_world (sample_conn Client) (sample_conn Server)"
  have l: "lock ?w (client_conn (w_contexts ?w 0)) = Some 1" "lock ?w (server_conn (w_contexts ?w 0)) = Some 2"
    by (simp_all add: lock_def)
  have c: "w_conns ?w 1 = Some (sample_conn Client)" "w_conns ?w 2 = Some (sample_conn Server)"
    "up (sample_conn Client)" "up (sample_conn Server)" "unsent (sample_conn Client) = []"
    "c_encoder (sample_conn Client) = new_encoder HTTP_RESPONSE"
    "keep_alive (parser sample_setting) (c_decoder (sample_conn Server)) = False"
    "emitted (new_encoder HTTP_RESPONSE) (sample_response True ''hello'') = []"
    "completed (sample_response True ''hello'')"
    by (simp_all add: up_def sample_conn_def unsent_def keep_alive_def new_decoder_def new_encoder_def emitted_def
        sample_response_def completed_def)
  have s: "sendable (c_encoder (sample_conn Client)) (sample_response True ''hello'')"
    unfolding c(6) by (rule sample_response_sendable) simp
  show ?thesis
    using response_reaches_client[OF l _ c(1-4) s, of sample_setting] c(5-9)
    by simp (elim exE conjE, intro exI conjI, assumption, simp_all)
qed

end
