(* ===== verification/Quiescence.thy ===== *)
theory Quiescence
  imports NetworkProperties
begin

text \<open>
  Termination of the event loop: when no operation completes, the handlers in the queue run out. Every
  handler may post further ones, cancel waits (whose aborted handlers are then queued) and start new
  operations, so a measure charges a handler in advance for everything it can cause. \<open>drain\<close> runs the
  queue until it is empty, as \<open>io_service::run\<close> in \<open>src/server.cpp\<close> does between two completions.
\<close>

section \<open>The measure\<close>

fun op_cost :: "operation \<Rightarrow> nat" where
  "op_cost (Timer_op i t n) = 1"
| "op_cost (Accept_op i) = 1"
| "op_cost _ = 0"

fun task_cost :: "task \<Rightarrow> nat" where
  "task_cost (Ready p r) = (if r = Aborted \<and> op_cost p = 1 then 1 else 6)"
| "task_cost (Event_task e i) = 3"
| "task_cost (Stop_task i) = 1"

definition energy :: "'p world \<Rightarrow> nat" where
  "energy w = sum_list (map op_cost (w_ops w)) + sum_list (map task_cost (w_queue w)) + of_bool (w_thrown w)"

lemma energy_updates [simp]:
  "energy (modify i f w) = energy w" "energy (set_context k g w) = energy w"
  "energy (mgr_add kd i w) = energy w" "energy (mgr_erase kd i w) = energy w"
  "energy (push_encoded i e b w) = energy w" "energy (detach i w) = energy w"
  "energy (connection_reset i w) = energy w" "energy (reset_codec api i w) = energy w"
  "energy (context_reset k w) = energy w"
  "energy (w\<lparr>w_certs := cm\<rparr>) = energy w" "energy (w\<lparr>w_current := cur\<rparr>) = energy w"
  "energy (w\<lparr>w_next_context := n\<rparr>) = energy w" "energy (w\<lparr>w_client_mgr := l\<rparr>) = energy w"
  "energy (w\<lparr>w_server_mgr := l\<rparr>) = energy w" "energy (w\<lparr>w_pinned := l\<rparr>) = energy w"
  "energy (w\<lparr>w_conns := cs, w_counter := n\<rparr>) = energy w" "energy (release w) = energy w"
  by (auto simp: energy_def mgr_add_def mgr_erase_def push_encoded_def detach_def connection_reset_def
      reset_codec_def context_reset_def release_def split: conn_kind.split)

lemma energy_post [simp]: "energy (post t w) = energy w + task_cost t"
  by (simp add: energy_def)

lemma energy_initiate [simp]: "energy (initiate p w) = energy w + op_cost p"
  by (simp add: energy_def initiate_def)

lemma energy_throw: "energy (w\<lparr>w_thrown := True\<rparr>) \<le> energy w + 1"
  by (simp add: energy_def)

lemma cost_moved:
  "\<forall>p. Q p \<longrightarrow> op_cost p = 1 \<Longrightarrow>
   sum_list (map op_cost (filter (\<lambda>p. \<not> Q p) ps)) + sum_list (map (\<lambda>p. task_cost (Ready p Aborted)) (filter Q ps)) =
   sum_list (map op_cost ps)"
  by (induction ps) auto

lemma is_timer_cost: "is_timer_of i p \<Longrightarrow> op_cost p = 1"
  by (cases p) auto

lemma is_accept_cost: "is_accept p \<Longrightarrow> op_cost p = 1"
  by (cases p) auto

lemma energy_cancel [simp]: "energy (cancel_waits i w) = energy w"
  using cost_moved[of "is_timer_of i" "w_ops w"]
  by (simp add: energy_def cancel_waits_def o_def is_timer_cost del: task_cost.simps)

lemma energy_close [simp]: "energy (close_acceptor w) = energy w"
  using cost_moved[of is_accept "w_ops w"]
  by (simp add: energy_def close_acceptor_def o_def is_accept_cost del: task_cost.simps)

section \<open>What an operation may spend\<close>

definition costs :: "nat \<Rightarrow> 'p world result \<Rightarrow> bool" where
  "costs B m \<longleftrightarrow> whenever m (\<lambda>w. energy w \<le> B)"

lemma costs_simps [simp]:
  "costs B (Inr w) = (energy w \<le> B)" "costs B (Inl e)"
  "costs B (bind_res m f) = whenever m (\<lambda>x. costs B (f x))"
  by (simp_all add: costs_def)

definition spends :: "nat \<Rightarrow> 'p action \<Rightarrow> bool" where
  "spends k f \<longleftrightarrow> (\<forall>w. costs (energy w + k) (f w))"

lemma spendsI: "(\<And>w. costs (energy w + k) (f w)) \<Longrightarrow> spends k f"
  by (simp add: spends_def)

lemma spends_costs: "spends k f \<Longrightarrow> energy w + k \<le> B \<Longrightarrow> costs B (f w)"
  unfolding spends_def costs_def by (erule allE[of _ w], erule whenever_mono) simp

lemma spends_then:
  "spends k f \<Longrightarrow> (\<And>w1. energy w1 \<le> energy w + k \<Longrightarrow> Q w1) \<Longrightarrow> whenever (f w) Q"
  unfolding spends_def costs_def by (erule allE[of _ w], erule whenever_mono) simp

lemma spends_timer_cancel: "spends 0 (timer_cancel i)"
  by (rule spendsI) (simp add: timer_cancel_def)

lemma spends_timer_start: "spends 1 (timer_start i t n)"
  by (rule spendsI) (simp add: timer_start_def)

lemma spends_read: "spends 0 (read i)"
  by (rule spendsI) (simp add: read_def)

lemma spends_start: "spends 0 (start i)"
  by (rule spendsI)
     (auto simp: start_def client_start_def server_start_def server_connect_def Let_def read_def split: conn_kind.split)

lemma energy_halt: "energy (halt i notify c w) = energy w + of_bool notify"
  by (simp add: halt_def Let_def)

lemma spends_stop: "spends (of_bool notify) (stop i notify)"
  by (rule spendsI) (simp add: stop_def energy_halt timer_cancel_def)

lemma spends_on_timer: "spends 1 (on_timer i notify r)"
  by (rule spendsI) (auto simp: on_timer_def Let_def split: outcome.split intro!: spends_costs[OF spends_stop])

lemma spends_do_write: "spends 0 (do_write i)"
  by (rule spendsI) (auto simp: do_write_def split: list.split intro!: spends_costs[OF spends_start])

lemma spends_write_out: "spends 0 (write_out i)"
  by (rule spendsI) (auto simp: write_out_def timer_cancel_def intro!: spends_costs[OF spends_do_write])

lemma spends_write_message: "spends 0 (write_message i m)"
  by (rule spendsI)
     (auto simp: write_message_def timer_cancel_def intro!: whenever_any spends_costs[OF spends_do_write])

lemma spends_on_write: "spends 3 (on_write i)"
  by (rule spendsI)
     (auto simp: on_write_def client_on_write_def server_on_write_def split: conn_kind.split
       intro!: spends_costs[OF spends_read])

lemma spends_on_written: "spends 3 (on_written i r)"
  by (rule spendsI)
     (auto simp: on_written_def Let_def split: outcome.split list.split
       intro!: whenever_any spends_costs[OF spends_do_write] spends_costs[OF spends_on_write] spends_costs[OF spends_stop])

lemma spends_server_reset: "spends 1 (server_reset api i)"
  by (rule spendsI) (auto simp: server_reset_def intro!: spends_costs[OF spends_timer_start])

lemma spends_client_reset: "spends 1 (client_reset api i)"
  by (rule spendsI)
     (auto simp: client_reset_def intro!: spends_then[OF spends_timer_start] spends_costs[OF spends_read])

lemma spends_handshakes: "spends 0 (client_handshake ca d i)" "spends 0 (server_handshake i)"
  by (rule spendsI, simp add: client_handshake_def server_handshake_def switch_to_ssl_def async_handshake_def)+

lemma spends_decoded: "spends 4 (client_decoded i n d m k)" "spends 4 (server_decoded i n d m k)"
  by (rule spendsI, auto simp: client_decoded_def server_decoded_def Let_def intro!: spends_costs[OF spends_stop]
      spends_costs[OF spends_read] spends_costs[OF spends_timer_start])+

lemma spends_on_read: "spends 4 (client_on_read api i r)" "spends 4 (server_on_read api i r)"
  by (rule spendsI, auto simp: client_on_read_def server_on_read_def timer_cancel_def split: outcome.split
      intro!: whenever_any spends_costs[OF spends_stop] spends_costs[OF spends_decoded(1)] spends_costs[OF spends_decoded(2)])+

lemma spends_other_handlers:
  "spends 3 (client_on_handshake api i r)" "spends 3 (server_on_handshake i r)" "spends 3 (server_on_resolve i r)"
  "spends 3 (server_on_connect i r)" "spends 3 (client_on_connect i r)"
  by (rule spendsI, auto simp: client_on_handshake_def server_on_handshake_def server_on_resolve_def
      server_on_connect_def client_on_connect_def split: outcome.split intro!: spends_costs[OF spends_stop])+

section \<open>What the context and the server may spend\<close>

lemma make_connection_energy: "whenever (make_connection api kd k w) (\<lambda>(i, w'). energy w' = energy w)"
  by (auto simp: make_connection_def Let_def intro!: whenever_any)

lemma spends_open_server: "spends 0 (open_server env k m b dest)"
proof (rule spendsI)
  fix w :: "'a world"
  show "costs (energy w + 0) (open_server env k m b dest w)"
    unfolding open_server_def Let_def costs_simps
    by (rule whenever_mono[OF make_connection_energy])
       (auto split: option.split intro!: whenever_any spends_costs[OF spends_write_message])
qed

lemma spends_on_client_message: "spends 1 (on_client_message env k m)"
proof (rule spendsI)
  fix w :: "'a world"
  have "energy ((set_context k f w)\<lparr>w_thrown := True\<rparr>) \<le> energy w + 1" for f
    using energy_throw[of "set_context k f w"] by simp
  then show "costs (energy w + 1) (on_client_message env k m w)"
    by (auto simp: on_client_message_def Let_def split: option.split
        intro!: whenever_any spends_costs[OF spends_write_message] spends_costs[OF spends_open_server])
qed

lemma spends_on_server_message: "spends 1 (on_server_message env k m)"
  by (rule spendsI)
     (auto simp: on_server_message_def Let_def conn_keep_alive_def split: option.split
       intro!: spends_then[OF spends_write_message] spends_costs[OF spends_read] spends_costs[OF spends_server_reset]
         spends_costs[OF spends_stop])

lemma spends_on_client_event: "spends 1 (on_client_event env ev i)"
  by (rule spendsI)
     (auto simp: on_client_event_def Let_def conn_keep_alive_def split: connection_event.split option.split
       intro!: whenever_any spends_costs[OF spends_on_client_message] spends_costs[OF spends_handshakes(1)]
         spends_then[OF spends_client_reset] spends_costs[OF spends_stop] spends_costs[OF spends_read])

lemma spends_on_server_event: "spends 1 (on_server_event env ev i)"
  by (rule spendsI)
     (auto simp: on_server_event_def Let_def split: connection_event.split
       intro!: spends_costs[OF spends_on_server_message] spends_costs[OF spends_handshakes(2)] spends_costs[OF spends_write_out])

lemma spends_on_stop: "spends 0 (on_stop k i)"
  by (rule spendsI) (auto simp: on_stop_def Let_def split: option.split intro!: spends_costs[OF spends_stop])

lemma spends_start_accept: "spends 1 (start_accept env)"
proof (rule spendsI)
  fix w :: "'a world"
  show "costs (energy w + 1) (start_accept env w)"
    unfolding start_accept_def Let_def costs_simps
    by (rule whenever_mono[OF make_connection_energy]) auto
qed

lemma spends_on_accept: "spends (if r = Aborted then 0 else 1) (on_accept env i r)"
  by (rule spendsI)
     (auto simp: on_accept_def Let_def split: option.split outcome.split
       intro!: energy_throw[THEN order_trans] spends_then[OF spends_start] spends_costs[OF spends_start_accept])

lemma spends_stop_all: "spends 0 (stop_all kd)"
proof (rule spendsI)
  fix w :: "'a world"
  have "whenever (fold_res stop_one is w) (\<lambda>w1. energy w1 \<le> energy w)" for "is"
    by (rule whenever_fold_res)
       (auto simp: stop_one_def intro!: spends_then[OF spends_stop])
  then show "costs (energy w + 0) (stop_all kd w)"
    unfolding stop_all_def costs_simps
    by (rule whenever_mono) (auto split: conn_kind.split)
qed

lemma spends_on_signal: "spends 0 on_signal"
  by (rule spendsI) (auto simp: on_signal_def intro!: spends_then[OF spends_stop_all])

section \<open>Every handler costs something\<close>

text \<open>A handler that is run pays less than it was charged when it was queued.\<close>

lemma spends_ready: "spends (if r = Aborted \<and> op_cost p = 1 then 0 else 5) (run_task env (Ready p r))"
proof (rule spendsI)
  fix w :: "'a world"
  let ?k = "if r = Aborted \<and> op_cost p = 1 then 0 else 5 :: nat"
  show "costs (energy w + ?k) (run_task env (Ready p r) w)"
  proof (cases p)
    case (Timer_op i t n)
    show ?thesis
    proof (cases "r = Aborted")
      case True
      then show ?thesis using Timer_op by (simp add: on_timer_def)
    next
      case False
      then show ?thesis using Timer_op by (auto intro!: spends_costs[OF spends_on_timer])
    qed
  qed (auto split: conn_kind.split
      intro!: spends_costs[OF spends_on_read(1)] spends_costs[OF spends_on_read(2)] spends_costs[OF spends_on_written]
        spends_costs[OF spends_other_handlers(1)] spends_costs[OF spends_other_handlers(2)] spends_costs[OF spends_other_handlers(3)]
        spends_costs[OF spends_other_handlers(4)] spends_costs[OF spends_other_handlers(5)]
        spends_costs[OF spends_on_accept] spends_costs[OF spends_on_signal])
qed

lemma spends_run_task: "\<exists>k < task_cost t. spends k (run_task env t)"
proof (cases t)
  case (Ready p r)
  have "(if r = Aborted \<and> op_cost p = 1 then 0 else 5) < task_cost t" using Ready by simp
  then show ?thesis using spends_ready[of r p env] unfolding Ready by blast
next
  case (Event_task ev i)
  have "spends 1 (run_task env t)" unfolding Event_task
    by (rule spendsI)
       (auto split: conn_kind.split intro!: spends_costs[OF spends_on_client_event] spends_costs[OF spends_on_server_event])
  then show ?thesis using Event_task by (intro exI[of _ 1]) simp
next
  case (Stop_task i)
  have "spends 0 (run_task env t)" unfolding Stop_task
    by (rule spendsI) (auto intro!: spends_costs[OF spends_on_stop])
  then show ?thesis using Stop_task by (intro exI[of _ 0]) simp
qed

lemma spends_restart: "spends 0 (restart env)"
proof (rule spendsI)
  fix w :: "'a world"
  have "energy w = energy (w\<lparr>w_thrown := False\<rparr>) + 1" if "w_thrown w" using that by (simp add: energy_def)
  then show "costs (energy w + 0) (restart env w)"
    by (auto simp: restart_def intro!: spends_costs[OF spends_start_accept])
qed

lemma dispatch_decreases:
  assumes "dispatch env w = Some (Inr w')"
  shows "energy w' < energy w"
proof -
  obtain t q where q: "w_queue w = t # q" using assms by (cases "w_queue w") (auto simp: dispatch_def)
  let ?w = "w\<lparr>w_queue := q, w_pinned := task_refs t\<rparr>"
  obtain k where k: "k < task_cost t" "spends k (run_task env t)" using spends_run_task by blast
  have "costs (energy ?w + k) (bind_res (run_task env t ?w) (\<lambda>w1.
          bind_res (restart env (release w1)) (\<lambda>w2. Inr (release w2))))"
    by (auto intro!: spends_then[OF k(2)] spends_then[OF spends_restart])
  moreover have "bind_res (run_task env t ?w) (\<lambda>w1. bind_res (restart env (release w1)) (\<lambda>w2. Inr (release w2))) = Inr w'"
    using assms q by (simp add: dispatch_def)
  moreover have "energy w = energy ?w + task_cost t" using q by (simp add: energy_def)
  ultimately show ?thesis using k(1) by (simp del: bind_res_eq_Inr)
qed

section \<open>Draining the queue\<close>

fun drain :: "'p setting \<Rightarrow> nat \<Rightarrow> 'p world \<Rightarrow> 'p world result option" where
  "drain env n w =
     (case dispatch env w of
        None \<Rightarrow> Some (Inr w)
      | Some (Inl f) \<Rightarrow> Some (Inl f)
      | Some (Inr w') \<Rightarrow> (case n of 0 \<Rightarrow> None | Suc m \<Rightarrow> drain env m w'))"

declare drain.simps [simp del]

lemma drain_ends:
  "energy w \<le> n \<Longrightarrow> \<exists>r. drain env n w = Some r \<and> (case r of Inl f \<Rightarrow> True | Inr w' \<Rightarrow> w_queue w' = [])"
proof (induction n arbitrary: w)
  case 0
  then show ?case
    using dispatch_decreases[of env w]
    by (auto simp: drain.simps[of env 0] dispatch_def split: list.splits sum.splits)
next
  case (Suc n)
  show ?case
  proof (cases "dispatch env w")
    case None
    then show ?thesis by (auto simp: drain.simps[of env "Suc n"] dispatch_def split: list.splits)
  next
    case (Some q)
    show ?thesis
    proof (cases q)
      case (Inl f)
      then show ?thesis using Some by (simp add: drain.simps[of env "Suc n"])
    next
      case (Inr w')
      then have "energy w' \<le> n" using dispatch_decreases Some Suc.prems by fastforce
      then show ?thesis using Suc.IH[of w'] Some Inr by (simp add: drain.simps[of env "Suc n"])
    qed
  qed
qed

text \<open>
  C21: The handlers run out. Whatever is queued, the event loop, left to itself, runs at most as many
  handlers as the measure says and then has an empty queue and waits, or has ended in a fault: no
  chain of posted events, stop requests and cancelled timers keeps it busy for ever.
\<close>

theorem handlers_run_out:
  "\<exists>r. drain env (energy w) w = Some r \<and> (case r of Inl f \<Rightarrow> True | Inr w' \<Rightarrow> w_queue w' = [])"
  by (rule drain_ends) simp

end
