(* ===== verification/Relay.thy ===== *)
theory Relay
  imports Exchanges Quiescence
begin

text \<open>
  A response on its way through the whole program: the reads of the server complete, the event loop runs
  the handlers, the decoder takes the data apart, the context hands the message to the client, the
  encoder puts it together again. The lemmas follow the decoder call by call, and the loop read by read.
\<close>

section \<open>A response that arrives call by call\<close>

definition response_head :: "parser_view \<Rightarrow> string \<Rightarrow> fragments list \<Rightarrow> (parser_view \<times> callback) list" where
  "response_head v t hs = (v, On_message_begin) # (v, On_status t) # header_calls v hs @ [(v, On_headers_complete)]"

lemma response_calls_split:
  "response_calls v t hs ps = response_head v t hs @ map (\<lambda>x. (v, On_body x)) ps @ [(v, On_message_complete)]"
  by (simp add: response_calls_def response_head_def)

text \<open>The body after \<open>j\<close> of the calls that follow the headers, and the message after \<open>n\<close> calls.\<close>

definition pieces :: "parser_view \<Rightarrow> string list \<Rightarrow> nat \<Rightarrow> string" where
  "pieces v ps j = concat (map (framed (pv_chunked v)) (take j ps)) @ (if length ps < j then closing (pv_chunked v) else [])"

definition arrived :: "parser_view \<Rightarrow> string \<Rightarrow> fragments list \<Rightarrow> string list \<Rightarrow> nat \<Rightarrow> http_message \<Rightarrow> bool" where
  "arrived v t hs ps n m \<longleftrightarrow> matches HTTP_RESPONSE (derived m) \<and>
     (message_done m \<longleftrightarrow> n = length (response_calls v t hs ps)) \<and>
     (headers_done m \<longleftrightarrow> length (response_head v t hs) \<le> n) \<and>
     (headers_done m \<longrightarrow> msg_ok SINK_LIMIT m \<and>
        complete_message v (Response_part (pv_status v) t) (decoded_headers hs)
          (pieces v ps (n - length (response_head v t hs))) (m\<lparr>message_done := True\<rparr>))"

fun plain_call :: "parser_view \<times> callback \<Rightarrow> bool" where
  "plain_call (v, k) = (case k of On_message_begin \<Rightarrow> True | On_status t \<Rightarrow> True
     | On_header_field x \<Rightarrow> True | On_header_value x \<Rightarrow> True | _ \<Rightarrow> False)"

definition unread :: "http_message \<Rightarrow> bool" where
  "unread m \<longleftrightarrow> matches HTTP_RESPONSE (derived m) \<and> \<not> headers_done m \<and> \<not> message_done m"

lemma plain_call_unread: "plain_call c \<Longrightarrow> unread (snd s) \<Longrightarrow> whenever (run_callback c s) (\<lambda>s'. unread (snd s'))"
  by (cases c; cases "snd c"; cases s; cases "derived (snd s)")
     (auto simp: unread_def on_message_begin_def on_status_def on_header_field_def on_header_value_def
        set_status_message_def add_header_def)

lemma plain_calls_unread:
  "list_all plain_call cs \<Longrightarrow> unread m \<Longrightarrow> whenever (fold_res run_callback cs (d, m)) (\<lambda>s'. unread (snd s'))"
  by (rule whenever_fold_res) (auto simp: list_all_iff intro: plain_call_unread)

lemma response_head_plain:
  assumes "n < length (response_head v t hs)"
  shows "list_all plain_call (take n (response_head v t hs))"
proof -
  have "list_all plain_call ((v, On_message_begin) # (v, On_status t) # header_calls v hs)"
    by (auto simp: header_calls_def list_all_iff)
  moreover have "set (take n (response_head v t hs)) \<subseteq> set ((v, On_message_begin) # (v, On_status t) # header_calls v hs)"
    using assms set_take_subset[of n "(v, On_message_begin) # (v, On_status t) # header_calls v hs"]
    by (simp add: response_head_def take_Cons' split: if_splits)
  ultimately show ?thesis by (auto simp: list_all_iff)
qed

text \<open>A new message for a response, and the decoder that is given it.\<close>

definition fresh :: "http_message \<Rightarrow> bool" where
  "fresh m \<longleftrightarrow> unread m \<and> msg_ok SINK_LIMIT m \<and> headers m = [] \<and> body_text m = []"

definition first_state :: "'p parser_api \<Rightarrow> 'p http_decoder" where
  "first_state api = (new_decoder api HTTP_RESPONSE)\<lparr>dec_has_message := True\<rparr>"

lemma response_head_runs:
  assumes "fresh m" and "hs \<noteq> []" and "list_all fragments_ok hs"
  shows "\<exists>d' m'. fold_res run_callback (response_head v t hs) (first_state api, m) = Inr (d', m') \<and>
           dec_has_message d' \<and> dec_chunked d' = pv_chunked v \<and> msg_ok SINK_LIMIT m' \<and>
           complete_message v (Response_part (pv_status v) t) (decoded_headers hs) [] (m'\<lparr>message_done := True\<rparr>) \<and>
           \<not> message_done m'"
proof -
  let ?m = "m\<lparr>derived := Response_part (pv_status v) t\<rparr>"
  have "run_callback (v, On_message_begin) (first_state api, m) = Inr (first_state api, m)"
    by (simp add: on_message_begin_def first_state_def new_decoder_def)
  moreover have "run_callback (v, On_status t) (first_state api, m) = Inr (first_state api, ?m)"
    using assms(1) by (cases "derived m")
      (simp_all add: on_status_def first_state_def set_status_message_def fresh_def unread_def)
  moreover obtain d' m' where "fold_res run_callback (header_calls v hs @ [(v, On_headers_complete)]) (first_state api, ?m) = Inr (d', m')"
    "dec_has_message d'" "dec_chunked d' = pv_chunked v" "msg_ok SINK_LIMIT m'"
    "complete_message v (derived ?m) (decoded_headers hs) [] (m'\<lparr>message_done := True\<rparr>)" "message_done m' = message_done ?m"
    using headers_of_message[of "first_state api" SINK_LIMIT ?m hs v] assms
    by (auto simp: fresh_def first_state_def new_decoder_def msg_ok_def body_text_def)
  ultimately show ?thesis using assms(1) by (simp add: response_head_def fresh_def unread_def)
qed

lemma calls_arrive:
  assumes m: "fresh m" and hs: "hs \<noteq> []" "list_all fragments_ok hs" and len: "length (decoded_body v ps) \<le> SINK_LIMIT"
    and n: "n \<le> length (response_calls v t hs ps)"
  shows "\<exists>d' m'. fold_res run_callback (take n (response_calls v t hs ps)) (first_state api, m) = Inr (d', m') \<and>
           dec_has_message d' \<and> arrived v t hs ps n m'"
proof -
  let ?H = "response_head v t hs"
  have has: "dec_has_message d'" if "fold_res run_callback cs (first_state api, m) = Inr (d', m')" for cs d' m'
    using fold_callbacks_has_message[of "(first_state api, m)" cs] that by (simp add: first_state_def)
  obtain d1 m1 where 1: "fold_res run_callback ?H (first_state api, m) = Inr (d1, m1)" "dec_has_message d1"
    "dec_chunked d1 = pv_chunked v" "msg_ok SINK_LIMIT m1"
    "complete_message v (Response_part (pv_status v) t) (decoded_headers hs) [] (m1\<lparr>message_done := True\<rparr>)" "\<not> message_done m1"
    using response_head_runs[OF m hs] by blast
  have L: "length (response_calls v t hs ps) = length ?H + length ps + 1" by (simp add: response_calls_split)
  show ?thesis
  proof (cases "n < length ?H")
    case True
    have "fold_res run_callback ?H (first_state api, m) =
        bind_res (fold_res run_callback (take n ?H) (first_state api, m)) (fold_res run_callback (drop n ?H))"
      using fold_res_append[of run_callback "take n ?H" "drop n ?H" "(first_state api, m)"] by simp
    then obtain d' m' where r: "fold_res run_callback (take n ?H) (first_state api, m) = Inr (d', m')"
      using 1(1) by (cases "fold_res run_callback (take n ?H) (first_state api, m)") auto
    then have "unread m'"
      using plain_calls_unread[OF response_head_plain[OF True], of m "first_state api"] m by (simp add: fresh_def)
    moreover have "take n (response_calls v t hs ps) = take n ?H" using True by (simp add: response_calls_split)
    ultimately show ?thesis using r has[OF r] True L by (auto simp: arrived_def unread_def)
  next
    case False
    define j where "j = n - length ?H"
    have n': "n = length ?H + j" using False by (simp add: j_def)
    have "length (concat (map (framed (pv_chunked v)) (take j ps))) \<le> length (concat (map (framed (pv_chunked v)) (take j ps @ drop j ps)))"
      unfolding map_append concat_append by simp
    then have "length (concat (map (framed (pv_chunked v)) (take j ps))) \<le> SINK_LIMIT"
      using len by (simp add: decoded_body_def)
    from body_of_message[OF 1(2-5) this] obtain m2 where
      2: "fold_res run_callback (map (\<lambda>x. (v, On_body x)) (take j ps)) (d1, m1) = Inr (d1, m2)" "msg_ok SINK_LIMIT m2"
      "complete_message v (Response_part (pv_status v) t) (decoded_headers hs) (concat (map (framed (pv_chunked v)) (take j ps)))
         (m2\<lparr>message_done := True\<rparr>)" "\<not> message_done m2"
      using 1(6) by blast
    show ?thesis
    proof (cases "j \<le> length ps")
      case True
      then have "take n (response_calls v t hs ps) = ?H @ map (\<lambda>x. (v, On_body x)) (take j ps)"
        by (simp add: response_calls_split n' take_map)
      then show ?thesis using 1(1,2) 2 True n' L
        by (intro exI[of _ d1] exI[of _ m2]) (auto simp: fold_res_append arrived_def pieces_def complete_message_def)
    next
      case f: False
      then have j: "j = Suc (length ps)" using n n' L by simp
      obtain m3 where 3: "run_callback (v, On_message_complete) (d1, m2) = Inr (d1\<lparr>dec_message_done := True\<rparr>, m3)"
        "msg_ok SINK_LIMIT m3" "complete_message v (Response_part (pv_status v) t) (decoded_headers hs) (decoded_body v ps) m3"
        using end_of_message[OF 1(2,3) 2(2,3)] len j by (auto simp: decoded_body_def)
      have "take n (response_calls v t hs ps) = response_calls v t hs ps" using n' L j by simp
      moreover have "body_text (m3\<lparr>message_done := True\<rparr>) = body_text m3" by (simp add: body_text_def)
      ultimately show ?thesis using 1(1,2) 2(1) 3 j n' L
        by (intro exI[of _ "d1\<lparr>dec_message_done := True\<rparr>"] exI[of _ m3])
           (auto simp: response_calls_split fold_res_append arrived_def pieces_def complete_message_def decoded_body_def)
    qed
  qed
qed

section \<open>What is sent of a response\<close>

definition response_text :: "parser_view \<Rightarrow> string \<Rightarrow> fragments list \<Rightarrow> string \<Rightarrow> string" where
  "response_text v t hs b =
     ''HTTP/'' @ to_string_int (pv_major v) @ ''.'' @ to_string_int (pv_minor v) @ '' '' @ to_string_nat (pv_status v) @
     '' '' @ t @ CRLF @ concat (map header_line (decoded_headers hs)) @ CRLF @ b"

lemma arrived_serialize:
  "arrived v t hs ps n m \<Longrightarrow> headers_done m \<Longrightarrow>
     serialize m = response_text v t hs (pieces v ps (n - length (response_head v t hs)))"
  by (simp add: arrived_def complete_message_def serialize_def start_line_def header_block_def response_text_def body_text_def)

lemma pieces_grow: "j \<le> j' \<Longrightarrow> \<exists>r. pieces v ps j' = pieces v ps j @ r"
proof -
  assume j: "j \<le> j'"
  show ?thesis
  proof (cases "length ps < j")
    case False
    have "take j' ps = take j ps @ take (j' - j) (drop j ps)" using j by (metis le_add_diff_inverse take_add)
    then show ?thesis using False by (simp add: pieces_def)
  qed (use j in \<open>simp add: pieces_def\<close>)
qed

lemma pieces_all: "pieces v ps (Suc (length ps)) = decoded_body v ps"
  by (simp add: pieces_def decoded_body_def)

lemma arrived_grows:
  assumes "arrived v t hs ps n m" and "arrived v t hs ps n' m'" and "n \<le> n'" and "headers_done m"
  shows "grows m m'"
proof -
  let ?h = "length (response_head v t hs)"
  have "n - ?h \<le> n' - ?h" using assms(3) by simp
  from pieces_grow[OF this, of v ps] obtain r where "pieces v ps (n' - ?h) = pieces v ps (n - ?h) @ r" by blast
  moreover have "headers_done m'" using assms by (simp add: arrived_def)
  moreover have "body_text (x\<lparr>message_done := b\<rparr>) = body_text x" for x b by (simp add: body_text_def)
  ultimately show ?thesis using assms
    by (auto simp: arrived_def grows_def complete_message_def start_line_def)
qed

lemma arrived_size:
  assumes "arrived v t hs ps n m" and "headers_done m" and "n \<le> length (response_calls v t hs ps)"
    and "length (response_text v t hs (decoded_body v ps)) \<le> N"
  shows "length (serialize m) \<le> N"
proof -
  have "n - length (response_head v t hs) \<le> Suc (length ps)" using assms(3) by (simp add: response_calls_split)
  from pieces_grow[OF this, of v ps] obtain r where
    "pieces v ps (Suc (length ps)) = pieces v ps (n - length (response_head v t hs)) @ r" by blast
  then show ?thesis using assms(4) arrived_serialize[OF assms(1,2)] by (simp add: pieces_all response_text_def)
qed

text \<open>The encoder of the client, which was given the message so far.\<close>

definition fed :: "http_encoder \<Rightarrow> http_message \<Rightarrow> bool" where
  "fed e m \<longleftrightarrow> enc_type e = HTTP_RESPONSE \<and>
     (if headers_done m then enc_ok e m \<and> enc_state e = BODY \<and> emitted e m = serialize m
      else enc_state e = BEGIN \<and> body_encoded e = 0)"

definition sent_of :: "http_message \<Rightarrow> string" where
  "sent_of m = (if headers_done m then serialize m else [])"

lemma fed_sendable:
  assumes e: "fed e m" and m: "arrived v t hs ps n m" "arrived v t hs ps n' m'" "n \<le> n'" "headers_done m'"
    and n: "n' \<le> length (response_calls v t hs ps)"
    and len: "length (response_text v t hs (decoded_body v ps)) \<le> SINK_LIMIT"
  shows "sendable e m' \<and> emitted e m' = sent_of m"
proof -
  have ok: "msg_ok SINK_LIMIT m'" "matches (enc_type e) (derived m')" using m(2,4) e by (simp_all add: arrived_def fed_def)
  have "enc_ok e m' \<and> enc_state e \<noteq> END \<and> emitted e m' = sent_of m"
  proof (cases "headers_done m")
    case True
    then show ?thesis
      using emitted_grows[of e m m'] arrived_grows[OF m(1-3)] e ok(2) by (simp add: fed_def sent_of_def)
  next
    case False
    then show ?thesis using e ok(2) by (simp add: fed_def sent_of_def enc_ok_def emitted_def)
  qed
  then show ?thesis using ok(1) m(4) arrived_size[OF m(2,4) n len] by (simp add: sendable_def)
qed

section \<open>Running the queue\<close>

inductive run_queue :: "'p setting \<Rightarrow> 'p world \<Rightarrow> 'p world \<Rightarrow> bool" for env where
  Empty: "w_queue w = [] \<Longrightarrow> run_queue env w w"
| Next: "dispatch env w = Some (Inr v) \<Longrightarrow> run_queue env v w' \<Longrightarrow> run_queue env w w'"

lemma run_queue_drain:
  assumes "run_queue env w w'"
  shows "drain env (energy w) w = Some (Inr w')"
proof -
  have same: "drain env n w = Some r \<Longrightarrow> r = Inr w'" for n r
    using assms
  proof (induction arbitrary: n r)
    case (Empty w)
    then show ?case by (simp add: drain.simps[of env n] dispatch_def)
  next
    case (Next w v w')
    show ?case using Next.hyps(1) Next.IH Next.prems by (cases n) (auto simp: drain.simps[of env _ w])
  qed
  obtain r where "drain env (energy w) w = Some r" using drain_ends[of w "energy w" env] by auto
  with same show ?thesis by blast
qed

lemma release_again: "release (release w) = release w"
  by (simp add: release_def shared_refs_def)

lemma dispatch_one:
  assumes "w_queue w = t # q" and "run_task env t (w\<lparr>w_queue := q, w_pinned := task_refs t\<rparr>) = Inr v" and "\<not> w_thrown v"
  shows "dispatch env w = Some (Inr (release v))"
  using assms by (simp add: dispatch_def restart_def release_again) (simp add: release_def)

lemma release_held: "j \<in> set (shared_refs w) \<Longrightarrow> w_conns (release w) j = w_conns w j"
  by (simp add: release_def)

lemma release_rest [simp]:
  "w_queue (release w) = w_queue w" "w_ops (release w) = w_ops w" "w_contexts (release w) = w_contexts w"
  "w_client_mgr (release w) = w_client_mgr w" "w_server_mgr (release w) = w_server_mgr w"
  "w_thrown (release w) = w_thrown w"
  by (simp_all add: release_def)

text \<open>Handlers of aborted waits only take back the flags of the timers.\<close>

fun aborted_wait :: "nat set \<Rightarrow> task \<Rightarrow> bool" where
  "aborted_wait D (Ready (Timer_op j a b) r) = (r = Aborted \<and> j \<in> D)"
| "aborted_wait D _ = False"

lemma aborted_waits_run:
  assumes "list_all (aborted_wait D) (w_queue w)" and "D \<subseteq> dom (w_conns w)" and "\<not> w_thrown w"
  shows "\<exists>w'. run_queue env w w' \<and> w_queue w' = [] \<and> \<not> w_thrown w' \<and> w_ops w' = w_ops w \<and> w_contexts w' = w_contexts w \<and>
           w_client_mgr w' = w_client_mgr w \<and> w_server_mgr w' = w_server_mgr w \<and>
           (\<forall>j c. j \<in> set (w_client_mgr w) \<union> set (w_server_mgr w) \<longrightarrow> w_conns w j = Some c \<longrightarrow>
              (\<exists>r. w_conns w' j = Some (c\<lparr>c_timer := r\<rparr>) \<and> (j \<notin> D \<longrightarrow> r = c_timer c)))"
  using assms
proof (induction "w_queue w" arbitrary: w D)
  case Nil
  have "w_conns w j = Some c \<Longrightarrow> \<exists>r. w_conns w j = Some (c\<lparr>c_timer := r\<rparr>) \<and> (j \<notin> D \<longrightarrow> r = c_timer c)" for j c
    by (intro exI[of _ "c_timer c"]) simp
  then show ?case using Nil run_queue.Empty[of w env] by (intro exI[of _ w]) auto
next
  case (Cons x q)
  note q = Cons.hyps(2)[symmetric]
  obtain i a b where x: "x = Ready (Timer_op i a b) Aborted" "i \<in> D"
    using Cons.prems(1) unfolding q by (auto elim: aborted_wait.elims)
  obtain ci where ci: "w_conns w i = Some ci" using x(2) Cons.prems(2) by auto
  define v where "v = modify i (\<lambda>c. c\<lparr>c_timer := (c_timer c)\<lparr>running := False\<rparr>\<rparr>) (w\<lparr>w_queue := q, w_pinned := [i]\<rparr>)"
  have "run_task env x (w\<lparr>w_queue := q, w_pinned := task_refs x\<rparr>) = Inr v"
    using ci x by (simp add: on_timer_def conn_def v_def Let_def)
  then have d: "dispatch env w = Some (Inr (release v))"
    using q Cons.prems(3) by (intro dispatch_one) (simp_all add: v_def)
  have v: "w_queue v = q" "w_ops v = w_ops w" "w_contexts v = w_contexts w" "w_client_mgr v = w_client_mgr w"
    "w_server_mgr v = w_server_mgr w" "w_thrown v = w_thrown w" by (simp_all add: v_def)
  have tl: "list_all (aborted_wait D) q" using Cons.prems(1) unfolding q by simp
  let ?D = "{j. \<exists>a b. Ready (Timer_op j a b) Aborted \<in> set q}"
  have sub: "?D \<subseteq> D" using tl by (force simp: list_all_iff)
  have tl': "list_all (aborted_wait ?D) q"
    using tl by (auto simp: list_all_iff dest!: bspec elim!: aborted_wait.elims) blast
  have dom: "?D \<subseteq> dom (w_conns (release v))"
  proof
    fix j assume j: "j \<in> ?D"
    then have "j \<in> set (shared_refs v)" by (force simp: shared_refs_def v)
    moreover have "w_conns v j \<noteq> None" using j sub Cons.prems(2) by (auto simp: v_def)
    ultimately show "j \<in> dom (w_conns (release v))" by (simp add: release_held domIff)
  qed
  have "q = w_queue (release v)" "list_all (aborted_wait ?D) (w_queue (release v))" "\<not> w_thrown (release v)"
    using tl' v Cons.prems(3) by simp_all
  from Cons.hyps(1)[OF this(1,2) dom this(3)] obtain w' where w': "run_queue env (release v) w'"
    "w_queue w' = []" "\<not> w_thrown w'" "w_ops w' = w_ops w" "w_contexts w' = w_contexts w"
    "w_client_mgr w' = w_client_mgr w" "w_server_mgr w' = w_server_mgr w"
    "\<And>j c. j \<in> set (w_client_mgr w) \<union> set (w_server_mgr w) \<Longrightarrow> w_conns (release v) j = Some c \<Longrightarrow>
       \<exists>r. w_conns w' j = Some (c\<lparr>c_timer := r\<rparr>) \<and> (j \<notin> ?D \<longrightarrow> r = c_timer c)"
    unfolding release_rest v by blast
  have "\<exists>r. w_conns w' j = Some (c\<lparr>c_timer := r\<rparr>) \<and> (j \<notin> D \<longrightarrow> r = c_timer c)"
    if j: "j \<in> set (w_client_mgr w) \<union> set (w_server_mgr w)" "w_conns w j = Some c" for j c
  proof -
    have "j \<in> set (shared_refs v)" using j(1) v by (auto simp: shared_refs_def)
    then have r: "w_conns (release v) j = w_conns v j" by (rule release_held)
    show ?thesis
    proof (cases "j = i")
      case True
      then have "w_conns (release v) j = Some (c\<lparr>c_timer := (c_timer c)\<lparr>running := False\<rparr>\<rparr>)" using j(2) r by (simp add: v_def)
      from w'(8)[OF j(1) this] show ?thesis using True x(2) by auto
    next
      case False
      then have "w_conns (release v) j = Some c" using j(2) r by (simp add: v_def)
      from w'(8)[OF j(1) this] show ?thesis using sub by blast
    qed
  qed
  then show ?case using run_queue.Next[OF d w'(1)] w'(2-7) by blast
qed

section \<open>The state of the exchange between two reads\<close>

text \<open>
  \<open>n\<close> callbacks have been made: client \<open>i\<close> and server \<open>s\<close> of the context \<open>k\<close> are up, the next read of the
  server is pending, and the client was given what has arrived.
\<close>

definition decoded_to :: "'p parser_api \<Rightarrow> parser_view \<Rightarrow> string \<Rightarrow> fragments list \<Rightarrow> string list \<Rightarrow> http_message \<Rightarrow> nat \<Rightarrow> 'p \<Rightarrow>
    'p connection \<Rightarrow> bool" where
  "decoded_to api v t hs ps m0 n p c \<longleftrightarrow> arrived v t hs ps n (c_message c) \<and>
     (\<exists>d. fold_res run_callback (take n (response_calls v t hs ps)) (first_state api, m0) = Inr (d, c_message c) \<and>
        (c_decoder c)\<lparr>dec_has_message := True\<rparr> = d\<lparr>dec_parser := p\<rparr>)"

definition paired :: "nat \<Rightarrow> nat \<Rightarrow> nat \<Rightarrow> 'p connection \<Rightarrow> 'p connection \<Rightarrow> 'p world \<Rightarrow> bool" where
  "paired k i s cc sc w \<longleftrightarrow> i \<noteq> s \<and> i \<in> set (w_client_mgr w) \<and> s \<in> set (w_server_mgr w) \<and>
     client_conn (w_contexts w k) = Some i \<and> server_conn (w_contexts w k) = Some s \<and>
     w_conns w i = Some cc \<and> up cc \<and> w_conns w s = Some sc \<and> up sc \<and>
     c_kind sc = Server \<and> c_context sc = k \<and> \<not> running (c_timer sc) \<and> \<not> w_thrown w"

definition idle :: "nat \<Rightarrow> 'p world \<Rightarrow> bool" where
  "idle s w \<longleftrightarrow> w_queue w = [] \<and> Read_op s \<in> set (w_ops w)"

lemma decode_next:
  assumes d: "decoded_to api v t hs ps m0 n p c" and ex: "api_execute api p x = (p1, cs, length x)"
    and m0: "fresh m0" "hs \<noteq> []" "list_all fragments_ok hs" and len: "length (decoded_body v ps) \<le> SINK_LIMIT"
    and cs: "take (n + length cs) (response_calls v t hs ps) = take n (response_calls v t hs ps) @ cs"
      "n + length cs \<le> length (response_calls v t hs ps)"
  shows "\<exists>d1 m1. decode api x (c_decoder c) (c_message c) = Inr (d1, m1, length x) \<and>
           decoded_to api v t hs ps m0 (n + length cs) p1 (c\<lparr>c_decoder := d1, c_message := m1\<rparr>)"
proof -
  obtain d where r: "fold_res run_callback (take n (response_calls v t hs ps)) (first_state api, m0) = Inr (d, c_message c)"
    "(c_decoder c)\<lparr>dec_has_message := True\<rparr> = d\<lparr>dec_parser := p\<rparr>" using d by (auto simp: decoded_to_def)
  obtain d1 m1 where 1: "fold_res run_callback (take (n + length cs) (response_calls v t hs ps)) (first_state api, m0) = Inr (d1, m1)"
    "dec_has_message d1" "arrived v t hs ps (n + length cs) m1"
    using calls_arrive[OF m0 len cs(2)] by blast
  have "fold_res run_callback cs (d, c_message c) = Inr (d1, m1)" using 1(1) r(1) cs(1) by (simp add: fold_res_append)
  then have run: "fold_res run_callback cs ((c_decoder c)\<lparr>dec_has_message := True\<rparr>, c_message c) = Inr (d1\<lparr>dec_parser := p\<rparr>, m1)"
    using fold_callbacks_with_parser[of cs p "(d, c_message c)"] r(2) by (simp add: with_parser_def)
  have "dec_parser ((c_decoder c)\<lparr>dec_has_message := True\<rparr>) = p" unfolding r(2) by simp
  then have p: "dec_parser (c_decoder c) = p" by simp
  have "decode api x (c_decoder c) (c_message c) = Inr (d1\<lparr>dec_parser := p1\<rparr>, m1, length x)"
    using run ex p by (simp add: decode_def)
  moreover have "(d1\<lparr>dec_parser := p1\<rparr>)\<lparr>dec_has_message := True\<rparr> = d1\<lparr>dec_parser := p1\<rparr>" using 1(2) by simp
  ultimately show ?thesis using 1(1,3) by (auto simp: decoded_to_def)
qed

lemma arrived_completed:
  "arrived v t hs ps n m \<Longrightarrow> completed m \<longleftrightarrow> n = length (response_calls v t hs ps)"
  by (auto simp: arrived_def completed_def response_calls_split)

lemma arrived_deliverable: "arrived v t hs ps n m \<Longrightarrow> deliverable m"
  by (cases "derived m") (simp_all add: arrived_def deliverable_def)

text \<open>The handler of the read.\<close>

lemma read_runs:
  assumes w: "paired k i s cc sc w" "w_queue w = [Ready (Read_op s) (Done x l)]" and x: "x \<noteq> []"
    and m: "\<not> completed (c_message sc)" "deliverable m"
    and d: "decode (parser env) x (c_decoder sc) (c_message sc) = Inr (d, m, length x)"
  shows "\<exists>w'. dispatch env w = Some (Inr w') \<and> paired k i s cc (sc\<lparr>c_decoder := d, c_message := m\<rparr>) w' \<and>
           w_queue w' = [Event_task READ s]"
proof -
  let ?p = "w\<lparr>w_queue := [], w_pinned := task_refs (Ready (Read_op s) (Done x l))\<rparr>"
  let ?v = "post (Event_task READ s) (modify s (\<lambda>c. c\<lparr>c_decoder := d, c_message := m\<rparr>) ?p)"
  have run: "run_task env (Ready (Read_op s) (Done x l)) ?p = Inr ?v"
    using w(1) x m d by (simp add: paired_def up_def conn_def server_on_read_def server_decoded_def Let_def)
  have "dispatch env w = Some (Inr (release ?v))"
    by (rule dispatch_one[OF w(2) run]) (use w(1) in \<open>simp add: paired_def post_def\<close>)
  moreover have "j \<in> set (w_client_mgr w) \<union> set (w_server_mgr w) \<Longrightarrow> w_conns (release ?v) j = w_conns ?v j" for j
    by (intro release_held) (auto simp: shared_refs_def post_def)
  then have "paired k i s cc (sc\<lparr>c_decoder := d, c_message := m\<rparr>) (release ?v)"
    using w(1) by (simp add: paired_def post_def up_def)
  ultimately show ?thesis using w(2) by (intro exI[of _ "release ?v"]) (simp add: post_def)
qed

lemma paired_locks:
  "paired k i s cc sc w \<Longrightarrow> lock w (client_conn (w_contexts w k)) = Some i \<and> lock w (server_conn (w_contexts w k)) = Some s"
  by (auto simp: paired_def lock_def shared_refs_def)

text \<open>Writing the piece to the client.\<close>

lemma piece_written:
  assumes w: "paired k i s cc sc w" "w_queue w = []" and e: "fed (c_encoder cc) m"
    and m: "arrived v t hs ps n m" "arrived v t hs ps n' m'" "n \<le> n'" "n' \<le> length (response_calls v t hs ps)"
    and len: "length (response_text v t hs (decoded_body v ps)) \<le> SINK_LIMIT"
    and u: "unsent cc = b @ sent_of m"
  shows "\<exists>w' cc'. write_message i m' w = Inr w' \<and> paired k i s cc' sc w' \<and> list_all (aborted_wait {i}) (w_queue w') \<and>
           unsent cc' = b @ sent_of m' \<and>
           (if completed m' then enc_state (c_encoder cc') = END else fed (c_encoder cc') m')"
proof (cases "headers_done m'")
  case True
  have s: "sendable (c_encoder cc) m'" "emitted (c_encoder cc) m' = sent_of m"
    using fed_sendable[OF e m(1-3) True m(4) len] by simp_all
  obtain w' c' rest where 1: "write_message i m' w = Inr w'" "w_conns w' = (w_conns w)(i \<mapsto> c')" "up c'"
    "emitted (c_encoder cc) m' @ rest = serialize m'" "unsent c' = unsent cc @ rest"
    "emitted (c_encoder c') m' = serialize m'" "enc_ok (c_encoder c') m'"
    "enc_state (c_encoder c') = (if completed m' then END else BODY)" "w_thrown w' = w_thrown w"
    "w_queue w' = w_queue w @ (if running (c_timer cc)
             then map (\<lambda>p. Ready p Aborted) (filter (is_timer_of i) (w_ops w)) else [])"
    "w_contexts w' = w_contexts w" "w_server_mgr w' = w_server_mgr w" "w_client_mgr w' = w_client_mgr w"
    using write_message_up[OF _ _ s(1), of w i] w(1) unfolding paired_def by blast
  have "list_all (aborted_wait {i}) (w_queue w')" using 1(10) w(2) by (auto simp: list_all_iff elim!: is_timer_of.elims)
  moreover have "enc_type (c_encoder c') = HTTP_RESPONSE"
    using 1(7) m(2) by (cases "enc_type (c_encoder c')"; cases "derived m'") (simp_all add: enc_ok_def arrived_def)
  ultimately show ?thesis using 1 w(1) s(2) u True by (auto simp: paired_def fed_def sent_of_def)
next
  case False
  obtain w' c' where 1: "write_message i m' w = Inr w'" "w_conns w' = (w_conns w)(i \<mapsto> c')" "up c'"
    "unsent c' = unsent cc" "c_encoder c' = c_encoder cc" "w_thrown w' = w_thrown w"
    "w_queue w' = w_queue w @ (if running (c_timer cc)
             then map (\<lambda>p. Ready p Aborted) (filter (is_timer_of i) (w_ops w)) else [])"
    "w_contexts w' = w_contexts w" "w_server_mgr w' = w_server_mgr w" "w_client_mgr w' = w_client_mgr w"
    using write_message_early[OF _ _ False, of w i] w(1) unfolding paired_def by blast
  have "list_all (aborted_wait {i}) (w_queue w')" using 1(7) w(2) by (auto simp: list_all_iff elim!: is_timer_of.elims)
  moreover have "\<not> headers_done m" using m(1-3) False by (simp add: arrived_def)
  moreover have "\<not> completed m'" using False m(2) arrived_completed[OF m(2)] by (auto simp: arrived_def response_calls_split)
  ultimately show ?thesis using 1 w(1) e u False by (auto simp: paired_def fed_def sent_of_def)
qed

text \<open>The event of the read, when more is to come.\<close>

lemma paired_release: "paired k i s cc sc w \<Longrightarrow> paired k i s cc sc (release w)"
  using release_held[of i w] release_held[of s w] by (auto simp: paired_def shared_refs_def)

lemma event_task_runs:
  assumes w: "paired k i s cc sc w" and v: "on_server_message env k (c_message sc) (w\<lparr>w_queue := q, w_pinned := []\<rparr>) = Inr v"
  shows "run_task env (Event_task READ s) (w\<lparr>w_queue := q, w_pinned := task_refs (Event_task READ s)\<rparr>) = Inr v"
  using w v by (simp add: paired_def conn_def on_server_event_def Let_def)

lemma piece_event_runs:
  assumes w: "paired k i s cc sc w" "w_queue w = [Event_task READ s]" and e: "fed (c_encoder cc) m"
    and m: "arrived v t hs ps n m" "arrived v t hs ps n' (c_message sc)" "n \<le> n'" "n' < length (response_calls v t hs ps)"
    and len: "length (response_text v t hs (decoded_body v ps)) \<le> SINK_LIMIT"
    and u: "unsent cc = b @ sent_of m"
  shows "\<exists>w' cc'. run_queue env w w' \<and> paired k i s cc' sc w' \<and> idle s w' \<and> fed (c_encoder cc') (c_message sc) \<and>
           unsent cc' = b @ sent_of (c_message sc)"
proof -
  let ?p = "w\<lparr>w_queue := [], w_pinned := []\<rparr>" and ?m = "c_message sc"
  have p: "paired k i s cc sc ?p" "w_queue ?p = []" using w(1) by (simp_all add: paired_def)
  have nc: "\<not> completed ?m" using arrived_completed[OF m(2)] m(4) by simp
  obtain w1 cc1 where 1: "write_message i ?m ?p = Inr w1" "paired k i s cc1 sc w1" "list_all (aborted_wait {i}) (w_queue w1)"
    "unsent cc1 = b @ sent_of ?m" "fed (c_encoder cc1) ?m"
    using piece_written[OF p e m(1-3) less_imp_le[OF m(4)] len u] nc by auto
  let ?v = "initiate (Read_op s) w1"
  have "on_server_message env k ?m ?p = Inr ?v"
    using paired_locks[OF p(1)] 1(1,2) nc by (simp add: on_server_message_def Let_def read_def conn_def paired_def up_def)
  then have d: "dispatch env w = Some (Inr (release ?v))"
    by (intro dispatch_one[OF w(2) event_task_runs[OF w(1)]]) (use 1(2) in \<open>simp_all add: paired_def initiate_def\<close>)
  have pv: "paired k i s cc1 sc (release ?v)"
    using 1(2) by (intro paired_release) (simp add: paired_def initiate_def)
  have q: "list_all (aborted_wait {i}) (w_queue (release ?v))" using 1(3) by (simp add: initiate_def)
  have dm: "{i} \<subseteq> dom (w_conns (release ?v))" "\<not> w_thrown (release ?v)" using pv by (auto simp: paired_def)
  obtain w' where w': "run_queue env (release ?v) w'" "w_queue w' = []" "\<not> w_thrown w'" "w_ops w' = w_ops ?v"
    "w_contexts w' = w_contexts ?v" "w_client_mgr w' = w_client_mgr ?v" "w_server_mgr w' = w_server_mgr ?v"
    "\<And>j c. j \<in> set (w_client_mgr ?v) \<union> set (w_server_mgr ?v) \<Longrightarrow> w_conns (release ?v) j = Some c \<Longrightarrow>
       \<exists>r. w_conns w' j = Some (c\<lparr>c_timer := r\<rparr>) \<and> (j \<notin> {i} \<longrightarrow> r = c_timer c)"
    using aborted_waits_run[OF q dm, of env] unfolding release_rest by blast
  obtain r where "w_conns w' i = Some (cc1\<lparr>c_timer := r\<rparr>)" "w_conns w' s = Some (sc\<lparr>c_timer := c_timer sc\<rparr>)"
    using w'(8)[of i cc1] w'(8)[of s sc] pv by (auto simp: paired_def)
  then have "paired k i s (cc1\<lparr>c_timer := r\<rparr>) sc w'"
    using pv w'(3,5-7) by (simp add: paired_def up_def)
  moreover have "idle s w'" using w'(2,4) by (simp add: idle_def initiate_def)
  ultimately show ?thesis using run_queue.Next[OF d w'(1)] 1(4,5)
    by (intro exI[of _ w'] exI[of _ "cc1\<lparr>c_timer := r\<rparr>"]) (simp add: unsent_def)
qed

text \<open>The event of the last read.\<close>

lemma server_reset_queue:
  assumes "server_reset api s w = Inr w'"
  shows "w_client_mgr w' = w_client_mgr w \<and> w_server_mgr w' = w_server_mgr w \<and> w_thrown w' = w_thrown w \<and>
    (\<exists>q. w_queue w' = w_queue w @ q \<and> list_all (aborted_wait {s}) q)"
  using assms
  by (auto simp: server_reset_def timer_start_def reset_codec_def connection_reset_def initiate_def cancel_waits_def conn_def
      list_all_iff split: option.splits if_splits elim!: is_timer_of.elims)

lemma aborted_wait_mono: "aborted_wait D x \<Longrightarrow> D \<subseteq> D' \<Longrightarrow> aborted_wait D' x"
  by (cases "(D, x)" rule: aborted_wait.cases) auto

lemma after_last_event:
  assumes w: "paired k i s cc sc w" "w_queue w = [Event_task READ s]"
    and on: "on_server_message env k (c_message sc) (w\<lparr>w_queue := [], w_pinned := []\<rparr>) = Inr v"
    and v: "w_conns v i = Some cc'" "i \<in> set (w_client_mgr v)" "\<not> w_thrown v"
    and q: "list_all (aborted_wait D) (w_queue v)" "D \<subseteq> dom (w_conns v)" "D \<subseteq> set (w_client_mgr v) \<union> set (w_server_mgr v)"
  shows "\<exists>w' r. run_queue env w w' \<and> w_queue w' = [] \<and> w_conns w' i = Some (cc'\<lparr>c_timer := r\<rparr>) \<and> w_contexts w' = w_contexts v"
proof -
  have d: "dispatch env w = Some (Inr (release v))"
    by (rule dispatch_one[OF w(2) event_task_runs[OF w(1) on] v(3)])
  have held: "j \<in> set (w_client_mgr v) \<union> set (w_server_mgr v) \<Longrightarrow> w_conns (release v) j = w_conns v j" for j
    by (intro release_held) (auto simp: shared_refs_def)
  have dm: "list_all (aborted_wait D) (w_queue (release v))" "D \<subseteq> dom (w_conns (release v))" "\<not> w_thrown (release v)"
    using q v(3) held by (auto simp: domIff subset_eq)
  obtain w' where w': "run_queue env (release v) w'" "w_queue w' = []" "w_contexts w' = w_contexts v"
    "\<And>j c. j \<in> set (w_client_mgr v) \<union> set (w_server_mgr v) \<Longrightarrow> w_conns (release v) j = Some c \<Longrightarrow>
       \<exists>r. w_conns w' j = Some (c\<lparr>c_timer := r\<rparr>) \<and> (j \<notin> D \<longrightarrow> r = c_timer c)"
    using aborted_waits_run[OF dm, of env] unfolding release_rest by blast
  obtain r where "w_conns w' i = Some (cc'\<lparr>c_timer := r\<rparr>)" using w'(4)[of i cc'] held[of i] v(1,2) by auto
  then show ?thesis using run_queue.Next[OF d w'(1)] w'(2,3) by blast
qed

lemma last_event_runs:
  assumes w: "paired k i s cc sc w" "w_queue w = [Event_task READ s]" and e: "fed (c_encoder cc) m"
    and m: "arrived v t hs ps n m" "arrived v t hs ps n' (c_message sc)" "n \<le> n'" "n' = length (response_calls v t hs ps)"
    and len: "length (response_text v t hs (decoded_body v ps)) \<le> SINK_LIMIT"
    and u: "unsent cc = b @ sent_of m"
  shows "\<exists>w' cc'. run_queue env w w' \<and> w_queue w' = [] \<and> w_conns w' i = Some cc' \<and> up cc' \<and>
           unsent cc' = b @ response_text v t hs (decoded_body v ps) \<and> enc_state (c_encoder cc') = END \<and>
           exchange_completed (w_contexts w' k)"
proof -
  let ?p = "w\<lparr>w_queue := [], w_pinned := []\<rparr>" and ?m = "c_message sc"
  have p: "paired k i s cc sc ?p" "w_queue ?p = []" using w(1) by (simp_all add: paired_def)
  have c: "completed ?m" using arrived_completed[OF m(2)] m(4) by simp
  obtain w1 cc1 where 1: "write_message i ?m ?p = Inr w1" "paired k i s cc1 sc w1" "list_all (aborted_wait {i}) (w_queue w1)"
    "unsent cc1 = b @ sent_of ?m" "enc_state (c_encoder cc1) = END"
    using piece_written[OF p e m(1-3) _ len u] c m(4) by auto
  have "headers_done ?m" using m(2,4) by (simp add: arrived_def response_calls_split)
  then have sent: "sent_of ?m = response_text v t hs (decoded_body v ps)"
    using arrived_serialize[OF m(2)] m(4) by (simp add: sent_of_def response_calls_split pieces_all)
  let ?w2 = "set_context k (\<lambda>x. x\<lparr>exchange_completed := True\<rparr>) w1"
  have s2: "w_conns ?w2 s = Some sc" "w_conns ?w2 i = Some cc1" "i \<noteq> s" using 1(2) by (simp_all add: paired_def)
  have on: "on_server_message env k ?m ?p =
      (if keep_alive (parser env) (c_decoder sc) then server_reset (parser env) s ?w2 else stop s False ?w2)"
    using paired_locks[OF p(1)] 1(1) c s2(1) by (simp add: on_server_message_def Let_def conn_keep_alive_def conn_def)
  obtain x D where x: "on_server_message env k ?m ?p = Inr x" "w_conns x i = Some cc1" "i \<in> set (w_client_mgr x)" "\<not> w_thrown x"
    "list_all (aborted_wait D) (w_queue x)" "D \<subseteq> dom (w_conns x)" "D \<subseteq> set (w_client_mgr x) \<union> set (w_server_mgr x)"
    "w_contexts x = w_contexts ?w2"
  proof (cases "keep_alive (parser env) (c_decoder sc)")
    case True
    obtain x sc' where r: "server_reset (parser env) s ?w2 = Inr x" "w_conns x = (w_conns ?w2)(s \<mapsto> sc')" "w_contexts x = w_contexts ?w2"
      using server_reset_effect[OF s2(1)] by blast
    obtain q where q: "w_queue x = w_queue ?w2 @ q" "list_all (aborted_wait {s}) q"
      using server_reset_queue[OF r(1)] by blast
    have "list_all (aborted_wait {i, s}) (w_queue x)"
      using 1(3) q by (auto simp: list_all_iff set_context_def intro: aborted_wait_mono)
    then show ?thesis
      using that[of x "{i, s}"] True on r s2 server_reset_queue[OF r(1)] 1(2) by (auto simp: paired_def set_context_def)
  next
    case False
    have u: "\<not> c_stopped sc" "\<not> running (c_timer sc)" "c_kind sc = Server" using 1(2) by (simp_all add: paired_def up_def)
    have "w_thrown (halt s False sc ?w2) = w_thrown ?w2" "w_contexts (halt s False sc ?w2) = w_contexts ?w2"
      by (simp_all add: halt_def Let_def mgr_erase_def split: conn_kind.split)
    then show ?thesis
      using that[of "halt s False sc ?w2" "{i}"] False on stop_eq[OF s2(1) u(1), of False] u s2 1(2,3)
      by (simp add: halt_conns halt_queue halt_mgr paired_def set_context_def domIff)
  qed
  obtain w' r where w': "run_queue env w w'" "w_queue w' = []" "w_conns w' i = Some (cc1\<lparr>c_timer := r\<rparr>)" "w_contexts w' = w_contexts ?w2"
    using after_last_event[OF w x(1-7)] x(8) by auto
  moreover have "up (cc1\<lparr>c_timer := r\<rparr>)" using 1(2) by (simp add: paired_def up_def)
  ultimately show ?thesis using 1(4,5) sent by (intro exI[of _ w'] exI[of _ "cc1\<lparr>c_timer := r\<rparr>"]) (simp add: unsent_def set_context_def)
qed

section \<open>All the reads of a response\<close>

text \<open>The reads of the server complete with given data, and after each the queue is run until it is empty.\<close>

fun serve_reads :: "'p setting \<Rightarrow> nat \<Rightarrow> string list \<Rightarrow> 'p world \<Rightarrow> 'p world result option" where
  "serve_reads env s [] w = Some (Inr w)"
| "serve_reads env s (x # xs) w =
     (if Read_op s \<in> set (w_ops w) then
        let w1 = finish (Read_op s) (Done x (length x)) w in
        case drain env (energy w1) w1 of
          Some (Inr w2) \<Rightarrow> serve_reads env s xs w2
        | r \<Rightarrow> r
      else None)"

text \<open>The callbacks that the parser makes for each read.\<close>

fun delivers :: "'p parser_api \<Rightarrow> 'p \<Rightarrow> string list \<Rightarrow> (parser_view \<times> callback) list list \<Rightarrow> bool" where
  "delivers api p [] css = (css = [])"
| "delivers api p (x # xs) css = (case api_execute api p x of (p1, cs, n) \<Rightarrow>
     n = length x \<and> (case css of [] \<Rightarrow> False | c # css' \<Rightarrow> c = cs \<and> delivers api p1 xs css'))"

lemma serve_rest:
  assumes m0: "fresh m0" "hs \<noteq> []" "list_all fragments_ok hs"
    and len: "length (response_text v t hs (decoded_body v ps)) \<le> SINK_LIMIT"
    and w: "paired k i s cc sc w" "idle s w" and d: "decoded_to (parser env) v t hs ps m0 n p sc"
    and e: "fed (c_encoder cc) (c_message sc)" and u: "unsent cc = b @ sent_of (c_message sc)"
    and r: "delivers (parser env) p reads css" "drop n (response_calls v t hs ps) = concat css" "css \<noteq> []" "last css \<noteq> []"
      "[] \<notin> set reads"
  shows "\<exists>w' cc'. serve_reads env s reads w = Some (Inr w') \<and> w_queue w' = [] \<and> w_conns w' i = Some cc' \<and> up cc' \<and>
           unsent cc' = b @ response_text v t hs (decoded_body v ps) \<and> enc_state (c_encoder cc') = END \<and>
           exchange_completed (w_contexts w' k)"
  using w d e u r
proof (induction reads arbitrary: n p w cc sc css)
  case Nil
  then show ?case by simp
next
  case (Cons x xs)
  let ?C = "response_calls v t hs ps"
  obtain p1 c css' where x: "api_execute (parser env) p x = (p1, c, length x)" "css = c # css'" "delivers (parser env) p1 xs css'"
    using Cons.prems(6,8) by (cases css) (auto split: prod.splits)
  have dc: "drop n ?C = c @ concat css'" using Cons.prems(7) x(2) by simp
  have "concat css \<noteq> []" using Cons.prems(8,9) last_in_set by fastforce
  then have n: "n < length ?C" using Cons.prems(7) by (cases "n < length ?C") auto
  have le: "n + length c \<le> length ?C" using arg_cong[OF dc, of length] n by simp
  have tk: "take (n + length c) ?C = take n ?C @ c" by (simp add: take_add dc)
  have rest: "drop (n + length c) ?C = concat css'" using dc by (metis add.commute append_eq_conv_conj drop_drop)
  have len2: "length (decoded_body v ps) \<le> SINK_LIMIT" using len by (simp add: response_text_def)
  obtain d1 m1 where dec: "decode (parser env) x (c_decoder sc) (c_message sc) = Inr (d1, m1, length x)"
    "decoded_to (parser env) v t hs ps m0 (n + length c) p1 (sc\<lparr>c_decoder := d1, c_message := m1\<rparr>)"
    using decode_next[OF Cons.prems(3) x(1) m0 len2 tk le] by blast
  let ?sc = "sc\<lparr>c_decoder := d1, c_message := m1\<rparr>"
  have a: "arrived v t hs ps n (c_message sc)" "arrived v t hs ps (n + length c) (c_message ?sc)"
    using Cons.prems(3) dec(2) by (simp_all add: decoded_to_def)
  let ?w1 = "finish (Read_op s) (Done x (length x)) w"
  have w1: "paired k i s cc sc ?w1" "w_queue ?w1 = [Ready (Read_op s) (Done x (length x))]"
    using Cons.prems(1,2) by (simp_all add: paired_def idle_def finish_def)
  have nc: "\<not> completed (c_message sc)" using arrived_completed[OF a(1)] n by simp
  have dl: "deliverable m1" using arrived_deliverable[OF a(2)] by simp
  have xne: "x \<noteq> []" using Cons.prems(10) by auto
  obtain w2 where w2: "dispatch env ?w1 = Some (Inr w2)" "paired k i s cc ?sc w2" "w_queue w2 = [Event_task READ s]"
    using read_runs[OF w1 xne nc dl dec(1)] by blast
  have step: "serve_reads env s (x # xs) w = serve_reads env s xs w3" if "run_queue env w2 w3" for w3
    using run_queue_drain[OF run_queue.Next[OF w2(1) that]] Cons.prems(2) by (simp add: idle_def Let_def)
  show ?case
  proof (cases "css' = []")
    case True
    then have xs: "xs = []" "n + length c = length ?C" using x(3) rest le
      by (auto split: prod.splits) (cases xs; auto split: prod.splits)
    obtain w3 cc' where w3: "run_queue env w2 w3" "w_queue w3 = []" "w_conns w3 i = Some cc'" "up cc'"
      "unsent cc' = b @ response_text v t hs (decoded_body v ps)" "enc_state (c_encoder cc') = END" "exchange_completed (w_contexts w3 k)"
      using last_event_runs[OF w2(2,3) Cons.prems(4) a le_add1 xs(2) len Cons.prems(5)] by blast
    then show ?thesis using step[OF w3(1)] xs(1) by auto
  next
    case False
    have l: "last css' \<noteq> []" using Cons.prems(9) x(2) False by simp
    then have "concat css' \<noteq> []" using False last_in_set by fastforce
    then have lt: "n + length c < length ?C" using rest by (cases "n + length c < length ?C") auto
    obtain w3 cc' where w3: "run_queue env w2 w3" "paired k i s cc' ?sc w3" "idle s w3" "fed (c_encoder cc') (c_message ?sc)"
      "unsent cc' = b @ sent_of (c_message ?sc)"
      using piece_event_runs[OF w2(2,3) Cons.prems(4) a le_add1 lt len Cons.prems(5)] by blast
    show ?thesis
      using Cons.IH[OF w3(2,3) dec(2) w3(4,5) x(3) rest False l] Cons.prems(10) step[OF w3(1)] by auto
  qed
qed

section \<open>Properties\<close>

text \<open>
  C3: A response passes through the proxy. Let a server connection with a fresh decoder wait for a response,
  its client connection be up with a fresh encoder, and the parser make, over any number of non-empty
  reads, the callbacks of one response within the limit: one call for the status text, at least one header,
  names and values of headers in any fragments but no empty value, the body in any pieces, and at least one
  call for the last read. When the reads complete one after another and the
  event loop runs every time until it has nothing to do, no handler faults, and what was added to the
  client's queue is exactly: the status line, the headers, each once and in the order of their names, and
  the body, chunked again if it was chunked. The client stays up and the exchange is marked as completed.
\<close>

theorem response_is_relayed:
  assumes "paired k i s cc sc w" and "idle s w" and "c_decoder sc = new_decoder (parser env) HTTP_RESPONSE"
    and "fresh (c_message sc)" and "c_encoder cc = new_encoder HTTP_RESPONSE"
    and "delivers (parser env) (api_init (parser env) HTTP_RESPONSE) reads css"
    and "concat css = response_calls v t hs ps" and "last css \<noteq> []" and "[] \<notin> set reads"
    and "hs \<noteq> []" and "list_all fragments_ok hs" and "length (response_text v t hs (decoded_body v ps)) \<le> SINK_LIMIT"
  shows "\<exists>w' cc'. serve_reads env s reads w = Some (Inr w') \<and> w_queue w' = [] \<and> w_conns w' i = Some cc' \<and> up cc' \<and>
           unsent cc' = unsent cc @ response_text v t hs (decoded_body v ps) \<and> enc_state (c_encoder cc') = END \<and>
           exchange_completed (w_contexts w' k)"
proof -
  let ?m = "c_message sc"
  have un: "\<not> headers_done ?m" "\<not> message_done ?m" "matches HTTP_RESPONSE (derived ?m)"
    using assms(4) by (simp_all add: fresh_def unread_def)
  then have "decoded_to (parser env) v t hs ps ?m 0 (api_init (parser env) HTTP_RESPONSE) sc"
    using assms(3) by (simp add: decoded_to_def arrived_def response_calls_split response_head_def first_state_def new_decoder_def)
  moreover have "fed (c_encoder cc) ?m" "unsent cc = unsent cc @ sent_of ?m"
    using assms(5) un by (simp_all add: fed_def new_encoder_def sent_of_def)
  moreover have "drop 0 (response_calls v t hs ps) = concat css" "css \<noteq> []"
    using assms(7) by (auto simp: response_calls_def)
  ultimately show ?thesis
    using serve_rest[OF assms(4,10-12,1,2)] assms(6,8,9) by blast
qed

definition answer_view :: parser_view where
  "answer_view = (sample_view False)\<lparr>pv_status := 200\<rparr>"

definition answer_calls :: "(parser_view \<times> callback) list" where
  "answer_calls = response_calls answer_view ''OK'' [([''A''], [''b'', ''c''])] [''he'', ''llo'']"

definition answer_setting :: "(parser_view \<times> callback) list list setting" where
  "answer_setting = sample_setting\<lparr>parser := scripted [take 3 answer_calls, drop 3 answer_calls]\<rparr>"

definition waiting_server :: "(parser_view \<times> callback) list list connection" where
  "waiting_server = (sample_conn Server)\<lparr>c_decoder := new_decoder (parser answer_setting) HTTP_RESPONSE,
     c_message := sample_request\<lparr>derived := Response_part 0 []\<rparr>\<rparr>"

definition waiting_world :: "(parser_view \<times> callback) list list world" where
  "waiting_world = (sample_world (sample_conn Client) waiting_server)\<lparr>w_ops := [Signal_op, Read_op 2]\<rparr>"

theorem response_is_relayed_witness:
  "\<exists>w' cc'. serve_reads answer_setting 2 [''r1'', ''r2''] waiting_world = Some (Inr w') \<and> w_conns w' 1 = Some cc' \<and>
     unsent cc' = ''HTTP/1.1 200 OK'' @ CRLF @ ''A: bc'' @ CRLF @ CRLF @ ''hello''"
proof -
  let ?hs = "[([''A''], [''b'', ''c''])] :: fragments list" and ?ps = "[''he'', ''llo'']"
  have written: "response_text answer_view ''OK'' ?hs (decoded_body answer_view ?ps) =
      ''HTTP/1.1 200 OK'' @ CRLF @ ''A: bc'' @ CRLF @ CRLF @ ''hello''"
    by (simp add: response_text_def answer_view_def sample_view_def decoded_headers_def joined_def header_line_def decoded_body_def
        framed_def closing_def to_string_int_def to_string_nat_def digits_in.simps digit_char_def)
  have w: "paired 0 1 2 (sample_conn Client) waiting_server waiting_world" "idle 2 waiting_world"
    by (simp_all add: paired_def idle_def waiting_world_def waiting_server_def sample_world_def sample_conn_def up_def
        new_context_def new_timer_def)
  have f: "fresh (c_message waiting_server)"
    by (simp add: fresh_def unread_def waiting_server_def sample_request_def msg_ok_def headers_ok_def fits_def body_text_def)
  have d: "delivers (parser answer_setting) (api_init (parser answer_setting) HTTP_RESPONSE) [''r1'', ''r2'']
      [take 3 answer_calls, drop 3 answer_calls]"
    by (simp add: answer_setting_def scripted_def)
  have c: "concat [take 3 answer_calls, drop 3 answer_calls] = response_calls answer_view ''OK'' ?hs ?ps"
    by (simp add: answer_calls_def)
  have l: "last [take 3 answer_calls, drop 3 answer_calls] \<noteq> []" "[] \<notin> set [''r1'', ''r2'']" "?hs \<noteq> []" "list_all fragments_ok ?hs"
    by (simp_all add: answer_calls_def response_calls_def header_calls_def fragments_ok_def)
  have n: "length (response_text answer_view ''OK'' ?hs (decoded_body answer_view ?ps)) \<le> SINK_LIMIT"
    by (simp add: written CRLF_def SINK_LIMIT_def)
  have e: "c_decoder waiting_server = new_decoder (parser answer_setting) HTTP_RESPONSE"
    "c_encoder (sample_conn Client) = new_encoder HTTP_RESPONSE" "unsent (sample_conn Client) = []"
    by (simp_all add: waiting_server_def sample_conn_def unsent_def)
  from response_is_relayed[OF w e(1) f e(2) d c l n] show ?thesis
    unfolding written e(3) append_Nil by blast
qed

end
