(* ===== verification/Traffic.thy ===== *)
theory Traffic
  imports "Relay"
begin

text \<open>
  The environment of a pair of connections that serves one exchange after the other: data that the peers
  send, in any division into reads, and writes that the sockets complete piece by piece. After every such
  event the queue of the \<open>io_service\<close> is run until it is empty. The lemmas say exactly what a message put on
  a connection, a completed write and the aborted waits of timers change; the property at the end, that the
  bytes of a queue leave in order through the writes that are pending.
\<close>

section \<open>Traffic\<close>

datatype traffic = From_client string | To_server nat | From_server string | To_client nat

definition arrives :: "nat \<Rightarrow> string \<Rightarrow> 'p world \<Rightarrow> 'p world option" where
  "arrives j x w = (if Read_op j \<in> set (w_ops w) then Some (finish (Read_op j) (Done x (length x)) w) else None)"

text \<open>The socket of \<open>j\<close> takes up to \<open>n\<close> bytes of the write that is pending on it, if one is.\<close>

definition taken :: "nat \<Rightarrow> nat \<Rightarrow> 'p world \<Rightarrow> string \<times> 'p world" where
  "taken j n w = (case filter (is_write_of j) (w_ops w) of
     Write_op _ d # _ \<Rightarrow> (take n d, finish (Write_op j d) (Done [] (min n (length d))) w)
   | _ \<Rightarrow> ([], w))"

text \<open>
  One event on the client \<open>i\<close> and the server \<open>s\<close>, \<open>None\<close> when the proxy does not read there; and what it
  sent to the server and to the client.
\<close>

fun occurs :: "nat \<Rightarrow> nat \<Rightarrow> traffic \<Rightarrow> 'p world \<Rightarrow> ((string \<times> string) \<times> 'p world) option" where
  "occurs i s (From_client x) w = map_option (Pair ([], [])) (arrives i x w)"
| "occurs i s (From_server x) w = map_option (Pair ([], [])) (arrives s x w)"
| "occurs i s (To_server n) w = (case taken s n w of (d, w1) \<Rightarrow> Some ((d, []), w1))"
| "occurs i s (To_client n) w = (case taken i n w of (d, w1) \<Rightarrow> Some (([], d), w1))"

fun converse :: "'p setting \<Rightarrow> nat \<Rightarrow> nat \<Rightarrow> traffic list \<Rightarrow> 'p world \<Rightarrow> ((string \<times> string) \<times> 'p world) result option" where
  "converse env i s [] w = Some (Inr (([], []), w))"
| "converse env i s (e # es) w =
     (case occurs i s e w of
        None \<Rightarrow> None
      | Some ((a, b), w1) \<Rightarrow>
          (case drain env (energy w1) w1 of
             None \<Rightarrow> None
           | Some (Inl f) \<Rightarrow> Some (Inl f)
           | Some (Inr w2) \<Rightarrow>
               (case converse env i s es w2 of
                  Some (Inr ((a', b'), w3)) \<Rightarrow> Some (Inr ((a @ a', b @ b'), w3))
                | r \<Rightarrow> r)))"

definition leads :: "'p setting \<Rightarrow> nat \<Rightarrow> nat \<Rightarrow> traffic list \<Rightarrow> 'p world \<Rightarrow> string \<Rightarrow> string \<Rightarrow> 'p world \<Rightarrow> bool" where
  "leads env i s es w a b w' \<longleftrightarrow> converse env i s es w = Some (Inr ((a, b), w'))"

lemma leads_Nil [simp]: "leads env i s [] w a b w' \<longleftrightarrow> a = [] \<and> b = [] \<and> w' = w"
  by (auto simp: leads_def)

lemma leads_Cons:
  assumes "occurs i s e w = Some ((a, b), w1)" and "run_queue env w1 w2" and "leads env i s es w2 a' b' w3"
  shows "leads env i s (e # es) w (a @ a') (b @ b') w3"
  using assms(1,3) run_queue_drain[OF assms(2)] by (simp add: leads_def)

lemma leads_append:
  "leads env i s es w a b w1 \<Longrightarrow> leads env i s fs w1 a' b' w2 \<Longrightarrow> leads env i s (es @ fs) w (a @ a') (b @ b') w2"
proof (induction es arbitrary: w a b)
  case (Cons e es)
  obtain x y v v' a1 b1 where 1: "occurs i s e w = Some ((x, y), v)" "drain env (energy v) v = Some (Inr v')"
    "leads env i s es v' a1 b1 w1" "a = x @ a1" "b = y @ b1"
    using Cons.prems(1) by (auto simp: leads_def split: option.splits prod.splits sum.splits)
  from Cons.IH[OF 1(3) Cons.prems(2)] show ?case using 1 by (simp add: leads_def)
qed simp

section \<open>Runs of the queue\<close>

inductive runs :: "'p setting \<Rightarrow> 'p world \<Rightarrow> 'p world \<Rightarrow> bool" for env where
  Stop: "runs env w w"
| Step: "dispatch env w = Some (Inr v) \<Longrightarrow> runs env v w' \<Longrightarrow> runs env w w'"

lemma runs_trans: "runs env u v \<Longrightarrow> runs env v w \<Longrightarrow> runs env u w"
  by (induction rule: runs.induct) (auto intro: runs.Step)

lemma runs_one: "dispatch env w = Some (Inr v) \<Longrightarrow> runs env w v"
  by (rule runs.Step[OF _ runs.Stop])

lemma runs_queue: "runs env w w' \<Longrightarrow> w_queue w' = [] \<Longrightarrow> run_queue env w w'"
  by (induction rule: runs.induct) (auto intro: run_queue.intros)

text \<open>Worlds that agree but for the timers of their connections.\<close>

definition same_but_timers :: "nat set \<Rightarrow> 'p world \<Rightarrow> 'p world \<Rightarrow> bool" where
  "same_but_timers D w w' \<longleftrightarrow> w_ops w' = w_ops w \<and> w_contexts w' = w_contexts w \<and> w_client_mgr w' = w_client_mgr w \<and>
     w_server_mgr w' = w_server_mgr w \<and> w_thrown w' = w_thrown w \<and>
     (\<forall>j c. j \<in> set (w_client_mgr w) \<union> set (w_server_mgr w) \<longrightarrow> w_conns w j = Some c \<longrightarrow>
        (\<exists>r. w_conns w' j = Some (c\<lparr>c_timer := r\<rparr>) \<and> (j \<notin> D \<longrightarrow> r = c_timer c) \<and> (running r \<longrightarrow> running (c_timer c))))"

lemma same_but_timers_refl: "same_but_timers D w w"
proof -
  have "\<exists>r. c = c\<lparr>c_timer := r\<rparr> \<and> (j \<notin> D \<longrightarrow> r = c_timer c) \<and> (running r \<longrightarrow> running (c_timer c))"
    for j and c :: "'a connection"
    by (rule exI[of _ "c_timer c"]) simp
  then show ?thesis by (simp add: same_but_timers_def)
qed

lemma same_but_timers_conn:
  assumes "same_but_timers D w w'" and "j \<in> set (w_client_mgr w) \<union> set (w_server_mgr w)" and "w_conns w j = Some c"
  obtains r where "w_conns w' j = Some (c\<lparr>c_timer := r\<rparr>)" "j \<notin> D \<longrightarrow> r = c_timer c" "running r \<longrightarrow> running (c_timer c)"
  using assms unfolding same_but_timers_def by blast

lemma same_but_timers_trans:
  assumes "same_but_timers D u v" and "same_but_timers D v w"
  shows "same_but_timers D u w"
proof -
  have "\<exists>r. w_conns w j = Some (c\<lparr>c_timer := r\<rparr>) \<and> (j \<notin> D \<longrightarrow> r = c_timer c) \<and> (running r \<longrightarrow> running (c_timer c))"
    if j: "j \<in> set (w_client_mgr u) \<union> set (w_server_mgr u)" "w_conns u j = Some c" for j c
  proof -
    obtain r where r: "w_conns v j = Some (c\<lparr>c_timer := r\<rparr>)" "j \<notin> D \<longrightarrow> r = c_timer c" "running r \<longrightarrow> running (c_timer c)"
      by (rule same_but_timers_conn[OF assms(1) j])
    have "j \<in> set (w_client_mgr v) \<union> set (w_server_mgr v)" using assms(1) j(1) by (simp add: same_but_timers_def)
    then obtain r' where "w_conns w j = Some (c\<lparr>c_timer := r, c_timer := r'\<rparr>)" "j \<notin> D \<longrightarrow> r' = c_timer (c\<lparr>c_timer := r\<rparr>)"
      "running r' \<longrightarrow> running (c_timer (c\<lparr>c_timer := r\<rparr>))"
      by (rule same_but_timers_conn[OF assms(2) _ r(1)])
    then show ?thesis using r by auto
  qed
  then show ?thesis using assms unfolding same_but_timers_def by simp
qed

definition waits_of :: "nat \<Rightarrow> task list \<Rightarrow> bool" where
  "waits_of j q \<longleftrightarrow> (\<exists>a b. Ready (Timer_op j a b) Aborted \<in> set q)"

lemma waits_run:
  assumes "w_queue w = q @ rest" and "list_all (aborted_wait D) q" and "D \<subseteq> set (w_client_mgr w) \<union> set (w_server_mgr w)"
    and "D \<subseteq> dom (w_conns w)" and "\<not> w_thrown w"
  shows "\<exists>w'. runs env w w' \<and> w_queue w' = rest \<and> same_but_timers D w w' \<and>
           (\<forall>j c'. waits_of j q \<longrightarrow> w_conns w' j = Some c' \<longrightarrow> \<not> running (c_timer c'))"
  using assms
proof (induction q arbitrary: w)
  case Nil
  then show ?case using same_but_timers_refl runs.Stop by (intro exI[of _ w]) (auto simp: waits_of_def)
next
  case (Cons x q)
  obtain i a b where x: "x = Ready (Timer_op i a b) Aborted" "i \<in> D"
    using Cons.prems(2) by (auto elim: aborted_wait.elims)
  obtain ci where ci: "w_conns w i = Some ci" using x(2) Cons.prems(4) by auto
  define v where "v = modify i (\<lambda>c. c\<lparr>c_timer := (c_timer c)\<lparr>running := False\<rparr>\<rparr>) (w\<lparr>w_queue := q @ rest, w_pinned := [i]\<rparr>)"
  have "run_task env x (w\<lparr>w_queue := q @ rest, w_pinned := task_refs x\<rparr>) = Inr v"
    using ci x by (simp add: on_timer_def v_def Let_def)
  then have d: "dispatch env w = Some (Inr (release v))"
    using Cons.prems(1,5) by (intro dispatch_one) (simp_all add: v_def)
  have v: "w_queue v = q @ rest" "w_ops v = w_ops w" "w_contexts v = w_contexts w" "w_client_mgr v = w_client_mgr w"
    "w_server_mgr v = w_server_mgr w" "w_thrown v = w_thrown w" by (simp_all add: v_def)
  have held: "w_conns (release v) j = w_conns v j" if "j \<in> set (w_client_mgr w) \<union> set (w_server_mgr w)" for j
    using that v by (intro release_held) (auto simp: shared_refs_def)
  have vj: "w_conns v j = (if j = i then Some (ci\<lparr>c_timer := (c_timer ci)\<lparr>running := False\<rparr>\<rparr>) else w_conns w j)" for j
    using ci by (simp add: v_def)
  have rv: "w_conns (release v) j =
      (if j = i then Some (ci\<lparr>c_timer := (c_timer ci)\<lparr>running := False\<rparr>\<rparr>) else w_conns w j)"
    if "j \<in> set (w_client_mgr w) \<union> set (w_server_mgr w)" for j
    unfolding held[OF that] by (rule vj)
  have one: "same_but_timers D w (release v)"
    unfolding same_but_timers_def release_rest v
  proof (intro conjI refl allI impI)
    fix j c assume j: "j \<in> set (w_client_mgr w) \<union> set (w_server_mgr w)" "w_conns w j = Some c"
    show "\<exists>r. w_conns (release v) j = Some (c\<lparr>c_timer := r\<rparr>) \<and> (j \<notin> D \<longrightarrow> r = c_timer c) \<and> (running r \<longrightarrow> running (c_timer c))"
      using rv[OF j(1)] j(2) ci x(2)
      by (intro exI[of _ "if j = i then (c_timer ci)\<lparr>running := False\<rparr> else c_timer c"]) auto
  qed
  have dm: "D \<subseteq> dom (w_conns (release v))" using Cons.prems(3,4) rv by (auto simp: subset_eq domIff split: if_splits)
  have pr: "w_queue (release v) = q @ rest" "list_all (aborted_wait D) q"
    "D \<subseteq> set (w_client_mgr (release v)) \<union> set (w_server_mgr (release v))" "\<not> w_thrown (release v)"
    using Cons.prems(2,3,5) v by simp_all
  obtain w' where w': "runs env (release v) w'" "w_queue w' = rest" "same_but_timers D (release v) w'"
    "\<And>j c'. waits_of j q \<Longrightarrow> w_conns w' j = Some c' \<Longrightarrow> \<not> running (c_timer c')"
    using Cons.IH[OF pr(1-3) dm pr(4)] by blast
  have "\<forall>j c'. waits_of j (x # q) \<longrightarrow> w_conns w' j = Some c' \<longrightarrow> \<not> running (c_timer c')"
  proof (intro allI impI)
    fix j c' assume j: "waits_of j (x # q)" "w_conns w' j = Some c'"
    show "\<not> running (c_timer c')"
    proof (cases "waits_of j q")
      case False
      then have ji: "j = i" using j(1) x(1) by (auto simp: waits_of_def)
      then have m: "j \<in> set (w_client_mgr (release v)) \<union> set (w_server_mgr (release v))" using x(2) pr(3) by auto
      then have "w_conns (release v) j = Some (ci\<lparr>c_timer := (c_timer ci)\<lparr>running := False\<rparr>\<rparr>)" using rv[of j] v ji by simp
      then obtain r where "w_conns w' j = Some (ci\<lparr>c_timer := (c_timer ci)\<lparr>running := False\<rparr>, c_timer := r\<rparr>)"
        "running r \<longrightarrow> running (c_timer (ci\<lparr>c_timer := (c_timer ci)\<lparr>running := False\<rparr>\<rparr>))"
        by (rule same_but_timers_conn[OF w'(3) m])
      then show ?thesis using j(2) by auto
    qed (use w'(4) j in blast)
  qed
  with runs.Step[OF d w'(1)] w'(2) same_but_timers_trans[OF one w'(3)] show ?case by iprover
qed

section \<open>What is being written\<close>

lemma finish_simps [simp]:
  "w_conns (finish p r w) = w_conns w" "w_contexts (finish p r w) = w_contexts w" "w_thrown (finish p r w) = w_thrown w"
  "w_client_mgr (finish p r w) = w_client_mgr w" "w_server_mgr (finish p r w) = w_server_mgr w"
  "w_ops (finish p r w) = remove1 p (w_ops w)" "w_queue (finish p r w) = w_queue w @ [Ready p r]"
  by (simp_all add: finish_def)

text \<open>The queue of a connection and its pending write belong together.\<close>

definition writing_ok :: "nat \<Rightarrow> 'p connection \<Rightarrow> operation list \<Rightarrow> bool" where
  "writing_ok j c ps \<longleftrightarrow> c_writing c = (c_buffer_out c \<noteq> []) \<and>
     filter (is_write_of j) ps = (case c_buffer_out c of [] \<Rightarrow> [] | b # _ \<Rightarrow> [Write_op j (bytes b)])"

lemma writing_ok_timer [simp]: "writing_ok j (c\<lparr>c_timer := r\<rparr>) ps = writing_ok j c ps"
  "writing_ok j (c\<lparr>c_decoder := d, c_message := m\<rparr>) ps = writing_ok j c ps"
  by (simp_all add: writing_ok_def)

lemma write_filters [simp]:
  "filter (\<lambda>p. \<not> is_timer_of i p \<and> is_write_of j p) ps = filter (is_write_of j) ps"
  "filter (is_write_of j) (remove1 (Read_op i) ps) = filter (is_write_of j) ps"
proof -
  have "is_write_of j p \<Longrightarrow> \<not> is_timer_of i p" for p by (cases p) auto
  then show "filter (\<lambda>p. \<not> is_timer_of i p \<and> is_write_of j p) ps = filter (is_write_of j) ps"
    by (induction ps) auto
  show "filter (is_write_of j) (remove1 (Read_op i) ps) = filter (is_write_of j) ps" by (induction ps) auto
qed

lemma do_write_exact:
  assumes "w_conns w j = Some c" and "c_connected c"
  shows "do_write j w = Inr (if c_writing c \<or> c_buffer_out c = [] then w
           else initiate (Write_op j (bytes (hd (c_buffer_out c)))) (modify j (\<lambda>c. c\<lparr>c_writing := True\<rparr>) w))"
  using assms by (cases "c_buffer_out c") (simp_all add: do_write_def)

text \<open>What a message changes of the connection that it is put on, and of the pending operations.\<close>

definition written_conn :: "http_encoder \<Rightarrow> byte_buffer list \<Rightarrow> 'p connection \<Rightarrow> 'p connection" where
  "written_conn e out c = c\<lparr>c_encoder := e, c_buffer_out := out, c_writing := out \<noteq> []\<rparr>"

lemma written_conn_simps [simp]:
  "c_encoder (written_conn e out c) = e" "c_buffer_out (written_conn e out c) = out" "c_kind (written_conn e out c) = c_kind c"
  "c_context (written_conn e out c) = c_context c" "c_decoder (written_conn e out c) = c_decoder c"
  "c_message (written_conn e out c) = c_message c" "c_timer (written_conn e out c) = c_timer c"
  "c_writing (written_conn e out c) = (out \<noteq> [])"
  by (simp_all add: written_conn_def)

lemma writes_elsewhere: "set q \<subseteq> range (Write_op i) \<Longrightarrow> j \<noteq> i \<Longrightarrow> filter (is_write_of j) q = []"
  by (auto simp: filter_empty_conv)

lemma write_message_exact:
  assumes c: "w_conns w i = Some c" and u: "up c" and ok: "writing_ok i c (w_ops w)"
    and wr: "write_message i m w = Inr w'"
  shows "\<exists>e out. w_conns w' = (w_conns w)(i \<mapsto> written_conn e out c) \<and> writing_ok i (written_conn e out c) (w_ops w') \<and>
           (\<forall>j. j \<noteq> i \<longrightarrow> filter (is_write_of j) (w_ops w') = filter (is_write_of j) (w_ops w)) \<and>
           (\<forall>p \<in> set (w_ops w). \<not> is_timer_of i p \<longrightarrow> p \<in> set (w_ops w'))"
proof -
  let ?v = "if running (c_timer c) then cancel_waits i w else w"
  obtain e buf1 where p: "do_write i (push_encoded i e buf1 ?v) = Inr w'"
    using c u wr by (auto simp: write_message_def up_def timer_cancel_def assert_that_def bind_res_eq_Inr split: if_splits prod.splits)
  define out where "out = (if bb_size buf1 > 0 then c_buffer_out c @ [buf1] else c_buffer_out c)"
  define c1 where "c1 = c\<lparr>c_encoder := e, c_buffer_out := out\<rparr>"
  let ?w1 = "push_encoded i e buf1 ?v"
  have v: "w_conns ?v i = Some c" using c by simp
  have c1: "w_conns ?w1 = (w_conns w)(i \<mapsto> c1)"
    unfolding push_encoded_conn[OF v] by (simp add: c1_def out_def)
  have "w_conns ?w1 i = Some c1" "c_connected c1" using u by (simp_all add: c1 c1_def up_def)
  note w' = p[unfolded do_write_exact[OF this]]
  have o: "out = [] \<Longrightarrow> c_buffer_out c = []" by (auto simp: out_def split: if_splits)
  show ?thesis
  proof (cases "c_writing c \<or> out = []")
    case True
    then have "w' = ?w1" using w' by (simp add: c1_def)
    moreover have "c_writing c = (out \<noteq> [])" using True ok o by (auto simp: writing_ok_def)
    then have "c1 = written_conn e out c" by (cases c) (simp add: c1_def written_conn_def)
    moreover have "writing_ok i (written_conn e out c) (w_ops ?w1)"
    proof (cases "c_buffer_out c")
      case Nil
      then have "out = []" using True ok by (simp add: writing_ok_def)
      then show ?thesis using Nil ok by (simp add: writing_ok_def)
    next
      case (Cons b bs)
      then obtain bs' where "out = b # bs'" by (cases "0 < bb_size buf1") (simp_all add: out_def)
      then show ?thesis using Cons ok by (simp add: writing_ok_def)
    qed
    ultimately show ?thesis using c1 by (intro exI[of _ e] exI[of _ out]) simp
  next
    case False
    then have n: "c_buffer_out c = []" "\<not> c_writing c" "out \<noteq> []" using ok by (simp_all add: writing_ok_def)
    have "w' = initiate (Write_op i (bytes (hd out))) (modify i (\<lambda>c. c\<lparr>c_writing := True\<rparr>) ?w1)"
      using w' n by (simp add: c1_def)
    moreover have "w_conns w' = (w_conns w)(i \<mapsto> written_conn e out c)"
      unfolding calculation by (rule ext) (simp add: initiate_def c1, simp add: c1_def written_conn_def n)
    moreover have "writing_ok i (written_conn e out c) (w_ops w')"
      unfolding calculation(1) using ok n by (cases out) (auto simp: writing_ok_def initiate_def)
    ultimately show ?thesis by (intro exI[of _ e] exI[of _ out]) (simp add: initiate_def)
  qed
qed

lemma up_out: "up (c\<lparr>c_buffer_out := out, c_writing := x\<rparr>) \<longleftrightarrow>
    \<not> c_stopped c \<and> c_connected c \<and> list_all (\<lambda>b. bb_ok b \<and> 0 < bb_size b) out"
  by (simp add: up_def)

lemma nothing_left:
  assumes "list_all (\<lambda>b. bb_ok b \<and> 0 < bb_size b) q"
  shows "concat (map bytes q) = [] \<longleftrightarrow> q = []"
proof (cases q)
  case (Cons b bs)
  then have "length (bytes b) \<noteq> 0" using assms by simp
  then show ?thesis using Cons by auto
qed simp

text \<open>What a completed write changes, with the buffers that are left.\<close>

definition with_out :: "nat \<Rightarrow> byte_buffer list \<Rightarrow> 'p connection \<Rightarrow> 'p world \<Rightarrow> 'p world" where
  "with_out j out c w = w\<lparr>w_conns := (w_conns w)(j \<mapsto> c\<lparr>c_buffer_out := out, c_writing := out \<noteq> []\<rparr>)\<rparr>"

lemma with_out_simps [simp]:
  "w_conns (with_out j out c w) = (w_conns w)(j \<mapsto> c\<lparr>c_buffer_out := out, c_writing := out \<noteq> []\<rparr>)"
  "w_ops (with_out j out c w) = w_ops w" "w_queue (with_out j out c w) = w_queue w" "w_contexts (with_out j out c w) = w_contexts w"
  "w_client_mgr (with_out j out c w) = w_client_mgr w" "w_server_mgr (with_out j out c w) = w_server_mgr w"
  "w_thrown (with_out j out c w) = w_thrown w" "w_pinned (with_out j out c w) = w_pinned w"
  by (simp_all add: with_out_def)

lemma on_written_exact:
  assumes c: "w_conns w j = Some c" and u: "up c" and o: "c_buffer_out c = b # bs"
  shows "\<exists>out. list_all (\<lambda>b. bb_ok b \<and> 0 < bb_size b) out \<and> take n (bytes b) @ concat (map bytes out) = unsent c \<and>
           on_written j (Done d n) w =
             (if out \<noteq> [] then Inr (initiate (Write_op j (bytes (hd out))) (with_out j out c w)) else on_write j (with_out j out c w))"
proof -
  have b: "bb_ok b" "0 < bb_size b" "list_all (\<lambda>b. bb_ok b \<and> 0 < bb_size b) bs" using u o by (auto simp: up_def)
  have len: "length (bytes b) = bb_size b" using b(1) by simp
  define out0 where "out0 = (if n < bb_size b then projr (buffer_erase 0 n b) # bs else bs)"
  define w1 where "w1 = modify j (\<lambda>c. c\<lparr>c_buffer_out := out0\<rparr>) (modify j (\<lambda>c. c\<lparr>c_writing := False\<rparr>) w)"
  have c1: "w_conns w1 j = Some (c\<lparr>c_writing := False, c_buffer_out := out0\<rparr>)" using c by (simp add: w1_def)
  have swap: "c\<lparr>c_writing := x, c_buffer_out := y\<rparr> = c\<lparr>c_buffer_out := y, c_writing := x\<rparr>" for x y by (cases c) simp
  have e: "w1 = with_out j [] c w" if "out0 = []"
    using c that by (simp add: w1_def with_out_def modify_def swap)
  have i: "do_write j w1 = Inr (initiate (Write_op j (bytes (hd out0))) (with_out j out0 c w))" if "out0 \<noteq> []"
    using c u that do_write_exact[OF c1] by (simp add: up_def w1_def with_out_def modify_def)
  show ?thesis
  proof (cases "n < bb_size b")
    case True
    obtain b' where b': "buffer_erase 0 n b = Inr b'" "bb_ok b'" "0 < bb_size b'" "bytes b' = drop n (bytes b)"
      using erase_front[OF b(1) True] by blast
    then have "out0 = b' # bs" using True by (simp add: out0_def)
    moreover have "on_written j (Done d n) w = do_write j w1"
      using c u o True b'(1) calculation by (simp add: on_written_def up_def w1_def)
    ultimately show ?thesis using i b b' o by (intro exI[of _ out0]) (simp add: unsent_def)
  next
    case False
    then have o0: "out0 = bs" by (simp add: out0_def)
    have "on_written j (Done d n) w = (if bs \<noteq> [] then do_write j w1 else on_write j w1)"
      using c u o False by (simp add: on_written_def up_def w1_def o0 Let_def)
    then show ?thesis using i e b o o0 False len by (intro exI[of _ out0]) (simp add: unsent_def)
  qed
qed

lemma taken_front:
  assumes "writing_ok j c (w_ops w)" and "c_buffer_out c = b # bs"
  shows "taken j n w = (take n (bytes b), finish (Write_op j (bytes b)) (Done [] (min n (length (bytes b)))) w)"
  using assms by (simp add: taken_def writing_ok_def)

lemma taken_none: "writing_ok j c (w_ops w) \<Longrightarrow> c_buffer_out c = [] \<Longrightarrow> taken j n w = ([], w)"
  by (simp add: taken_def writing_ok_def)

lemma filter_remove1: "filter P (remove1 x xs) = remove1 x (filter P xs)"
  by (induction xs) auto

text \<open>The socket takes a part of the buffer in front: the handler and what it finds.\<close>

definition write_task :: "nat \<Rightarrow> byte_buffer \<Rightarrow> nat \<Rightarrow> task" where
  "write_task j b n = Ready (Write_op j (bytes b)) (Done [] (min n (length (bytes b))))"

definition while_writing :: "nat \<Rightarrow> byte_buffer \<Rightarrow> 'p world \<Rightarrow> 'p world" where
  "while_writing j b w = w\<lparr>w_ops := remove1 (Write_op j (bytes b)) (w_ops w), w_queue := [], w_pinned := [j]\<rparr>"

lemma while_writing_simps [simp]:
  "w_conns (while_writing j b w) = w_conns w" "w_queue (while_writing j b w) = []" "w_contexts (while_writing j b w) = w_contexts w"
  "w_client_mgr (while_writing j b w) = w_client_mgr w" "w_server_mgr (while_writing j b w) = w_server_mgr w"
  "w_thrown (while_writing j b w) = w_thrown w" "w_ops (while_writing j b w) = remove1 (Write_op j (bytes b)) (w_ops w)"
  by (simp_all add: while_writing_def)

lemma while_writing_ops:
  assumes "writing_ok j c (w_ops w)" and "c_buffer_out c = b # bs"
  shows "filter (is_write_of j) (remove1 (Write_op j (bytes b)) (w_ops w)) = []"
    "i \<noteq> j \<Longrightarrow> filter (is_write_of i) (remove1 (Write_op j (bytes b)) (w_ops w)) = filter (is_write_of i) (w_ops w)"
    "\<not> is_write_of j p \<Longrightarrow> p \<in> set (remove1 (Write_op j (bytes b)) (w_ops w)) \<longleftrightarrow> p \<in> set (w_ops w)"
proof -
  show "filter (is_write_of j) (remove1 (Write_op j (bytes b)) (w_ops w)) = []"
    "i \<noteq> j \<Longrightarrow> filter (is_write_of i) (remove1 (Write_op j (bytes b)) (w_ops w)) = filter (is_write_of i) (w_ops w)"
    using assms by (auto simp: writing_ok_def filter_remove1 remove1_idem)
  assume "\<not> is_write_of j p"
  then have "p \<noteq> Write_op j (bytes b)" by auto
  then show "p \<in> set (remove1 (Write_op j (bytes b)) (w_ops w)) \<longleftrightarrow> p \<in> set (w_ops w)" by simp
qed

lemma write_taken:
  assumes c: "w_conns w j = Some c" "up c" "writing_ok j c (w_ops w)" "c_buffer_out c = b # bs" and q: "w_queue w = []"
  shows "\<exists>out w1. taken j n w = (take n (bytes b), w1) \<and> w_queue w1 = [write_task j b n] \<and>
           list_all (\<lambda>b. bb_ok b \<and> 0 < bb_size b) out \<and> take n (bytes b) @ concat (map bytes out) = unsent c \<and>
           run_task env (write_task j b n) (w1\<lparr>w_queue := [], w_pinned := task_refs (write_task j b n)\<rparr>) =
             (if out \<noteq> [] then Inr (initiate (Write_op j (bytes (hd out))) (with_out j out c (while_writing j b w)))
              else on_write j (with_out j out c (while_writing j b w)))"
proof -
  let ?n = "min n (length (bytes b))" and ?w1 = "finish (Write_op j (bytes b)) (Done [] (min n (length (bytes b)))) w"
  have "?w1\<lparr>w_queue := [], w_pinned := task_refs (write_task j b n)\<rparr> = while_writing j b w"
    by (simp add: while_writing_def finish_def write_task_def)
  moreover have "w_conns (while_writing j b w) j = Some c" using c(1) by simp
  from on_written_exact[OF this c(2,4), of ?n "[]"] obtain out where
    "list_all (\<lambda>b. bb_ok b \<and> 0 < bb_size b) out" "take ?n (bytes b) @ concat (map bytes out) = unsent c"
    "on_written j (Done [] ?n) (while_writing j b w) =
       (if out \<noteq> [] then Inr (initiate (Write_op j (bytes (hd out))) (with_out j out c (while_writing j b w)))
        else on_write j (with_out j out c (while_writing j b w)))"
    by blast
  moreover have "take ?n (bytes b) = take n (bytes b)" by (simp add: min_def)
  ultimately show ?thesis using taken_front[OF c(3,4), of n] q
    by (intro exI[of _ out] exI[of _ ?w1]) (simp add: write_task_def)
qed

lemma occurs_nothing:
  assumes "writing_ok s sc (w_ops w)" "c_buffer_out sc = []" "w_queue w = []"
  shows "leads env i s [To_server n] w [] [] w"
  using leads_Cons[of i s "To_server n" w "[]" "[]" w env w "[]" "[]" "[]" w] taken_none[OF assms(1,2)] assms(3)
  by (auto intro: run_queue.Empty)

lemma occurs_nothing_client:
  assumes "writing_ok i cc (w_ops w)" "c_buffer_out cc = []" "w_queue w = []"
  shows "leads env i s [To_client n] w [] [] w"
  using leads_Cons[of i s "To_client n" w "[]" "[]" w env w "[]" "[]" "[]" w] taken_none[OF assms(1,2)] assms(3)
  by (auto intro: run_queue.Empty)

section \<open>Completed writes one after another\<close>

text \<open>A connection that is up and managed, whose queue and pending write belong together.\<close>

definition writes_on :: "nat \<Rightarrow> 'p connection \<Rightarrow> 'p world \<Rightarrow> bool" where
  "writes_on j c w \<longleftrightarrow> w_conns w j = Some c \<and> up c \<and> writing_ok j c (w_ops w) \<and>
     j \<in> set (w_client_mgr w) \<union> set (w_server_mgr w) \<and> \<not> w_thrown w"

text \<open>
  Events one after another: the socket takes up to \<open>n\<close> bytes of the pending write, and the event loop runs
  the handler. Nothing happens when no write is pending.
\<close>

fun pump :: "'p setting \<Rightarrow> nat \<Rightarrow> nat list \<Rightarrow> 'p world \<Rightarrow> (string \<times> 'p world) result option" where
  "pump env j [] w = Some (Inr ([], w))"
| "pump env j (n # ns) w =
     (if filter (is_write_of j) (w_ops w) = [] then Some (Inr ([], w))
      else case taken j n w of (d, w1) \<Rightarrow>
        (case dispatch env w1 of
           None \<Rightarrow> None
         | Some (Inl f) \<Rightarrow> Some (Inl f)
         | Some (Inr w2) \<Rightarrow> (case pump env j ns w2 of Some (Inr (s, w3)) \<Rightarrow> Some (Inr (d @ s, w3)) | r \<Rightarrow> r)))"

text \<open>No handler waits while something is unsent; then the end of the writing is reported, or the response read.\<close>

definition after_writes :: "nat \<Rightarrow> 'p connection \<Rightarrow> 'p world \<Rightarrow> bool" where
  "after_writes j c w \<longleftrightarrow>
     (if unsent c \<noteq> [] then w_queue w = []
      else if c_kind c = Client then w_queue w = [Event_task WRITE j]
      else w_queue w = [] \<and> last (w_ops w) = Read_op j)"

lemma unsent_empty: "up c \<Longrightarrow> unsent c = [] \<longleftrightarrow> c_buffer_out c = []"
  using nothing_left[of "c_buffer_out c"] by (simp add: up_def unsent_def)

lemma pump_step:
  assumes "writes_on j c w" and "w_queue w = []" and "unsent c \<noteq> []" and "0 < n"
  shows "\<exists>d w1 w2 c2. taken j n w = (d, w1) \<and> dispatch env w1 = Some (Inr w2) \<and> writes_on j c2 w2 \<and> d @ unsent c2 = unsent c \<and>
           length (unsent c2) < length (unsent c) \<and> c_kind c2 = c_kind c \<and> after_writes j c2 w2"
proof -
  have c: "w_conns w j = Some c" "up c" "writing_ok j c (w_ops w)" "j \<in> set (w_client_mgr w) \<union> set (w_server_mgr w)" "\<not> w_thrown w"
    using assms(1) by (simp_all add: writes_on_def)
  obtain b bs where b: "c_buffer_out c = b # bs" using assms(3) c(2) unsent_empty by (cases "c_buffer_out c") auto
  let ?u = "while_writing j b w"
  obtain q w1 where t: "taken j n w = (take n (bytes b), w1)" "w_queue w1 = [write_task j b n]"
    "list_all (\<lambda>b. bb_ok b \<and> 0 < bb_size b) q" "take n (bytes b) @ concat (map bytes q) = unsent c"
    "run_task env (write_task j b n) (w1\<lparr>w_queue := [], w_pinned := task_refs (write_task j b n)\<rparr>) =
       (if q \<noteq> [] then Inr (initiate (Write_op j (bytes (hd q))) (with_out j q c ?u)) else on_write j (with_out j q c ?u))"
    using write_taken[OF c(1-3) b assms(2), of n env] by auto
  let ?c = "c\<lparr>c_buffer_out := q, c_writing := q \<noteq> []\<rparr>"
  define v where "v = (if q \<noteq> [] then initiate (Write_op j (bytes (hd q))) (with_out j q c ?u)
     else if c_kind c = Client then post (Event_task WRITE j) (with_out j q c ?u) else initiate (Read_op j) (with_out j q c ?u))"
  have "on_write j (with_out j q c ?u) = Inr v" if "q = []"
    using c(2) that by (cases "c_kind c") (simp_all add: v_def on_write_def client_on_write_def server_on_write_def read_def up_def)
  then have r: "run_task env (write_task j b n) (w1\<lparr>w_queue := [], w_pinned := task_refs (write_task j b n)\<rparr>) = Inr v"
    using t(5) by (simp add: v_def)
  have v: "w_conns v j = Some ?c" "w_client_mgr v = w_client_mgr w" "w_server_mgr v = w_server_mgr w" "\<not> w_thrown v"
    using c(5) by (simp_all add: v_def)
  have d: "dispatch env w1 = Some (Inr (release v))" by (rule dispatch_one[OF t(2) r v(4)])
  have "w_conns (release v) j = Some ?c"
    using release_held[of j v] c(4) v(1-3) by (auto simp: shared_refs_def)
  moreover have "writing_ok j ?c (w_ops v)"
    using while_writing_ops(1)[OF c(3) b] by (auto simp: v_def writing_ok_def split: list.split)
  moreover have "up ?c" using c(2) t(3) by (simp add: up_def)
  ultimately have w2: "writes_on j ?c (release v)" using c(4) v(2-4) by (simp add: writes_on_def)
  have un: "unsent ?c = concat (map bytes q)" by (simp add: unsent_def)
  have "0 < min (length (bytes b)) n" using assms(4) c(2) b length_bytes[of b] by (auto simp: up_def)
  moreover have "min (length (bytes b)) n + length (concat (map bytes q)) = length (unsent c)" using arg_cong[OF t(4), of length] by simp
  ultimately have len: "length (unsent ?c) < length (unsent c)" unfolding un by linarith
  have "after_writes j ?c (release v)"
    using nothing_left[OF t(3)] un by (auto simp: after_writes_def v_def)
  then show ?thesis using t(1,4) d w2 len un by (intro exI[of _ "take n (bytes b)"] exI[of _ w1] exI[of _ "release v"] exI[of _ ?c]) simp
qed

lemma pump_writes:
  "writes_on j c w \<Longrightarrow> after_writes j c w \<Longrightarrow> 0 \<notin> set ns \<Longrightarrow>
   \<exists>s w' c'. pump env j ns w = Some (Inr (s, w')) \<and> writes_on j c' w' \<and> s @ unsent c' = unsent c \<and> c_kind c' = c_kind c \<and>
     (length (unsent c) \<le> length ns \<longrightarrow> unsent c' = []) \<and> after_writes j c' w'"
proof (induction ns arbitrary: w c)
  case Nil
  then show ?case by (intro exI[of _ "[]"] exI[of _ w] exI[of _ c]) simp
next
  case (Cons n ns)
  show ?case
  proof (cases "unsent c = []")
    case True
    then have "filter (is_write_of j) (w_ops w) = []"
      using Cons.prems(1) unsent_empty[of c] by (simp add: writes_on_def writing_ok_def)
    then show ?thesis using Cons.prems(1,2) True by auto
  next
    case False
    then have "filter (is_write_of j) (w_ops w) \<noteq> []" "w_queue w = []"
      using Cons.prems(1,2) unsent_empty[of c] by (auto simp: writes_on_def writing_ok_def after_writes_def split: list.splits)
    moreover obtain d w1 w2 c2 where 1: "taken j n w = (d, w1)" "dispatch env w1 = Some (Inr w2)" "writes_on j c2 w2"
      "d @ unsent c2 = unsent c" "length (unsent c2) < length (unsent c)" "c_kind c2 = c_kind c" "after_writes j c2 w2"
      using pump_step[OF Cons.prems(1) calculation(2) False, of n env] Cons.prems(3) by auto
    moreover obtain s w' c' where 2: "pump env j ns w2 = Some (Inr (s, w'))" "writes_on j c' w'" "s @ unsent c' = unsent c2"
      "c_kind c' = c_kind c2" "length (unsent c2) \<le> length ns \<longrightarrow> unsent c' = []" "after_writes j c' w'"
      using Cons.IH[OF 1(3,7)] Cons.prems(3) by auto
    ultimately show ?thesis
      by (intro exI[of _ "d @ s"] exI[of _ w'] exI[of _ c']) (auto split: prod.splits)
  qed
qed

section \<open>Properties\<close>

text \<open>
  C4: Order of the bytes on the socket. Take a connection that is up and managed, whose queue is not empty and
  whose write is pending, while no handler is waiting to run. Each event is that the socket takes some bytes
  of the write that is pending on it, at least one and at most those it was given, and the event loop runs
  the handler. However it divides them, no handler faults, and the bytes that the socket took are in
  order the bytes of the queue up to what the queue still holds: none is lost, repeated or reordered. There is always exactly one write
  pending, of the buffer in front, until the queue is empty, which it is after at most as many writes as
  there were bytes; and then a client connection reports the end of the writing to its context, and a server
  connection reads the response.
\<close>

theorem writes_keep_byte_order:
  assumes "writes_on j c w" and "w_queue w = []" and "unsent c \<noteq> []" and "0 \<notin> set ns"
  shows "\<exists>s w' c'. pump env j ns w = Some (Inr (s, w')) \<and> writes_on j c' w' \<and> s @ unsent c' = unsent c \<and>
           (length (unsent c) \<le> length ns \<longrightarrow> unsent c' = []) \<and>
           (if unsent c' \<noteq> [] then w_queue w' = []
            else if c_kind c = Client then w_queue w' = [Event_task WRITE j]
            else w_queue w' = [] \<and> last (w_ops w') = Read_op j)"
proof -
  have "after_writes j c w" using assms(2,3) by (simp add: after_writes_def)
  from pump_writes[OF assms(1) this assms(4), of env] obtain s w' c' where
    "pump env j ns w = Some (Inr (s, w'))" "writes_on j c' w'" "s @ unsent c' = unsent c" "c_kind c' = c_kind c"
    "length (unsent c) \<le> length ns \<longrightarrow> unsent c' = []" "after_writes j c' w'" by blast
  then show ?thesis by (intro exI[of _ s] exI[of _ w'] exI[of _ c']) (simp add: after_writes_def)
qed

definition busy_conn :: "(parser_view \<times> callback) list list connection" where
  "busy_conn = (sample_conn Client)\<lparr>c_buffer_out := [rep ''abcd'' [], rep ''efg'' [None]], c_writing := True\<rparr>"

definition busy_world :: "(parser_view \<times> callback) list list world" where
  "busy_world = (sample_world busy_conn (sample_conn Server))\<lparr>w_ops := [Signal_op, Write_op 1 ''abcd'']\<rparr>"

theorem writes_keep_byte_order_witness:
  "\<exists>w' c'. pump sample_setting 1 [2, 1, 4, 9, 1, 1, 1] busy_world = Some (Inr (''abcdefg'', w')) \<and>
     w_conns w' 1 = Some c' \<and> unsent c' = [] \<and> w_queue w' = [Event_task WRITE 1]"
proof -
  have un: "unsent busy_conn = ''abcdefg''" "c_kind busy_conn = Client" by (simp_all add: busy_conn_def unsent_def sample_conn_def)
  have w: "writes_on 1 busy_conn busy_world" "w_queue busy_world = []"
    by (simp_all add: writes_on_def busy_world_def sample_world_def up_def busy_conn_def sample_conn_def writing_ok_def MAX_ALLOC_def)
  have "0 \<notin> set [2, 1, 4, 9, 1, 1, 1 :: nat]" "unsent busy_conn \<noteq> []" by (simp_all add: un)
  from writes_keep_byte_order[OF w this(2,1), of sample_setting] show ?thesis
    by (auto simp: un writes_on_def simp del: pump.simps)
qed

end
