(* ===== verification/Halves.thy ===== *)
theory Halves
  imports Relay
begin

text \<open>
  One message on one side of an exchange, as the parser reports it over any number of reads: the decoder
  after every callback, for requests and responses alike, and the message and the text in the end.
\<close>

section \<open>Messages as the parser reports them\<close>

text \<open>
  One message: what the parser shows with its callbacks, the target or the status text, the headers in
  fragments, the body in pieces, and the callbacks divided over the reads.
\<close>

record half =
  h_view :: parser_view
  h_line :: string
  h_headers :: "fragments list"
  h_pieces :: "string list"
  h_calls :: "(parser_view \<times> callback) list list"

definition forwarded_text :: "parser_view \<Rightarrow> string \<Rightarrow> fragments list \<Rightarrow> string list \<Rightarrow> string" where
  "forwarded_text v u hs ps =
     pv_method v @ '' '' @ rewrite_uri (pv_is_connect v) u @ '' HTTP/'' @ to_string_int (pv_major v) @ ''.'' @
     to_string_int (pv_minor v) @ CRLF @ concat (map header_line (decoded_headers hs)) @ CRLF @ decoded_body v ps"

fun calls_of :: "parser_type \<Rightarrow> half \<Rightarrow> (parser_view \<times> callback) list" where
  "calls_of HTTP_REQUEST h = request_calls (h_view h) (h_line h) (h_headers h) (h_pieces h)"
| "calls_of HTTP_RESPONSE h = response_calls (h_view h) (h_line h) (h_headers h) (h_pieces h)"

fun part_of :: "parser_type \<Rightarrow> half \<Rightarrow> derived_part" where
  "part_of HTTP_REQUEST h = Request_part (pv_method (h_view h)) (rewrite_uri (pv_is_connect (h_view h)) (h_line h))"
| "part_of HTTP_RESPONSE h = Response_part (pv_status (h_view h)) (h_line h)"

fun text_of :: "parser_type \<Rightarrow> half \<Rightarrow> string" where
  "text_of HTTP_REQUEST h = forwarded_text (h_view h) (h_line h) (h_headers h) (h_pieces h)"
| "text_of HTTP_RESPONSE h = response_text (h_view h) (h_line h) (h_headers h) (decoded_body (h_view h) (h_pieces h))"

definition half_ok :: "parser_type \<Rightarrow> half \<Rightarrow> bool" where
  "half_ok t h \<longleftrightarrow> h_headers h \<noteq> [] \<and> list_all fragments_ok (h_headers h) \<and> length (text_of t h) \<le> SINK_LIMIT"

definition message_of :: "parser_type \<Rightarrow> half \<Rightarrow> http_message \<Rightarrow> bool" where
  "message_of t h = complete_message (h_view h) (part_of t h) (decoded_headers (h_headers h)) (decoded_body (h_view h) (h_pieces h))"

lemma message_of_text: "message_of t h m \<Longrightarrow> serialize m = text_of t h"
  by (cases t) (simp_all add: message_of_def complete_message_def serialize_def start_line_def header_block_def
      forwarded_text_def response_text_def body_text_def)

lemma half_body: "half_ok t h \<Longrightarrow> length (decoded_body (h_view h) (h_pieces h)) \<le> SINK_LIMIT"
  by (cases t) (simp_all add: half_ok_def forwarded_text_def response_text_def)

text \<open>A new or reset message.\<close>

definition blank :: "parser_type \<Rightarrow> http_message \<Rightarrow> bool" where
  "blank t m \<longleftrightarrow> matches t (derived m) \<and> \<not> headers_done m \<and> \<not> message_done m \<and> msg_ok SINK_LIMIT m \<and>
     headers m = [] \<and> body_text m = []"

lemma blank_fresh: "blank HTTP_RESPONSE m = fresh m"
  by (auto simp: blank_def fresh_def unread_def)

lemma blank_reset: "msg_ok SINK_LIMIT m \<Longrightarrow> matches t (derived m) \<Longrightarrow> blank t (reset_message m)"
  using fits_clear[of SINK_LIMIT "body m"]
  by (cases t; cases "derived m") (simp_all add: blank_def reset_message_def msg_ok_def headers_ok_def body_text_def)

section \<open>Decoding, call by call\<close>

definition given :: "'p parser_api \<Rightarrow> parser_type \<Rightarrow> 'p http_decoder" where
  "given api t = (new_decoder api t)\<lparr>dec_has_message := True\<rparr>"

lemma run_callback_type: "whenever (run_callback c s) (\<lambda>s'. dec_type (fst s') = dec_type (fst s))"
proof -
  obtain v k where "c = (v, k)" by (cases c)
  then show ?thesis
    by (cases k; cases s)
       (auto simp: on_message_begin_def on_url_def on_status_def on_header_field_def
          on_header_value_def on_headers_complete_def on_body_def on_message_complete_def Let_def
          intro: whenever_mono[OF whenever_true])
qed

lemma fold_callbacks_type: "whenever (fold_res run_callback cs s) (\<lambda>s'. dec_type (fst s') = dec_type (fst s))"
proof (rule whenever_fold_res)
  fix c and s' :: "'a decoding" assume "dec_type (fst s') = dec_type (fst s)"
  then show "whenever (run_callback c s') (\<lambda>x. dec_type (fst x) = dec_type (fst s))"
    by (intro whenever_mono[OF run_callback_type]) simp
qed simp

lemma message_decodes:
  assumes "blank t m0" and "half_ok t h"
  shows "\<exists>d m. fold_res run_callback (calls_of t h) (given api t, m0) = Inr (d, m) \<and> dec_headers_done d \<and> dec_type d = t \<and>
           message_of t h m \<and> msg_ok SINK_LIMIT m"
proof -
  let ?v = "h_view h" and ?m = "m0\<lparr>derived := part_of t h\<rparr>" and ?d = "given api t"
  let ?rest = "header_calls ?v (h_headers h) @ (?v, On_headers_complete) #
             map (\<lambda>x. (?v, On_body x)) (h_pieces h) @ [(?v, On_message_complete)]"
  have p: "dec_has_message ?d" "current_value ?d = []" "current_field ?d = []" "\<not> dec_chunked ?d"
    by (simp_all add: given_def new_decoder_def)
  have m: "msg_ok SINK_LIMIT ?m" "headers ?m = []" "body_text ?m = []"
    using assms(1) by (auto simp: blank_def msg_ok_def body_text_def)
  obtain d m where r: "fold_res run_callback ?rest (?d, ?m) = Inr (d, m)" "msg_ok SINK_LIMIT m"
    "complete_message ?v (derived ?m) (decoded_headers (h_headers h)) (decoded_body ?v (h_pieces h)) m" "dec_headers_done d"
    using rest_of_message[OF p m, of "h_headers h" ?v "h_pieces h"] assms(2) half_body[OF assms(2)]
    by (auto simp: half_ok_def)
  have b: "on_message_begin (?d, m0) = Inr (?d, m0)"
    by (simp add: on_message_begin_def given_def new_decoder_def)
  have "fold_res run_callback (calls_of t h) (?d, m0) = Inr (d, m)"
  proof (cases t)
    case HTTP_REQUEST
    then have "on_url ?v (h_line h) (?d, m0) = Inr (?d, ?m)"
      using assms(1) p(1) by (cases "derived m0") (simp_all add: on_url_def set_method_uri_def blank_def)
    then show ?thesis using b r(1) HTTP_REQUEST by (simp add: request_calls_def)
  next
    case HTTP_RESPONSE
    then have "on_status ?v (h_line h) (?d, m0) = Inr (?d, ?m)"
      using assms(1) p(1) by (cases "derived m0") (simp_all add: on_status_def set_status_message_def blank_def)
    then show ?thesis using b r(1) HTTP_RESPONSE by (simp add: response_calls_def)
  qed
  moreover have "dec_type d = t"
    using fold_callbacks_type[of "calls_of t h" "(?d, m0)"] calculation by (simp add: given_def new_decoder_def)
  ultimately show ?thesis using r(2-4) by (auto simp: message_of_def)
qed

definition pending :: "parser_type \<Rightarrow> http_message \<Rightarrow> bool" where
  "pending t m \<longleftrightarrow> \<not> message_done m \<and> matches t (derived m)"

lemma append_keeps_pending:
  "pending t m \<Longrightarrow> whenever (append_body_data p n m) (pending t)"
  "pending t m \<Longrightarrow> whenever (append_body_string x m) (pending t)"
  by (auto simp: append_body_data_def append_body_string_def pending_def intro: whenever_any)

lemma on_body_pending: "pending t m \<Longrightarrow> whenever (on_body x (p, m)) (\<lambda>s'. pending t (snd s'))"
  by (auto simp: on_body_def intro!: whenever_mono[OF append_keeps_pending(1)] whenever_mono[OF append_keeps_pending(2)])

lemma not_last_pending:
  assumes "snd c \<noteq> On_message_complete" and "pending t (snd s)"
  shows "whenever (run_callback c s) (\<lambda>s'. pending t (snd s'))"
proof (cases "snd c")
  case (On_body x)
  then show ?thesis using assms on_body_pending[of t "snd s" x "fst s"] by (cases c) simp
qed (use assms in \<open>cases c; cases s; cases t; cases "derived (snd s)"; simp add: pending_def on_message_begin_def on_url_def on_status_def
    on_header_field_def set_method_uri_def set_status_message_def on_header_value_def on_headers_complete_def Let_def add_header_def\<close>)+

lemma unfinished:
  assumes "n < length (calls_of t h)" and "fold_res run_callback (take n (calls_of t h)) s = Inr s'" and "pending u (snd s)"
  shows "pending u (snd s')"
proof -
  have "\<forall>c \<in> set (butlast (calls_of t h)). snd c \<noteq> On_message_complete"
    by (cases t) (auto simp: request_calls_def response_calls_def header_calls_def butlast_append)
  moreover have "set (take n (calls_of t h)) \<subseteq> set (butlast (calls_of t h))"
    using assms(1) set_take_subset[of n "butlast (calls_of t h)"] by (simp add: take_butlast)
  ultimately have "whenever (fold_res run_callback (take n (calls_of t h)) s) (\<lambda>s'. pending u (snd s'))"
    using assms(3) by (intro whenever_fold_res not_last_pending) auto
  then show ?thesis using assms(2) by simp
qed

text \<open>After \<open>n\<close> of the callbacks; \<open>p\<close> is the state of the parser.\<close>

definition progress :: "'p parser_api \<Rightarrow> parser_type \<Rightarrow> half \<Rightarrow> http_message \<Rightarrow> nat \<Rightarrow> 'p \<Rightarrow> 'p connection \<Rightarrow> bool" where
  "progress api t h m0 n p c \<longleftrightarrow>
     (\<exists>d. fold_res run_callback (take n (calls_of t h)) (given api t, m0) = Inr (d, c_message c) \<and>
        (c_decoder c)\<lparr>dec_has_message := True\<rparr> = d\<lparr>dec_parser := p\<rparr>)"

lemma progress_start:
  "c_decoder c = new_decoder api t \<Longrightarrow> progress api t h (c_message c) 0 (api_init api t) c"
  by (simp add: progress_def given_def new_decoder_def)

lemma progress_frame: "progress api t h m0 n p c \<Longrightarrow> c_message c' = c_message c \<Longrightarrow> c_decoder c' = c_decoder c \<Longrightarrow>
    progress api t h m0 n p c'"
  by (simp add: progress_def)

lemma progress_next:
  assumes d: "progress api t h m0 n p c" and ex: "api_execute api p x = (p1, cs, length x)"
    and m0: "blank t m0" and h: "half_ok t h"
    and cs: "take (n + length cs) (calls_of t h) = take n (calls_of t h) @ cs"
  shows "\<exists>d1 m1. decode api x (c_decoder c) (c_message c) = Inr (d1, m1, length x) \<and>
           progress api t h m0 (n + length cs) p1 (c\<lparr>c_decoder := d1, c_message := m1\<rparr>)"
proof -
  obtain d where r: "fold_res run_callback (take n (calls_of t h)) (given api t, m0) = Inr (d, c_message c)"
    "(c_decoder c)\<lparr>dec_has_message := True\<rparr> = d\<lparr>dec_parser := p\<rparr>" using d by (auto simp: progress_def)
  have "\<exists>s. fold_res run_callback (take (n + length cs) (calls_of t h)) (given api t, m0) = Inr s"
  proof -
    have "fold_res run_callback (calls_of t h) (given api t, m0) =
        bind_res (fold_res run_callback (take (n + length cs) (calls_of t h)) (given api t, m0))
          (fold_res run_callback (drop (n + length cs) (calls_of t h)))"
      using fold_res_append[of run_callback "take (n + length cs) (calls_of t h)" "drop (n + length cs) (calls_of t h)"] by simp
    then show ?thesis
      using message_decodes[OF m0 h, of api]
      by (cases "fold_res run_callback (take (n + length cs) (calls_of t h)) (given api t, m0)") auto
  qed
  then obtain d1 m1 where 1: "fold_res run_callback (take (n + length cs) (calls_of t h)) (given api t, m0) = Inr (d1, m1)"
    by auto
  have has: "dec_has_message d1"
    using fold_callbacks_has_message[of "(given api t, m0)" "take (n + length cs) (calls_of t h)"] 1 by (simp add: given_def)
  have "fold_res run_callback cs (d, c_message c) = Inr (d1, m1)" using 1 r(1) cs by (simp add: fold_res_append)
  then have run: "fold_res run_callback cs ((c_decoder c)\<lparr>dec_has_message := True\<rparr>, c_message c) = Inr (d1\<lparr>dec_parser := p\<rparr>, m1)"
    using fold_callbacks_with_parser[of cs p "(d, c_message c)"] r(2) by (simp add: with_parser_def)
  have "dec_parser ((c_decoder c)\<lparr>dec_has_message := True\<rparr>) = p" unfolding r(2) by simp
  then have p: "dec_parser (c_decoder c) = p" by simp
  have "decode api x (c_decoder c) (c_message c) = Inr (d1\<lparr>dec_parser := p1\<rparr>, m1, length x)"
    using run ex p by (simp add: decode_def)
  moreover have "(d1\<lparr>dec_parser := p1\<rparr>)\<lparr>dec_has_message := True\<rparr> = d1\<lparr>dec_parser := p1\<rparr>" using has by simp
  ultimately show ?thesis using 1 by (auto simp: progress_def)
qed

lemma progress_pending:
  assumes "progress api t h m0 n p c" and "blank t m0" and "n < length (calls_of t h)"
  shows "pending t (c_message c)"
  using assms unfinished[of n t h "(given api t, m0)" _ t] by (auto simp: progress_def blank_def pending_def)

lemma progress_end:
  assumes "progress api t h m0 (length (calls_of t h)) p c" and "blank t m0" and "half_ok t h"
  shows "message_of t h (c_message c) \<and> msg_ok SINK_LIMIT (c_message c) \<and> dec_type (c_decoder c) = t \<and>
    dec_headers_done (c_decoder c) \<and> dec_parser (c_decoder c) = p"
proof -
  obtain d where d: "message_of t h (c_message c)" "msg_ok SINK_LIMIT (c_message c)" "dec_type d = t" "dec_headers_done d"
    "(c_decoder c)\<lparr>dec_has_message := True\<rparr> = d\<lparr>dec_parser := p\<rparr>"
    using message_decodes[OF assms(2,3), of api] assms(1) by (auto simp: progress_def)
  have "dec_type ((c_decoder c)\<lparr>dec_has_message := True\<rparr>) = t" "dec_headers_done ((c_decoder c)\<lparr>dec_has_message := True\<rparr>)"
    "dec_parser ((c_decoder c)\<lparr>dec_has_message := True\<rparr>) = p" unfolding d(5) using d(3,4) by simp_all
  then show ?thesis using d(1,2) by simp
qed

text \<open>A response that has come so far, as the lemmas on responses have it.\<close>

lemma progress_decoded_to:
  assumes "progress api HTTP_RESPONSE h m0 n p c" and "blank HTTP_RESPONSE m0" and "half_ok HTTP_RESPONSE h"
    and "n \<le> length (calls_of HTTP_RESPONSE h)"
  shows "decoded_to api (h_view h) (h_line h) (h_headers h) (h_pieces h) m0 n p c"
  using assms calls_arrive[of m0 "h_headers h" "h_view h" "h_pieces h" n "h_line h" api] half_body[OF assms(3)]
  by (auto simp: progress_def decoded_to_def blank_fresh half_ok_def given_def first_state_def)

end
