(* ===== verification/RequestLeg.thy ===== *)
theory RequestLeg
  imports Traffic Halves
begin

text \<open>
  The first half of an exchange between a client and a server that are both connected: the reads of the
  request, and its writes to the server, in any division. \<open>asking\<close> and \<open>sending\<close> describe the world between
  two events.
\<close>

section \<open>A client and a server that work together\<close>

definition wired :: "nat \<Rightarrow> nat \<Rightarrow> nat \<Rightarrow> 'p connection \<Rightarrow> 'p connection \<Rightarrow> 'p world \<Rightarrow> bool" where
  "wired k i s cc sc w \<longleftrightarrow> i \<noteq> s \<and> i \<in> set (w_client_mgr w) \<and> s \<in> set (w_server_mgr w) \<and>
     client_conn (w_contexts w k) = Some i \<and> server_conn (w_contexts w k) = Some s \<and>
     \<not> (https (w_contexts w k) \<and> \<not> ssl_setup (w_contexts w k)) \<and>
     w_conns w i = Some cc \<and> up cc \<and> c_kind cc = Client \<and> c_context cc = k \<and>
     w_conns w s = Some sc \<and> up sc \<and> c_kind sc = Server \<and> c_context sc = k \<and> \<not> w_thrown w"

lemma wired_paired: "wired k i s cc sc w \<Longrightarrow> \<not> running (c_timer sc) \<Longrightarrow> paired k i s cc sc w"
  by (simp add: wired_def paired_def)

lemma wired_locks: "wired k i s cc sc w \<Longrightarrow> lock w (client_conn (w_contexts w k)) = Some i \<and> lock w (server_conn (w_contexts w k)) = Some s"
  by (auto simp: wired_def lock_def shared_refs_def)

lemma wired_release: "wired k i s cc sc w \<Longrightarrow> wired k i s cc sc (release w)"
  using release_held[of i w] release_held[of s w] by (auto simp: wired_def shared_refs_def)

text \<open>The aborted waits in front of the queue.\<close>

lemma settles:
  assumes l: "wired k i s cc sc w" and q: "w_queue w = q @ rest" "list_all (aborted_wait {i, s}) q"
  shows "\<exists>w' r r'. runs env w w' \<and> w_queue w' = rest \<and> w_ops w' = w_ops w \<and> w_contexts w' = w_contexts w \<and>
           wired k i s (cc\<lparr>c_timer := r\<rparr>) (sc\<lparr>c_timer := r'\<rparr>) w' \<and> (running r' \<longrightarrow> running (c_timer sc)) \<and>
           (waits_of s q \<longrightarrow> \<not> running r')"
proof -
  have D: "{i, s} \<subseteq> set (w_client_mgr w) \<union> set (w_server_mgr w)" "{i, s} \<subseteq> dom (w_conns w)" "\<not> w_thrown w"
    using l by (auto simp: wired_def)
  obtain w' where w': "runs env w w'" "w_queue w' = rest" "same_but_timers {i, s} w w'"
    "\<And>c'. waits_of s q \<Longrightarrow> w_conns w' s = Some c' \<Longrightarrow> \<not> running (c_timer c')"
    using waits_run[OF q D, of env] by blast
  have m: "i \<in> set (w_client_mgr w) \<union> set (w_server_mgr w)" "s \<in> set (w_client_mgr w) \<union> set (w_server_mgr w)"
    "w_conns w i = Some cc" "w_conns w s = Some sc" using l by (simp_all add: wired_def)
  obtain r where r: "w_conns w' i = Some (cc\<lparr>c_timer := r\<rparr>)" by (rule same_but_timers_conn[OF w'(3) m(1,3)])
  obtain r' where r': "w_conns w' s = Some (sc\<lparr>c_timer := r'\<rparr>)" "running r' \<longrightarrow> running (c_timer sc)"
    by (rule same_but_timers_conn[OF w'(3) m(2,4)])
  have "wired k i s (cc\<lparr>c_timer := r\<rparr>) (sc\<lparr>c_timer := r'\<rparr>) w'"
    using l r r' w'(3) by (simp add: wired_def same_but_timers_def up_def)
  moreover have "w_ops w' = w_ops w" "w_contexts w' = w_contexts w" using w'(3) by (simp_all add: same_but_timers_def)
  ultimately show ?thesis using w'(1,2) w'(4)[OF _ r'(1)] r'(2) by auto
qed

definition steady :: "nat \<Rightarrow> nat \<Rightarrow> nat \<Rightarrow> 'p connection \<Rightarrow> 'p connection \<Rightarrow> 'p world \<Rightarrow> bool" where
  "steady k i s cc sc w \<longleftrightarrow> wired k i s cc sc w \<and> writing_ok i cc (w_ops w) \<and> writing_ok s sc (w_ops w) \<and> w_queue w = []"

definition tracked :: "nat \<Rightarrow> 'p connection \<Rightarrow> operation list \<Rightarrow> bool" where
  "tracked j c ps \<longleftrightarrow> (running (c_timer c) \<longrightarrow> (\<exists>a b. Timer_op j a b \<in> set ps))"

lemma tracked_kept:
  "tracked j c ps \<Longrightarrow> running r \<longrightarrow> running (c_timer c) \<Longrightarrow> (\<And>a b. Timer_op j a b \<in> set ps \<Longrightarrow> Timer_op j a b \<in> set ps') \<Longrightarrow>
   tracked j (c\<lparr>c_timer := r\<rparr>) ps'"
  unfolding tracked_def by auto

lemma tracked_ops: "tracked j c ps \<Longrightarrow> (\<And>a b. Timer_op j a b \<in> set ps \<Longrightarrow> Timer_op j a b \<in> set ps') \<Longrightarrow> tracked j c ps'"
  unfolding tracked_def by blast

definition quiet_client :: "'p connection \<Rightarrow> bool" where
  "quiet_client c \<longleftrightarrow> c_encoder c = new_encoder HTTP_RESPONSE \<and> c_buffer_out c = []"

definition quiet_server :: "'p parser_api \<Rightarrow> 'p connection \<Rightarrow> bool" where
  "quiet_server api c \<longleftrightarrow> c_decoder c = new_decoder api HTTP_RESPONSE \<and> blank HTTP_RESPONSE (c_message c) \<and>
     c_encoder c = new_encoder HTTP_REQUEST \<and> c_buffer_out c = []"

lemma quiet_timer [simp]: "quiet_client (c\<lparr>c_timer := r\<rparr>) = quiet_client c" "quiet_server api (c\<lparr>c_timer := r\<rparr>) = quiet_server api c"
  "quiet_client (c\<lparr>c_decoder := d, c_message := m\<rparr>) = quiet_client c"
  "progress api t h m0 n p (c\<lparr>c_timer := r\<rparr>) = progress api t h m0 n p c"
  by (simp_all add: quiet_client_def quiet_server_def progress_def)

section \<open>The request is read\<close>

text \<open>\<open>n\<close> callbacks of the request have been made and more are to come.\<close>

definition asking :: "'p setting \<Rightarrow> nat \<Rightarrow> nat \<Rightarrow> nat \<Rightarrow> half \<Rightarrow> http_message \<Rightarrow> nat \<Rightarrow> 'p \<Rightarrow> 'p world \<Rightarrow> bool" where
  "asking env k i s h m0 n p w \<longleftrightarrow> (\<exists>cc sc. steady k i s cc sc w \<and> tracked s sc (w_ops w) \<and> Read_op i \<in> set (w_ops w) \<and>
     \<not> exchange_completed (w_contexts w k) \<and> progress (parser env) HTTP_REQUEST h m0 n p cc \<and>
     quiet_client cc \<and> quiet_server (parser env) sc)"

lemma request_pending: "pending HTTP_REQUEST m \<Longrightarrow> \<not> completed m \<and> \<not> deliverable m"
  by (cases "derived m") (simp_all add: deliverable_def pending_def completed_def)

lemma asking_more:
  assumes a: "asking env k i s h m0 n p w" and x: "x \<noteq> []" "api_execute (parser env) p x = (p1, cs, length x)"
    and h: "blank HTTP_REQUEST m0" "half_ok HTTP_REQUEST h"
    and cs: "take (n + length cs) (calls_of HTTP_REQUEST h) = take n (calls_of HTTP_REQUEST h) @ cs"
      "n + length cs < length (calls_of HTTP_REQUEST h)"
  shows "\<exists>w'. leads env i s [From_client x] w [] [] w' \<and> asking env k i s h m0 (n + length cs) p1 w'"
proof -
  obtain cc sc where w: "wired k i s cc sc w" "writing_ok i cc (w_ops w)" "writing_ok s sc (w_ops w)" "w_queue w = []"
    "tracked s sc (w_ops w)" "Read_op i \<in> set (w_ops w)" "\<not> exchange_completed (w_contexts w k)"
    "progress (parser env) HTTP_REQUEST h m0 n p cc" "quiet_client cc" "quiet_server (parser env) sc"
    using a by (auto simp: asking_def steady_def)
  obtain d m where d: "decode (parser env) x (c_decoder cc) (c_message cc) = Inr (d, m, length x)"
    "progress (parser env) HTTP_REQUEST h m0 (n + length cs) p1 (cc\<lparr>c_decoder := d, c_message := m\<rparr>)"
    using progress_next[OF w(8) x(2) h cs(1)] by blast
  let ?cc = "cc\<lparr>c_decoder := d, c_message := m\<rparr>" and ?w1 = "finish (Read_op i) (Done x (length x)) w"
  let ?u = "?w1\<lparr>w_queue := [], w_pinned := [i]\<rparr>"
  let ?v = "initiate (Read_op i) (modify i (\<lambda>c. c\<lparr>c_decoder := d, c_message := m\<rparr>)
     (if running (c_timer cc) then cancel_waits i ?u else ?u))"
  have m: "\<not> completed (c_message cc)" "\<not> deliverable m"
    using progress_pending[OF w(8) h(1)] progress_pending[OF d(2) h(1) cs(2)] cs(2) request_pending by simp_all
  have "run_task env (Ready (Read_op i) (Done x (length x))) (?w1\<lparr>w_queue := [], w_pinned := task_refs (Ready (Read_op i) (Done x (length x)))\<rparr>) = Inr ?v"
    using w(1) x(1) m d(1) unfolding wired_def up_def
    by (simp add: client_on_read_def client_decoded_def Let_def timer_cancel_def read_def)
  then have di: "dispatch env ?w1 = Some (Inr (release ?v))"
    by (rule dispatch_one[rotated]) (use w(1,4) in \<open>simp_all add: wired_def\<close>)
  have "wired k i s ?cc sc ?v" using w(1) by (simp add: wired_def up_def)
  then have lv: "wired k i s ?cc sc (release ?v)" by (rule wired_release)
  have q: "w_queue (release ?v) = w_queue ?v @ []" "list_all (aborted_wait {i, s}) (w_queue ?v)"
    using w(4) by (auto simp: cancel_waits_def list_all_iff elim!: is_timer_of.elims)
  obtain w' r r' where w': "runs env (release ?v) w'" "w_queue w' = []" "w_ops w' = w_ops ?v" "w_contexts w' = w_contexts w"
    "wired k i s (?cc\<lparr>c_timer := r\<rparr>) (sc\<lparr>c_timer := r'\<rparr>) w'" "running r' \<longrightarrow> running (c_timer sc)"
    using settles[OF lv q, of env] by auto
  have ops: "writing_ok i ?cc (w_ops w')" "writing_ok s sc (w_ops w')" "tracked s (sc\<lparr>c_timer := r'\<rparr>) (w_ops w')" "Read_op i \<in> set (w_ops w')"
    using w(1,2,3,5) w'(3,6) by (auto simp: writing_ok_def tracked_def wired_def)
  have "leads env i s [From_client x] w ([] @ []) ([] @ []) w'"
    by (rule leads_Cons[OF _ runs_queue[OF runs.Step[OF di w'(1)] w'(2)]]) (simp_all add: arrives_def w(6))
  moreover have "asking env k i s h m0 (n + length cs) p1 w'"
    unfolding asking_def steady_def using w(7,9,10) w'(2,4,5) ops d(2)
    by (intro exI[of _ "?cc\<lparr>c_timer := r\<rparr>"] exI[of _ "sc\<lparr>c_timer := r'\<rparr>"]) simp
  ultimately show ?thesis by auto
qed

section \<open>The request is written\<close>

definition client_done :: "'p connection \<Rightarrow> 'p \<Rightarrow> bool" where
  "client_done c p \<longleftrightarrow> dec_type (c_decoder c) = HTTP_REQUEST \<and> dec_headers_done (c_decoder c) \<and> dec_parser (c_decoder c) = p \<and>
     msg_ok SINK_LIMIT (c_message c) \<and> matches HTTP_REQUEST (derived (c_message c))"

definition server_open :: "'p parser_api \<Rightarrow> 'p connection \<Rightarrow> bool" where
  "server_open api c \<longleftrightarrow> c_decoder c = new_decoder api HTTP_RESPONSE \<and> blank HTTP_RESPONSE (c_message c) \<and>
     enc_type (c_encoder c) = HTTP_REQUEST \<and> \<not> running (c_timer c)"

lemma done_simps [simp]: "client_done (c\<lparr>c_timer := r\<rparr>) p = client_done c p"
  "client_done (c\<lparr>c_buffer_out := out, c_writing := b\<rparr>) p = client_done c p"
  "client_done (written_conn e out c) p = client_done c p"
  "server_open api (c\<lparr>c_buffer_out := out, c_writing := b\<rparr>) = server_open api c"
  by (simp_all add: client_done_def server_open_def)

text \<open>The bytes of the request that the server has not been sent yet are \<open>out\<close>.\<close>

definition sending :: "'p setting \<Rightarrow> nat \<Rightarrow> nat \<Rightarrow> nat \<Rightarrow> 'p \<Rightarrow> string \<Rightarrow> 'p world \<Rightarrow> bool" where
  "sending env k i s p out w \<longleftrightarrow> (\<exists>cc sc. steady k i s cc sc w \<and> \<not> exchange_completed (w_contexts w k) \<and>
     client_done cc p \<and> quiet_client cc \<and> server_open (parser env) sc \<and> unsent sc = out)"

text \<open>The last read of the request: what the handler leaves, with its event in the queue.\<close>

lemma request_read_completes:
  assumes l: "wired k i s cc sc u" and x: "x \<noteq> []" and u: "w_queue u = []"
    and d: "decode (parser env) x (c_decoder cc) (c_message cc) = Inr (d, m, length x)"
    and m: "\<not> completed (c_message cc)" "deliverable m"
  shows "\<exists>v r q1 q2. client_on_read (parser env) i (Done x l) u = Inr v \<and>
           wired k i s (cc\<lparr>c_decoder := d, c_message := m, c_timer := r\<rparr>) sc v \<and>
           w_queue v = q1 @ Event_task READ i # q2 \<and> list_all (aborted_wait {i, s}) (q1 @ q2) \<and>
           (\<forall>j. filter (is_write_of j) (w_ops v) = filter (is_write_of j) (w_ops u)) \<and>
           (\<forall>p \<in> set (w_ops u). \<not> is_timer_of i p \<longrightarrow> p \<in> set (w_ops v)) \<and> w_contexts v = w_contexts u"
proof -
  let ?t = "if running (c_timer cc) then cancel_waits i u else u"
  let ?p = "post (Event_task READ i) (modify i (\<lambda>c. c\<lparr>c_decoder := d, c_message := m\<rparr>) ?t)"
  have c: "w_conns ?p i = Some (cc\<lparr>c_decoder := d, c_message := m\<rparr>)" using l by (simp add: wired_def)
  have on: "client_on_read (parser env) i (Done x l) u = timer_start i SVR_RSP_WAITING_TIME True ?p"
    using l x m d unfolding wired_def up_def
    by (simp add: client_on_read_def client_decoded_def Let_def timer_cancel_def)
  show ?thesis
  proof (cases "running (c_timer cc)")
    case True
    have q: "w_queue ?p = map (\<lambda>p. Ready p Aborted) (filter (is_timer_of i) (w_ops u)) @ Event_task READ i # []"
      using True u by (simp add: cancel_waits_def)
    have "timer_start i SVR_RSP_WAITING_TIME True ?p = Inr ?p" using c True by (simp add: timer_start_def)
    moreover have "wired k i s (cc\<lparr>c_decoder := d, c_message := m, c_timer := c_timer cc\<rparr>) sc ?p"
      using l by (simp add: wired_def up_def)
    moreover have "list_all (aborted_wait {i, s}) (map (\<lambda>p. Ready p Aborted) (filter (is_timer_of i) (w_ops u)) @ [])"
      by (auto simp: list_all_iff elim!: is_timer_of.elims)
    ultimately show ?thesis using on q True
      by (intro exI[of _ ?p] exI[of _ "c_timer cc"] exI[of _ "map (\<lambda>p. Ready p Aborted) (filter (is_timer_of i) (w_ops u))"] exI[of _ "[]"])
        simp
  next
    case False
    let ?r = "(c_timer cc)\<lparr>running := True\<rparr>"
    let ?v = "modify i (\<lambda>c. c\<lparr>c_timer := (c_timer c)\<lparr>running := True\<rparr>\<rparr>)
        (initiate (Timer_op i SVR_RSP_WAITING_TIME True) (cancel_waits i ?p))"
    let ?q = "map (\<lambda>p. Ready p Aborted) (filter (is_timer_of i) (w_ops u))"
    have q: "w_queue ?v = [] @ Event_task READ i # ?q" using False u by (simp add: cancel_waits_def)
    have "timer_start i SVR_RSP_WAITING_TIME True ?p = Inr ?v" using c False by (simp add: timer_start_def)
    moreover have "wired k i s (cc\<lparr>c_decoder := d, c_message := m, c_timer := ?r\<rparr>) sc ?v"
      using l False by (simp add: wired_def up_def)
    moreover have "list_all (aborted_wait {i, s}) ([] @ ?q)"
      by (auto simp: list_all_iff elim!: is_timer_of.elims)
    ultimately show ?thesis using on q False
      by (intro exI[of _ ?v] exI[of _ ?r] exI[of _ "[]"] exI[of _ ?q]) simp
  qed
qed

lemma first_message_sendable:
  assumes "message_of t h m" and "half_ok t h" and "msg_ok SINK_LIMIT m"
  shows "sendable (new_encoder t) m \<and> emitted (new_encoder t) m = [] \<and> serialize m = text_of t h \<and> completed m"
proof -
  have "matches t (derived m)" using assms(1) by (cases t) (simp_all add: message_of_def complete_message_def)
  then show ?thesis
    using assms message_of_text[OF assms(1)]
    by (simp add: sendable_def half_ok_def message_of_def complete_message_def completed_def new_encoder_def enc_ok_def emitted_def)
qed

text \<open>The event of the last read puts the request on the connection to the server.\<close>

lemma request_event_runs:
  assumes l: "wired k i s cc sc w" and q: "w_queue w = Event_task READ i # q2" "list_all (aborted_wait {i, s}) q2"
    and ok: "writing_ok i cc (w_ops w)" "writing_ok s sc (w_ops w)" "tracked s sc (w_ops w)" "quiet_client cc" "quiet_server (parser env) sc"
    and ex: "\<not> exchange_completed (w_contexts w k)"
    and m: "message_of HTTP_REQUEST h (c_message cc)" "half_ok HTTP_REQUEST h" "client_done cc p"
  shows "\<exists>w'. runs env w w' \<and> sending env k i s p (text_of HTTP_REQUEST h) w'"
proof -
  let ?u = "w\<lparr>w_queue := q2, w_pinned := task_refs (Event_task READ i)\<rparr>" and ?m = "c_message cc"
  have lu: "wired k i s cc sc ?u" using l by (simp add: wired_def)
  have m1: "sendable (c_encoder sc) ?m" "emitted (c_encoder sc) ?m = []" "serialize ?m = text_of HTTP_REQUEST h" "completed ?m"
    using first_message_sendable[OF m(1,2)] m(3) ok(5) by (simp_all add: quiet_server_def client_done_def)
  have su: "w_conns ?u s = Some sc" "up sc" using l by (simp_all add: wired_def)
  obtain v sc' where v: "write_message s ?m ?u = Inr v" "w_conns v = (w_conns ?u)(s \<mapsto> sc')" "up sc'"
    "unsent sc' = text_of HTTP_REQUEST h" "enc_ok (c_encoder sc') ?m" "w_thrown v = w_thrown ?u"
    "w_queue v = q2 @ (if running (c_timer sc) then map (\<lambda>p. Ready p Aborted) (filter (is_timer_of s) (w_ops w)) else [])"
    "w_contexts v = w_contexts w" "w_server_mgr v = w_server_mgr w" "w_client_mgr v = w_client_mgr w"
    using write_message_up[OF su m1(1)] m1(2,3) ok(5) by (auto simp: quiet_server_def unsent_def)
  obtain e out where o: "w_conns v = (w_conns ?u)(s \<mapsto> written_conn e out sc)" "writing_ok s (written_conn e out sc) (w_ops v)"
    "\<And>j. j \<noteq> s \<Longrightarrow> filter (is_write_of j) (w_ops v) = filter (is_write_of j) (w_ops w)"
    using write_message_exact[OF su _ v(1)] ok(2) by auto
  have sc': "sc' = written_conn e out sc" using v(2) o(1) by (metis fun_upd_same option.inject)
  have "is_Request_part (derived ?m)" using m(3) by (cases "derived ?m") (simp_all add: client_done_def)
  then have "run_task env (Event_task READ i) ?u = Inr v"
    using lu wired_locks[OF lu] v(1) m1(4) by (simp add: wired_def on_client_event_def on_client_message_def Let_def)
  then have di: "dispatch env w = Some (Inr (release v))"
    by (rule dispatch_one[OF q(1)]) (use l v(6) in \<open>simp add: wired_def\<close>)
  have "wired k i s cc sc' v" using l v sc' by (simp add: wired_def)
  then have lv: "wired k i s cc sc' (release v)" by (rule wired_release)
  have qv: "w_queue (release v) = w_queue v @ []" "list_all (aborted_wait {i, s}) (w_queue v)"
    using q(2) v(7) by (auto simp: list_all_iff elim!: is_timer_of.elims)
  obtain w' r r' where w': "runs env (release v) w'" "w_queue w' = []" "w_ops w' = w_ops v" "w_contexts w' = w_contexts w"
    "wired k i s (cc\<lparr>c_timer := r\<rparr>) (sc'\<lparr>c_timer := r'\<rparr>) w'" "running r' \<longrightarrow> running (c_timer sc')" "waits_of s (w_queue v) \<longrightarrow> \<not> running r'"
    using settles[OF lv qv, of env] v(8) by auto
  have "running (c_timer sc) \<Longrightarrow> waits_of s (w_queue v)"
    using ok(3) v(7) by (force simp: tracked_def waits_of_def)
  then have nr: "\<not> running r'" using w'(6,7) by (auto simp: sc')
  have f: "filter (is_write_of i) (w_ops v) = filter (is_write_of i) (w_ops w)"
    using o(3) l by (simp add: wired_def)
  have "enc_type (c_encoder sc') = HTTP_REQUEST"
    using v(5) m(3) by (cases "enc_type (c_encoder sc')"; cases "derived ?m") (simp_all add: enc_ok_def client_done_def)
  then have so: "server_open (parser env) (sc'\<lparr>c_timer := r'\<rparr>)" "writing_ok s (sc'\<lparr>c_timer := r'\<rparr>) (w_ops w')"
    "writing_ok i (cc\<lparr>c_timer := r\<rparr>) (w_ops w')"
    using ok(1,5) o(2) nr f w'(3) by (simp_all add: sc' server_open_def quiet_server_def writing_ok_def)
  have "sending env k i s p (text_of HTTP_REQUEST h) w'"
    unfolding sending_def steady_def using w'(2,4,5) so ok(4) ex m(3) v(4)
    by (intro exI[of _ "cc\<lparr>c_timer := r\<rparr>"] exI[of _ "sc'\<lparr>c_timer := r'\<rparr>"]) (simp add: unsent_def)
  then show ?thesis using runs.Step[OF di w'(1)] by blast
qed

lemma asking_last:
  assumes a: "asking env k i s h m0 n p w" and x: "x \<noteq> []" "api_execute (parser env) p x = (p1, cs, length x)"
    and h: "blank HTTP_REQUEST m0" "half_ok HTTP_REQUEST h"
    and cs: "take (n + length cs) (calls_of HTTP_REQUEST h) = take n (calls_of HTTP_REQUEST h) @ cs"
      "n + length cs = length (calls_of HTTP_REQUEST h)" "cs \<noteq> []"
  shows "\<exists>w'. leads env i s [From_client x] w [] [] w' \<and> sending env k i s p1 (text_of HTTP_REQUEST h) w'"
proof -
  obtain cc sc where w: "wired k i s cc sc w" "writing_ok i cc (w_ops w)" "writing_ok s sc (w_ops w)" "w_queue w = []"
    "tracked s sc (w_ops w)" "Read_op i \<in> set (w_ops w)" "\<not> exchange_completed (w_contexts w k)"
    "progress (parser env) HTTP_REQUEST h m0 n p cc" "quiet_client cc" "quiet_server (parser env) sc"
    using a by (auto simp: asking_def steady_def)
  obtain d m where d: "decode (parser env) x (c_decoder cc) (c_message cc) = Inr (d, m, length x)"
    "progress (parser env) HTTP_REQUEST h m0 (length (calls_of HTTP_REQUEST h)) p1 (cc\<lparr>c_decoder := d, c_message := m\<rparr>)"
    using progress_next[OF w(8) x(2) h cs(1)] unfolding cs(2) by blast
  have "n < length (calls_of HTTP_REQUEST h)" using cs(2,3) by (cases cs) simp_all
  then have nc: "\<not> completed (c_message cc)" using progress_pending[OF w(8) h(1)] request_pending by simp
  have e: "message_of HTTP_REQUEST h m" "msg_ok SINK_LIMIT m" "dec_type d = HTTP_REQUEST" "dec_headers_done d" "dec_parser d = p1"
    using progress_end[OF d(2) h] by simp_all
  then have dl: "deliverable m" "matches HTTP_REQUEST (derived m)"
    by (simp_all add: message_of_def complete_message_def deliverable_def completed_def)
  let ?w1 = "finish (Read_op i) (Done x (length x)) w"
  let ?u = "?w1\<lparr>w_queue := [], w_pinned := task_refs (Ready (Read_op i) (Done x (length x)))\<rparr>"
  have lu: "wired k i s cc sc ?u" using w(1) by (simp add: wired_def)
  obtain v r q1 q2 where v: "client_on_read (parser env) i (Done x (length x)) ?u = Inr v"
    "wired k i s (cc\<lparr>c_decoder := d, c_message := m, c_timer := r\<rparr>) sc v"
    "w_queue v = q1 @ Event_task READ i # q2" "list_all (aborted_wait {i, s}) (q1 @ q2)"
    "\<And>j. filter (is_write_of j) (w_ops v) = filter (is_write_of j) (w_ops ?u)"
    "\<And>p. p \<in> set (w_ops ?u) \<Longrightarrow> \<not> is_timer_of i p \<Longrightarrow> p \<in> set (w_ops v)" "w_contexts v = w_contexts ?u"
    using request_read_completes[OF lu x(1) _ d(1) nc dl(1), of "length x"] by auto
  let ?cc = "cc\<lparr>c_decoder := d, c_message := m, c_timer := r\<rparr>"
  have "run_task env (Ready (Read_op i) (Done x (length x))) ?u = Inr v"
    using v(1) lu by (simp add: wired_def)
  then have di: "dispatch env ?w1 = Some (Inr (release v))"
    by (rule dispatch_one[rotated]) (use w(4) v(2) in \<open>simp_all add: wired_def\<close>)
  have q: "w_queue (release v) = q1 @ Event_task READ i # q2" "list_all (aborted_wait {i, s}) q1" "list_all (aborted_wait {i, s}) q2"
    using v(3,4) by simp_all
  obtain w2 r1 r' where w2: "runs env (release v) w2" "w_queue w2 = Event_task READ i # q2" "w_ops w2 = w_ops v" "w_contexts w2 = w_contexts w"
    "wired k i s (?cc\<lparr>c_timer := r1\<rparr>) (sc\<lparr>c_timer := r'\<rparr>) w2" "running r' \<longrightarrow> running (c_timer sc)"
    using settles[OF wired_release[OF v(2)] q(1,2), of env] v(7) by auto
  have "tracked s (sc\<lparr>c_timer := r'\<rparr>) (w_ops w2)"
    using w(1) w2(3) v(6) by (intro tracked_kept[OF w(5) w2(6)]) (simp add: wired_def)
  moreover have "writing_ok i (?cc\<lparr>c_timer := r1\<rparr>) (w_ops w2)" "writing_ok s (sc\<lparr>c_timer := r'\<rparr>) (w_ops w2)"
    using w(2,3) v(5) w2(3) by (simp_all add: writing_ok_def)
  moreover have "client_done (?cc\<lparr>c_timer := r1\<rparr>) p1" using e dl by (simp add: client_done_def)
  ultimately obtain w' where w': "runs env w2 w'" "sending env k i s p1 (text_of HTTP_REQUEST h) w'"
    using request_event_runs[OF w2(5,2) q(3), of env h p1] w(7,9,10) w2(4) e(1) h(2) by auto
  have "w_queue w' = []" using w'(2) by (auto simp: sending_def steady_def)
  then have "leads env i s [From_client x] w ([] @ []) ([] @ []) w'"
    by (intro leads_Cons[OF _ runs_queue[OF runs.Step[OF di runs_trans[OF w2(1) w'(1)]]]]) (simp_all add: arrives_def w(6))
  then show ?thesis using w'(2) by auto
qed

lemma asking_reads:
  assumes h: "blank HTTP_REQUEST m0" "half_ok HTTP_REQUEST h"
  shows "asking env k i s h m0 n p w \<Longrightarrow> delivers (parser env) p reads css \<Longrightarrow> drop n (calls_of HTTP_REQUEST h) = concat css \<Longrightarrow>
    css \<noteq> [] \<Longrightarrow> last css \<noteq> [] \<Longrightarrow> [] \<notin> set reads \<Longrightarrow>
    \<exists>w'. leads env i s (map From_client reads) w [] [] w' \<and>
      sending env k i s (fst (feed (parser env) p reads)) (text_of HTTP_REQUEST h) w'"
proof (induction reads arbitrary: n p w css)
  case Nil
  then show ?case by simp
next
  case (Cons x xs)
  let ?C = "calls_of HTTP_REQUEST h"
  obtain p1 c css' where x: "api_execute (parser env) p x = (p1, c, length x)" "css = c # css'" "delivers (parser env) p1 xs css'"
    using Cons.prems(2,4) by (cases css) (auto split: prod.splits)
  have xne: "x \<noteq> []" using Cons.prems(6) by auto
  have dc: "drop n ?C = c @ concat css'" using Cons.prems(3) x(2) by simp
  have tk: "take (n + length c) ?C = take n ?C @ c" by (simp add: take_add dc del: calls_of.simps)
  have rest: "drop (n + length c) ?C = concat css'" using dc by (metis add.commute append_eq_conv_conj drop_drop)
  have "concat css \<noteq> []" using Cons.prems(4,5) last_in_set by fastforce
  then have "n < length ?C" using Cons.prems(3) by (cases "n < length ?C") auto
  then have le: "n + length c \<le> length ?C" using arg_cong[OF dc, of length] by simp
  have f: "fst (feed (parser env) p (x # xs)) = fst (feed (parser env) p1 xs)" using x(1) by (simp split: prod.split)
  show ?case
  proof (cases "css' = []")
    case True
    then have xs: "xs = []" "n + length c = length ?C" "c \<noteq> []" using x(2,3) rest le Cons.prems(5)
      by (auto split: prod.splits) (cases xs; auto split: prod.splits)
    show ?thesis using asking_last[OF Cons.prems(1) xne x(1) h tk xs(2,3)] x(1) xs(1) by simp
  next
    case False
    have l: "last css' \<noteq> []" using Cons.prems(5) x(2) False by simp
    then have "concat css' \<noteq> []" using False last_in_set by fastforce
    then have lt: "n + length c < length ?C" using rest by (cases "n + length c < length ?C") auto
    obtain w1 where w1: "leads env i s [From_client x] w [] [] w1" "asking env k i s h m0 (n + length c) p1 w1"
      using asking_more[OF Cons.prems(1) xne x(1) h tk lt] by blast
    obtain w' where w': "leads env i s (map From_client xs) w1 [] [] w'"
      "sending env k i s (fst (feed (parser env) p1 xs)) (text_of HTTP_REQUEST h) w'"
      using Cons.IH[OF w1(2) x(3) rest False l] Cons.prems(6) by auto
    then show ?thesis using leads_append[OF w1(1) w'(1)] f by auto
  qed
qed

text \<open>
  The answer: \<open>n\<close> callbacks have been made and more are to come. The client was sent \<open>sent\<close>; what it was
  given and not sent yet is in its queue.
\<close>

definition answering :: "'p setting \<Rightarrow> nat \<Rightarrow> nat \<Rightarrow> nat \<Rightarrow> 'p \<Rightarrow> half \<Rightarrow> nat \<Rightarrow> 'p \<Rightarrow> string \<Rightarrow> 'p world \<Rightarrow> bool" where
  "answering env k i s pc h n p sent w \<longleftrightarrow> (\<exists>cc sc m0. steady k i s cc sc w \<and> \<not> exchange_completed (w_contexts w k) \<and>
     client_done cc pc \<and> \<not> running (c_timer sc) \<and> c_buffer_out sc = [] \<and> enc_type (c_encoder sc) = HTTP_REQUEST \<and>
     Read_op s \<in> set (w_ops w) \<and> blank HTTP_RESPONSE m0 \<and> progress (parser env) HTTP_RESPONSE h m0 n p sc \<and>
     fed (c_encoder cc) (c_message sc) \<and> sent @ unsent cc = sent_of (c_message sc))"

lemma sending_step:
  assumes a: "sending env k i s pc out w" and o: "out \<noteq> []" and n: "0 < n"
  shows "\<exists>a out' w'. leads env i s [To_server n] w a [] w' \<and> a @ out' = out \<and> length out' < length out \<and>
           (if out' = [] then answering env k i s pc h 0 (api_init (parser env) HTTP_RESPONSE) [] w'
            else sending env k i s pc out' w')"
proof -
  obtain cc sc where w: "wired k i s cc sc w" "writing_ok i cc (w_ops w)" "writing_ok s sc (w_ops w)" "w_queue w = []"
    "\<not> exchange_completed (w_contexts w k)" "client_done cc pc" "quiet_client cc" "server_open (parser env) sc" "unsent sc = out"
    using a by (auto simp: sending_def steady_def)
  obtain b bs where b: "c_buffer_out sc = b # bs" using o w(9) by (cases "c_buffer_out sc") (auto simp: unsent_def)
  have l: "w_conns w s = Some sc" "up sc" "i \<noteq> s" "c_kind sc = Server" using w(1) by (simp_all add: wired_def)
  let ?u = "while_writing s b w"
  obtain q w1 where t: "taken s n w = (take n (bytes b), w1)" "w_queue w1 = [write_task s b n]"
    "list_all (\<lambda>b. bb_ok b \<and> 0 < bb_size b) q" "take n (bytes b) @ concat (map bytes q) = out"
    "run_task env (write_task s b n) (w1\<lparr>w_queue := [], w_pinned := task_refs (write_task s b n)\<rparr>) =
       (if q \<noteq> [] then Inr (initiate (Write_op s (bytes (hd q))) (with_out s q sc ?u)) else on_write s (with_out s q sc ?u))"
    using write_taken[OF l(1,2) w(3) b w(4), of n env] w(9) by auto
  let ?sc = "sc\<lparr>c_buffer_out := q, c_writing := q \<noteq> []\<rparr>"
  let ?v = "initiate (if q \<noteq> [] then Write_op s (bytes (hd q)) else Read_op s) (with_out s q sc ?u)"
  have lv: "wired k i s cc ?sc ?v" using w(1) t(3) by (simp add: wired_def up_def)
  have "on_write s (with_out s q sc ?u) = Inr (initiate (Read_op s) (with_out s q sc ?u))" if "q = []"
    using w(1) that by (simp add: on_write_def server_on_write_def read_def wired_def up_def)
  then have "run_task env (write_task s b n) (w1\<lparr>w_queue := [], w_pinned := task_refs (write_task s b n)\<rparr>) = Inr ?v"
    using t(5) by simp
  then have d: "dispatch env w1 = Some (Inr (release ?v))"
    by (rule dispatch_one[OF t(2)]) (use lv in \<open>simp add: wired_def\<close>)
  have ops: "writing_ok i cc (w_ops ?v)" "writing_ok s ?sc (w_ops ?v)"
    using w(2,3) while_writing_ops[OF w(3) b] l(3) by (auto simp: writing_ok_def split: list.split)
  then have st: "steady k i s cc ?sc (release ?v)"
    using wired_release[OF lv] by (simp add: steady_def)
  have "0 < min (length (bytes b)) n" using n l(2) b length_bytes[of b] by (auto simp: up_def)
  moreover have "min (length (bytes b)) n + length (concat (map bytes q)) = length out" using arg_cong[OF t(4), of length] by simp
  ultimately have len: "length (concat (map bytes q)) < length out" by linarith
  have "leads env i s [To_server n] w (take n (bytes b) @ []) ([] @ []) (release ?v)"
    by (rule leads_Cons[OF _ runs_queue[OF runs_one[OF d]]]) (simp_all add: t(1))
  moreover have "answering env k i s pc h 0 (api_init (parser env) HTTP_RESPONSE) [] (release ?v)" if e: "concat (map bytes q) = []"
  proof -
    have q: "q = []" using nothing_left[OF t(3)] e by simp
    have "progress (parser env) HTTP_RESPONSE h (c_message ?sc) 0 (api_init (parser env) HTTP_RESPONSE) ?sc"
      using w(8) by (intro progress_start) (simp add: server_open_def)
    then show ?thesis unfolding answering_def using st w(5-8) q
      by (intro exI[of _ cc] exI[of _ ?sc] exI[of _ "c_message ?sc"])
         (simp add: server_open_def quiet_client_def fed_def blank_def new_encoder_def sent_of_def unsent_def)
  qed
  moreover have "sending env k i s pc (concat (map bytes q)) (release ?v)"
    unfolding sending_def using st w(5-8) by (intro exI[of _ cc] exI[of _ ?sc]) (simp add: unsent_def)
  ultimately show ?thesis using t(4) len
    by (intro exI[of _ "take n (bytes b)"] exI[of _ "concat (map bytes q)"] exI[of _ "release ?v"]) simp
qed

lemma sending_all:
  assumes "0 \<notin> set ns"
  shows "sending env k i s pc out w \<Longrightarrow> out \<noteq> [] \<Longrightarrow> length out \<le> length ns \<Longrightarrow>
    \<exists>w'. leads env i s (map To_server ns) w out [] w' \<and> answering env k i s pc h 0 (api_init (parser env) HTTP_RESPONSE) [] w'"
  using assms
proof (induction ns arbitrary: out w)
  case Nil
  then show ?case by simp
next
  case (Cons n ns)
  obtain a out' w1 where 1: "leads env i s [To_server n] w a [] w1" "a @ out' = out" "length out' < length out"
    "if out' = [] then answering env k i s pc h 0 (api_init (parser env) HTTP_RESPONSE) [] w1 else sending env k i s pc out' w1"
    using sending_step[OF Cons.prems(1,2), of n h] Cons.prems(4) by auto
  have "\<exists>w'. leads env i s (map To_server ns) w1 out' [] w' \<and> answering env k i s pc h 0 (api_init (parser env) HTTP_RESPONSE) [] w'"
  proof (cases "out' = []")
    case True
    then have a: "answering env k i s pc h 0 (api_init (parser env) HTTP_RESPONSE) [] w1" using 1(4) by simp
    then obtain cc sc where c: "steady k i s cc sc w1" "c_buffer_out sc = []" by (auto simp: answering_def)
    then have idle: "leads env i s [To_server n] w1 [] [] w1" for n
      by (intro occurs_nothing[of s sc]) (simp_all add: steady_def)
    have "leads env i s (map To_server ns) w1 [] [] w1"
    proof (induction ns)
      case (Cons n ns)
      then show ?case using leads_append[OF idle[of n] Cons.IH] by simp
    qed simp
    then show ?thesis using a True by blast
  next
    case False
    then show ?thesis using Cons.IH[of out' w1] 1(3,4) Cons.prems(3,4) by simp
  qed
  then show ?case using leads_append[OF 1(1)] 1(2) by fastforce
qed

end
