(* ===== verification/ResponseLeg.thy ===== *)
theory ResponseLeg
  imports RequestLeg
begin

text \<open>
  The second half of an exchange: the reads of the response and the writes to the client, in any order and
  division. \<open>answering\<close> (from \<open>RequestLeg\<close>) describes the world while the response is coming, \<open>flushing\<close>
  when it has come, and \<open>at_rest\<close> when the client has it and may ask again.
\<close>

section \<open>The client is sent the answer\<close>

lemma client_takes:
  assumes l: "wired k i s cc sc w" and ok: "writing_ok i cc (w_ops w)" "writing_ok s sc (w_ops w)" and q0: "w_queue w = []"
    and b: "c_buffer_out cc \<noteq> []" and n: "0 < n"
  shows "\<exists>a q w1 w2. occurs i s (To_client n) w = Some (([], a), w1) \<and> runs env w1 w2 \<and> a @ concat (map bytes q) = unsent cc \<and>
           length (concat (map bytes q)) < length (unsent cc) \<and>
           wired k i s (cc\<lparr>c_buffer_out := q, c_writing := q \<noteq> []\<rparr>) sc w2 \<and>
           writing_ok i (cc\<lparr>c_buffer_out := q, c_writing := q \<noteq> []\<rparr>) (w_ops w2) \<and> writing_ok s sc (w_ops w2) \<and>
           (\<forall>p \<in> set (w_ops w). \<not> is_write_of i p \<longrightarrow> p \<in> set (w_ops w2)) \<and> w_contexts w2 = w_contexts w \<and>
           w_queue w2 = (if q = [] then [Event_task WRITE i] else [])"
proof -
  obtain b bs where b: "c_buffer_out cc = b # bs" using b by (cases "c_buffer_out cc") auto
  have c: "w_conns w i = Some cc" "up cc" "s \<noteq> i" using l by (simp_all add: wired_def)
  let ?u = "while_writing i b w"
  obtain q w1 where t: "taken i n w = (take n (bytes b), w1)" "w_queue w1 = [write_task i b n]"
    "list_all (\<lambda>b. bb_ok b \<and> 0 < bb_size b) q" "take n (bytes b) @ concat (map bytes q) = unsent cc"
    "run_task env (write_task i b n) (w1\<lparr>w_queue := [], w_pinned := task_refs (write_task i b n)\<rparr>) =
       (if q \<noteq> [] then Inr (initiate (Write_op i (bytes (hd q))) (with_out i q cc ?u)) else on_write i (with_out i q cc ?u))"
    using write_taken[OF c(1,2) ok(1) b q0, of n env] by auto
  let ?cc = "cc\<lparr>c_buffer_out := q, c_writing := q \<noteq> []\<rparr>"
  let ?v = "if q \<noteq> [] then initiate (Write_op i (bytes (hd q))) (with_out i q cc ?u) else post (Event_task WRITE i) (with_out i q cc ?u)"
  have lv: "wired k i s ?cc sc ?v" using l t(3) by (simp add: wired_def up_def)
  have "on_write i (with_out i q cc ?u) = Inr (post (Event_task WRITE i) (with_out i q cc ?u))" if "q = []"
    using l that by (simp add: on_write_def client_on_write_def wired_def up_def)
  then have "run_task env (write_task i b n) (w1\<lparr>w_queue := [], w_pinned := task_refs (write_task i b n)\<rparr>) = Inr ?v"
    using t(5) by simp
  then have d: "dispatch env w1 = Some (Inr (release ?v))"
    by (rule dispatch_one[OF t(2)]) (use lv in \<open>simp add: wired_def\<close>)
  have ops: "writing_ok i ?cc (w_ops ?v)" "writing_ok s sc (w_ops ?v)"
    using ok while_writing_ops(1,2)[OF ok(1) b] c(3) by (auto simp: writing_ok_def split: list.split)
  have kept: "\<forall>p \<in> set (w_ops w). \<not> is_write_of i p \<longrightarrow> p \<in> set (w_ops ?v)"
    using while_writing_ops(3)[OF ok(1) b] by auto
  have "0 < min (length (bytes b)) n" using n c(2) b length_bytes[of b] by (auto simp: up_def)
  moreover have "min (length (bytes b)) n + length (concat (map bytes q)) = length (unsent cc)" using arg_cong[OF t(4), of length] by simp
  ultimately have "length (concat (map bytes q)) < length (unsent cc)" by linarith
  then show ?thesis using wired_release[OF lv] ops kept t(1,4) runs_one[OF d]
    by (intro exI[of _ "take n (bytes b)"] exI[of _ q] exI[of _ w1] exI[of _ "release ?v"]) simp
qed

lemma fed_frame: "c_encoder c' = c_encoder c \<Longrightarrow> fed (c_encoder c') m = fed (c_encoder c) m" by simp

lemma client_event_waits:
  assumes l: "wired k i s cc sc w" and q: "w_queue w = [Event_task WRITE i]" and ex: "\<not> exchange_completed (w_contexts w k)"
  shows "\<exists>w'. dispatch env w = Some (Inr w') \<and> wired k i s cc sc w' \<and> w_ops w' = w_ops w \<and> w_contexts w' = w_contexts w \<and> w_queue w' = []"
proof -
  let ?u = "w\<lparr>w_queue := [], w_pinned := task_refs (Event_task WRITE i)\<rparr>"
  have lu: "wired k i s cc sc ?u" using l by (simp add: wired_def)
  have "run_task env (Event_task WRITE i) ?u = Inr ?u"
    using l ex by (auto simp: wired_def on_client_event_def Let_def)
  then have "dispatch env w = Some (Inr (release ?u))"
    by (rule dispatch_one[OF q]) (use l in \<open>simp add: wired_def\<close>)
  then show ?thesis using wired_release[OF lu] by (intro exI[of _ "release ?u"]) simp
qed

lemma answering_written:
  assumes a: "answering env k i s pc h n p sent w" and n0: "0 < x"
  shows "\<exists>b w'. leads env i s [To_client x] w [] b w' \<and> answering env k i s pc h n p (sent @ b) w'"
proof -
  obtain cc sc m0 where w: "wired k i s cc sc w" "writing_ok i cc (w_ops w)" "writing_ok s sc (w_ops w)" "w_queue w = []"
    "\<not> exchange_completed (w_contexts w k)" "client_done cc pc" "\<not> running (c_timer sc)" "c_buffer_out sc = []"
    "enc_type (c_encoder sc) = HTTP_REQUEST" "Read_op s \<in> set (w_ops w)" "blank HTTP_RESPONSE m0"
    "progress (parser env) HTTP_RESPONSE h m0 n p sc" "fed (c_encoder cc) (c_message sc)" "sent @ unsent cc = sent_of (c_message sc)"
    using a by (auto simp: answering_def steady_def)
  show ?thesis
  proof (cases "c_buffer_out cc = []")
    case True
    have "leads env i s [To_client x] w [] [] w" by (rule occurs_nothing_client[OF w(2) True w(4)])
    then show ?thesis using a by (intro exI[of _ "[]"] exI[of _ w]) simp
  next
    case False
    obtain b q w1 w2 where t: "occurs i s (To_client x) w = Some (([], b), w1)" "runs env w1 w2" "b @ concat (map bytes q) = unsent cc"
      "wired k i s (cc\<lparr>c_buffer_out := q, c_writing := q \<noteq> []\<rparr>) sc w2"
      "writing_ok i (cc\<lparr>c_buffer_out := q, c_writing := q \<noteq> []\<rparr>) (w_ops w2)" "writing_ok s sc (w_ops w2)"
      "\<forall>p \<in> set (w_ops w). \<not> is_write_of i p \<longrightarrow> p \<in> set (w_ops w2)" "w_contexts w2 = w_contexts w"
      "w_queue w2 = (if q = [] then [Event_task WRITE i] else [])"
      using client_takes[OF w(1-4) False n0, of env] by blast
    let ?cc = "cc\<lparr>c_buffer_out := q, c_writing := q \<noteq> []\<rparr>"
    obtain w3 where 3: "runs env w1 w3" "wired k i s ?cc sc w3" "w_ops w3 = w_ops w2" "w_contexts w3 = w_contexts w" "w_queue w3 = []"
    proof (cases "q = []")
      case True
      then have "w_queue w2 = [Event_task WRITE i]" "\<not> exchange_completed (w_contexts w2 k)" using t(8,9) w(5) by simp_all
      from client_event_waits[OF t(4) this, of env] show ?thesis
        using that runs_trans[OF t(2) runs_one] t(8) by metis
    qed (use that t in auto)
    have "leads env i s [To_client x] w ([] @ []) (b @ []) w3"
      by (rule leads_Cons[OF t(1) runs_queue[OF 3(1,5)]]) simp
    moreover have "answering env k i s pc h n p (sent @ b) w3"
      unfolding answering_def steady_def using 3 t(3,5-7) w(5-14)
      by (intro exI[of _ ?cc] exI[of _ sc] exI[of _ m0]) (simp add: unsent_def)
    ultimately show ?thesis by auto
  qed
qed

text \<open>Between two exchanges.\<close>

definition at_rest :: "'p setting \<Rightarrow> nat \<Rightarrow> nat \<Rightarrow> nat \<Rightarrow> 'p world \<Rightarrow> bool" where
  "at_rest env k i s w \<longleftrightarrow> (\<exists>cc sc. steady k i s cc sc w \<and> tracked s sc (w_ops w) \<and> Read_op i \<in> set (w_ops w) \<and>
     \<not> exchange_completed (w_contexts w k) \<and> c_decoder cc = new_decoder (parser env) HTTP_REQUEST \<and>
     blank HTTP_REQUEST (c_message cc) \<and> quiet_client cc \<and> quiet_server (parser env) sc)"

text \<open>The answer is complete, \<open>rest\<close> has still to be sent to the client.\<close>

definition flushing :: "'p setting \<Rightarrow> nat \<Rightarrow> nat \<Rightarrow> nat \<Rightarrow> 'p \<Rightarrow> string \<Rightarrow> 'p world \<Rightarrow> bool" where
  "flushing env k i s pc rest w \<longleftrightarrow> (\<exists>cc sc. steady k i s cc sc w \<and> tracked s sc (w_ops w) \<and>
     exchange_completed (w_contexts w k) \<and> client_done cc pc \<and> enc_type (c_encoder cc) = HTTP_RESPONSE \<and> unsent cc = rest \<and>
     quiet_server (parser env) sc)"

lemma client_reset_exact:
  assumes l: "wired k i s cc sc u" and ok: "writing_ok i cc (w_ops u)" "c_buffer_out cc = []"
    and cc: "client_done cc pc" "enc_type (c_encoder cc) = HTTP_RESPONSE"
  shows "\<exists>v cc'. client_reset api i u = Inr v \<and> wired k i s cc' sc v \<and> w_contexts v = w_contexts u \<and>
           (\<exists>q. w_queue v = w_queue u @ q \<and> list_all (aborted_wait {i, s}) q) \<and>
           c_decoder cc' = new_decoder api HTTP_REQUEST \<and> blank HTTP_REQUEST (c_message cc') \<and> quiet_client cc' \<and> \<not> c_writing cc' \<and>
           (\<forall>j. filter (is_write_of j) (w_ops v) = filter (is_write_of j) (w_ops u)) \<and>
           (\<forall>p \<in> set (w_ops u). \<not> is_timer_of i p \<longrightarrow> p \<in> set (w_ops v)) \<and> Read_op i \<in> set (w_ops v)"
proof -
  let ?c = "cc\<lparr>c_buffer_out := [], c_writing := False, c_decoder := reset_decoder api (c_decoder cc),
     c_encoder := reset_encoder (c_encoder cc), c_message := reset_message (c_message cc)\<rparr>"
  let ?u = "reset_codec api i (connection_reset i u)"
  have conns: "w_conns ?u = (w_conns u)(i \<mapsto> ?c)"
    using l by (intro ext) (simp add: reset_codec_def connection_reset_def wired_def)
  have u: "w_ops ?u = w_ops u" "w_queue ?u = w_queue u" "w_contexts ?u = w_contexts u" "w_client_mgr ?u = w_client_mgr u"
    "w_server_mgr ?u = w_server_mgr u" "w_thrown ?u = w_thrown u"
    by (simp_all add: reset_codec_def connection_reset_def)
  have c: "c_decoder ?c = new_decoder api HTTP_REQUEST" "blank HTTP_REQUEST (c_message ?c)" "quiet_client ?c"
    using cc blank_reset[of "c_message cc" HTTP_REQUEST]
    by (simp_all add: client_done_def reset_decoder_def new_decoder_def quiet_client_def reset_encoder_def new_encoder_def)
  have i: "w_conns ?u i = Some ?c" using conns by simp
  show ?thesis
  proof (cases "running (c_timer cc)")
    case True
    have "client_reset api i u = Inr (initiate (Read_op i) ?u)"
      using True l i by (simp add: client_reset_def timer_start_def read_def wired_def up_def)
    moreover have "wired k i s ?c sc (initiate (Read_op i) ?u)"
      using l conns u by (simp add: wired_def up_def)
    ultimately show ?thesis using c u by (intro exI[of _ "initiate (Read_op i) ?u"] exI[of _ ?c]) simp
  next
    case False
    let ?r = "(c_timer cc)\<lparr>running := True\<rparr>"
    let ?v = "modify i (\<lambda>c. c\<lparr>c_timer := (c_timer c)\<lparr>running := True\<rparr>\<rparr>)
        (initiate (Timer_op i CLIENT_IDLE_WAITING_TIME True) (cancel_waits i ?u))"
    have "client_reset api i u = Inr (initiate (Read_op i) ?v)"
      using False l i by (simp add: client_reset_def timer_start_def read_def wired_def up_def)
    moreover have "wired k i s (?c\<lparr>c_timer := ?r\<rparr>) sc (initiate (Read_op i) ?v)"
      using l conns u False by (simp add: wired_def up_def)
    moreover have "list_all (aborted_wait {i, s}) (map (\<lambda>p. Ready p Aborted) (filter (is_timer_of i) (w_ops u)))"
      by (auto simp: list_all_iff elim!: is_timer_of.elims)
    moreover have "w_queue ?v = w_queue u @ map (\<lambda>p. Ready p Aborted) (filter (is_timer_of i) (w_ops u))"
      using u by (simp add: cancel_waits_def)
    ultimately show ?thesis using c u
      by (intro exI[of _ "initiate (Read_op i) ?v"] exI[of _ "?c\<lparr>c_timer := ?r\<rparr>"]) simp
  qed
qed

lemma client_event_finishes:
  assumes l: "wired k i s cc sc w" and q: "w_queue w = [Event_task WRITE i]" and ex: "exchange_completed (w_contexts w k)"
    and ok: "writing_ok i cc (w_ops w)" "writing_ok s sc (w_ops w)" "c_buffer_out cc = []"
    and cc: "client_done cc pc" "enc_type (c_encoder cc) = HTTP_RESPONSE" "api_should_keep_alive (parser env) pc"
    and sc: "quiet_server (parser env) sc" "tracked s sc (w_ops w)"
  shows "\<exists>w'. runs env w w' \<and> at_rest env k i s w'"
proof -
  let ?u = "w\<lparr>w_queue := [], w_pinned := task_refs (Event_task WRITE i)\<rparr>"
  have lu: "wired k i s cc sc ?u" using l by (simp add: wired_def)
  have ou: "writing_ok i cc (w_ops ?u)" using ok(1) by simp
  obtain v cc' q2 where v: "client_reset (parser env) i ?u = Inr v" "wired k i s cc' sc v" "w_contexts v = w_contexts w"
    "w_queue v = q2" "list_all (aborted_wait {i, s}) q2" "c_decoder cc' = new_decoder (parser env) HTTP_REQUEST"
    "blank HTTP_REQUEST (c_message cc')" "quiet_client cc'" "\<not> c_writing cc'"
    "\<And>j. filter (is_write_of j) (w_ops v) = filter (is_write_of j) (w_ops w)"
    "\<And>p. p \<in> set (w_ops w) \<Longrightarrow> \<not> is_timer_of i p \<Longrightarrow> p \<in> set (w_ops v)" "Read_op i \<in> set (w_ops v)"
    using client_reset_exact[OF lu ou ok(3) cc(1,2), of "parser env"] by auto
  have "keep_alive (parser env) (c_decoder cc)" using cc(1,3) by (simp add: keep_alive_def client_done_def)
  then have "run_task env (Event_task WRITE i) ?u = Inr (context_reset k v)"
    using lu ex v(1) by (auto simp: wired_def on_client_event_def Let_def conn_keep_alive_def)
  then have d: "dispatch env w = Some (Inr (release (context_reset k v)))"
    by (rule dispatch_one[OF q]) (use v(2) in \<open>simp add: wired_def context_reset_def\<close>)
  have "wired k i s cc' sc (context_reset k v)" using v(2) by (simp add: wired_def context_reset_def set_context_def)
  then have lv: "wired k i s cc' sc (release (context_reset k v))" by (rule wired_release)
  have qv: "w_queue (release (context_reset k v)) = q2 @ []" using v(4) by (simp add: context_reset_def)
  obtain w' r r' where w': "runs env (release (context_reset k v)) w'" "w_queue w' = []" "w_ops w' = w_ops v"
    "w_contexts w' = w_contexts (context_reset k v)" "wired k i s (cc'\<lparr>c_timer := r\<rparr>) (sc\<lparr>c_timer := r'\<rparr>) w'"
    "running r' \<longrightarrow> running (c_timer sc)"
    using settles[OF lv qv v(5), of env] by (auto simp: context_reset_def)
  have "tracked s (sc\<lparr>c_timer := r'\<rparr>) (w_ops w')"
    using l w'(3) v(11) by (intro tracked_kept[OF sc(2) w'(6)]) (simp add: wired_def)
  moreover have "writing_ok i (cc'\<lparr>c_timer := r\<rparr>) (w_ops w')" "writing_ok s (sc\<lparr>c_timer := r'\<rparr>) (w_ops w')"
    using ok v(8,9,10) w'(3) by (simp_all add: writing_ok_def quiet_client_def)
  ultimately have "at_rest env k i s w'"
    unfolding at_rest_def steady_def using w' v sc(1)
    by (intro exI[of _ "cc'\<lparr>c_timer := r\<rparr>"] exI[of _ "sc\<lparr>c_timer := r'\<rparr>"]) (simp add: context_reset_def set_context_def)
  then show ?thesis using runs.Step[OF d w'(1)] by blast
qed

lemma flushing_step:
  assumes a: "flushing env k i s pc rest w" and r: "rest \<noteq> []" and x: "0 < x" and ka: "api_should_keep_alive (parser env) pc"
  shows "\<exists>b r w'. leads env i s [To_client x] w [] b w' \<and> b @ r = rest \<and> length r < length rest \<and>
           (if r = [] then at_rest env k i s w' else flushing env k i s pc r w')"
proof -
  obtain cc sc where w: "wired k i s cc sc w" "writing_ok i cc (w_ops w)" "writing_ok s sc (w_ops w)" "w_queue w = []"
    "tracked s sc (w_ops w)" "exchange_completed (w_contexts w k)" "client_done cc pc" "enc_type (c_encoder cc) = HTTP_RESPONSE"
    "unsent cc = rest" "quiet_server (parser env) sc"
    using a by (auto simp: flushing_def steady_def)
  have ne: "c_buffer_out cc \<noteq> []" using r w(9) by (auto simp: unsent_def)
  obtain b q w1 w2 where t: "occurs i s (To_client x) w = Some (([], b), w1)" "runs env w1 w2" "b @ concat (map bytes q) = unsent cc"
    "length (concat (map bytes q)) < length (unsent cc)" "wired k i s (cc\<lparr>c_buffer_out := q, c_writing := q \<noteq> []\<rparr>) sc w2"
    "writing_ok i (cc\<lparr>c_buffer_out := q, c_writing := q \<noteq> []\<rparr>) (w_ops w2)" "writing_ok s sc (w_ops w2)"
    "\<forall>p \<in> set (w_ops w). \<not> is_write_of i p \<longrightarrow> p \<in> set (w_ops w2)" "w_contexts w2 = w_contexts w"
    "w_queue w2 = (if q = [] then [Event_task WRITE i] else [])"
    using client_takes[OF w(1-4) ne x, of env] by blast
  let ?cc = "cc\<lparr>c_buffer_out := q, c_writing := q \<noteq> []\<rparr>"
  have tr: "tracked s sc (w_ops w2)" by (rule tracked_ops[OF w(5)]) (use t(8) in auto)
  have cc: "client_done ?cc pc" "enc_type (c_encoder ?cc) = HTTP_RESPONSE" using w(7,8) by simp_all
  have up: "up ?cc" using t(5) by (simp add: wired_def)
  show ?thesis
  proof (cases "q = []")
    case True
    have e: "w_queue w2 = [Event_task WRITE i]" "exchange_completed (w_contexts w2 k)" using True t(9,10) w(6) by simp_all
    obtain w' where w': "runs env w2 w'" "at_rest env k i s w'"
      using client_event_finishes[OF t(5) e t(6,7) _ cc ka w(10) tr] True by auto
    have "w_queue w' = []" using w'(2) by (auto simp: at_rest_def steady_def)
    then have "leads env i s [To_client x] w ([] @ []) (b @ []) w'"
      by (intro leads_Cons[OF t(1) runs_queue[OF runs_trans[OF t(2) w'(1)]]]) simp_all
    then show ?thesis using w'(2) t(3,4) w(9) True by (intro exI[of _ b] exI[of _ "[]"] exI[of _ w']) simp
  next
    case False
    have "leads env i s [To_client x] w ([] @ []) (b @ []) w2"
      by (rule leads_Cons[OF t(1) runs_queue[OF t(2)]]) (use False t(10) in simp_all)
    moreover have "flushing env k i s pc (concat (map bytes q)) w2"
      unfolding flushing_def steady_def using t(5-7,9,10) tr cc w(6,10) False
      by (intro exI[of _ ?cc] exI[of _ sc]) (simp add: unsent_def)
    moreover have "concat (map bytes q) \<noteq> []"
      using False up nothing_left[of q] by (simp add: up_def)
    ultimately show ?thesis using t(3,4) w(9)
      by - (rule exI[of _ b], rule exI[of _ "concat (map bytes q)"], rule exI[of _ w2], auto)
  qed
qed

lemma at_rest_idle: "at_rest env k i s w \<Longrightarrow> leads env i s (map To_client ns) w [] [] w"
proof (induction ns)
  case (Cons n ns)
  obtain cc sc where c: "steady k i s cc sc w" "quiet_client cc" using Cons.prems by (auto simp: at_rest_def)
  have "leads env i s [To_client n] w [] [] w"
    by (rule occurs_nothing_client[of i cc]) (use c in \<open>simp_all add: steady_def quiet_client_def\<close>)
  then show ?case using leads_append[OF _ Cons.IH[OF Cons.prems]] by fastforce
qed simp

definition at_end :: "'p setting \<Rightarrow> nat \<Rightarrow> nat \<Rightarrow> nat \<Rightarrow> 'p \<Rightarrow> string \<Rightarrow> 'p world \<Rightarrow> bool" where
  "at_end env k i s pc rest w = (if rest = [] then at_rest env k i s w else flushing env k i s pc rest w)"

lemma flushed:
  assumes "0 \<notin> set ns" and ka: "api_should_keep_alive (parser env) pc"
  shows "at_end env k i s pc rest w \<Longrightarrow>
    \<exists>b r w'. leads env i s (map To_client ns) w [] b w' \<and> b @ r = rest \<and> at_end env k i s pc r w' \<and>
      (length rest \<le> length ns \<longrightarrow> r = [])"
  using assms(1)
proof (induction ns arbitrary: rest w)
  case Nil
  then show ?case by (intro exI[of _ "[]"] exI[of _ rest] exI[of _ w]) simp
next
  case (Cons n ns)
  show ?case
  proof (cases "rest = []")
    case True
    then have "at_rest env k i s w" using Cons.prems(1) by (simp add: at_end_def)
    from at_rest_idle[OF this, of "n # ns"] this True show ?thesis by (auto simp: at_end_def)
  next
    case False
    then have f: "flushing env k i s pc rest w" using Cons.prems(1) by (simp add: at_end_def)
    obtain b r w1 where 1: "leads env i s [To_client n] w [] b w1" "b @ r = rest" "length r < length rest" "at_end env k i s pc r w1"
      using flushing_step[OF f False _ ka, of n] Cons.prems(2) by (auto simp: at_end_def)
    obtain b' r' w' where 2: "leads env i s (map To_client ns) w1 [] b' w'" "b' @ r' = r" "at_end env k i s pc r' w'"
      "length r \<le> length ns \<longrightarrow> r' = []"
      using Cons.IH[OF 1(4)] Cons.prems(2) by auto
    show ?thesis using leads_append[OF 1(1) 2(1)] 1(2,3) 2(2-4)
      by (intro exI[of _ "b @ b'"] exI[of _ r'] exI[of _ w']) auto
  qed
qed

section \<open>The answer is read\<close>

lemma piece_put:
  assumes l: "wired k i s cc sc w" and ok: "writing_ok i cc (w_ops w)" and e: "fed (c_encoder cc) m"
    and m: "arrived v t hs ps n m" "arrived v t hs ps n' m'" "n \<le> n'" "n' \<le> length (response_calls v t hs ps)"
    and len: "length (response_text v t hs (decoded_body v ps)) \<le> SINK_LIMIT" and u: "sent @ unsent cc = sent_of m"
  shows "\<exists>y e out. write_message i m' w = Inr y \<and> wired k i s (written_conn e out cc) sc y \<and>
           writing_ok i (written_conn e out cc) (w_ops y) \<and>
           (\<forall>j. j \<noteq> i \<longrightarrow> filter (is_write_of j) (w_ops y) = filter (is_write_of j) (w_ops w)) \<and>
           (\<forall>p \<in> set (w_ops w). \<not> is_timer_of i p \<longrightarrow> p \<in> set (w_ops y)) \<and> w_contexts y = w_contexts w \<and>
           (\<exists>q. w_queue y = w_queue w @ q \<and> list_all (aborted_wait {i, s}) q) \<and>
           sent @ unsent (written_conn e out cc) = sent_of m' \<and> (unsent (written_conn e out cc) = [] \<longrightarrow> unsent cc = []) \<and> enc_type e = HTTP_RESPONSE \<and> (\<not> completed m' \<longrightarrow> fed e m')"
proof -
  have c: "w_conns w i = Some cc" "up cc" using l by (simp_all add: wired_def)
  let ?q = "if running (c_timer cc) then map (\<lambda>p. Ready p Aborted) (filter (is_timer_of i) (w_ops w)) else []"
  obtain y cc' where y: "write_message i m' w = Inr y" "w_conns y = (w_conns w)(i \<mapsto> cc')" "up cc'" "w_thrown y = w_thrown w"
    "w_queue y = w_queue w @ ?q" "w_contexts y = w_contexts w" "w_server_mgr y = w_server_mgr w" "w_client_mgr y = w_client_mgr w"
    "sent @ unsent cc' = sent_of m'" "unsent cc' = [] \<longrightarrow> unsent cc = []" "enc_type (c_encoder cc') = HTTP_RESPONSE"
    "\<not> completed m' \<longrightarrow> fed (c_encoder cc') m'"
  proof (cases "headers_done m'")
    case True
    have s: "sendable (c_encoder cc) m'" "emitted (c_encoder cc) m' = sent_of m"
      using fed_sendable[OF e m(1-3) True m(4) len] by simp_all
    obtain y c' rest where 1: "write_message i m' w = Inr y" "w_conns y = (w_conns w)(i \<mapsto> c')" "up c'"
      "emitted (c_encoder cc) m' @ rest = serialize m'" "unsent c' = unsent cc @ rest"
      "emitted (c_encoder c') m' = serialize m'" "enc_ok (c_encoder c') m'"
      "enc_state (c_encoder c') = (if completed m' then END else BODY)" "w_thrown y = w_thrown w"
      "w_queue y = w_queue w @ ?q"
      "w_contexts y = w_contexts w" "w_server_mgr y = w_server_mgr w" "w_client_mgr y = w_client_mgr w"
      using write_message_up[OF c s(1)] by blast
    have "enc_type (c_encoder c') = HTTP_RESPONSE"
      using 1(7) m(2) by (cases "enc_type (c_encoder c')"; cases "derived m'") (simp_all add: enc_ok_def arrived_def)
    moreover have "sent @ unsent c' = sent_of m'" using 1(4,5) s(2) u True by (simp add: sent_of_def flip: append_assoc)
    ultimately show ?thesis using that[OF 1(1-3,9-13)] 1(5-8) True by (simp add: fed_def)
  next
    case False
    obtain y c' where 1: "write_message i m' w = Inr y" "w_conns y = (w_conns w)(i \<mapsto> c')" "up c'"
      "unsent c' = unsent cc" "c_encoder c' = c_encoder cc" "w_thrown y = w_thrown w"
      "w_queue y = w_queue w @ ?q"
      "w_contexts y = w_contexts w" "w_server_mgr y = w_server_mgr w" "w_client_mgr y = w_client_mgr w"
      using write_message_early[OF c False] by blast
    have "\<not> headers_done m" using m(1-3) False by (simp add: arrived_def)
    then show ?thesis using that[OF 1(1-3,6-10)] 1(4,5) e u False by (simp add: fed_def sent_of_def)
  qed
  obtain e out where o: "w_conns y = (w_conns w)(i \<mapsto> written_conn e out cc)" "writing_ok i (written_conn e out cc) (w_ops y)"
    "\<And>j. j \<noteq> i \<Longrightarrow> filter (is_write_of j) (w_ops y) = filter (is_write_of j) (w_ops w)"
    "\<forall>p \<in> set (w_ops w). \<not> is_timer_of i p \<longrightarrow> p \<in> set (w_ops y)"
    using write_message_exact[OF c ok y(1)] by auto
  have cc': "cc' = written_conn e out cc" using y(2) o(1) by (metis fun_upd_same option.inject)
  have "list_all (aborted_wait {i, s}) ?q" by (auto simp: list_all_iff elim!: is_timer_of.elims)
  moreover have "wired k i s (written_conn e out cc) sc y" using l y(2-8) by (simp add: wired_def cc')
  ultimately show ?thesis using y(1,5,6,9-12) o(2-4) unfolding cc'
    by (intro exI[of _ y] exI[of _ e] exI[of _ out]) simp
qed

text \<open>The handler of a read of the server leaves its event in the queue.\<close>

lemma answer_read:
  assumes l: "wired k i s cc sc w" and q: "w_queue w = []" and t: "\<not> running (c_timer sc)" and x: "x \<noteq> []"
    and m: "\<not> completed (c_message sc)" "deliverable m"
    and d: "decode (parser env) x (c_decoder sc) (c_message sc) = Inr (d, m, length x)"
  shows "\<exists>w2. dispatch env (finish (Read_op s) (Done x (length x)) w) = Some (Inr w2) \<and>
           wired k i s cc (sc\<lparr>c_decoder := d, c_message := m\<rparr>) w2 \<and> w_queue w2 = [Event_task READ s] \<and>
           w_ops w2 = remove1 (Read_op s) (w_ops w) \<and> w_contexts w2 = w_contexts w"
proof -
  let ?t = "Ready (Read_op s) (Done x (length x))" and ?w1 = "finish (Read_op s) (Done x (length x)) w"
  let ?u = "?w1\<lparr>w_queue := [], w_pinned := task_refs ?t\<rparr>"
  let ?v = "post (Event_task READ s) (modify s (\<lambda>c. c\<lparr>c_decoder := d, c_message := m\<rparr>) ?u)"
  have "run_task env ?t ?u = Inr ?v"
    using l t x m d unfolding wired_def up_def by (simp add: server_on_read_def server_decoded_def Let_def)
  then have "dispatch env ?w1 = Some (Inr (release ?v))"
    by (rule dispatch_one[rotated]) (use l q in \<open>simp_all add: wired_def\<close>)
  moreover have "wired k i s cc (sc\<lparr>c_decoder := d, c_message := m\<rparr>) (release ?v)"
    by (rule wired_release) (use l in \<open>simp add: wired_def up_def\<close>)
  ultimately show ?thesis by (intro exI[of _ "release ?v"]) simp
qed

definition reported :: "half \<Rightarrow> nat \<Rightarrow> string" where
  "reported h n = (if n < length (response_head (h_view h) (h_line h) (h_headers h)) then []
     else response_text (h_view h) (h_line h) (h_headers h)
       (pieces (h_view h) (h_pieces h) (n - length (response_head (h_view h) (h_line h) (h_headers h)))))"

lemma arrived_reported:
  "arrived (h_view h) (h_line h) (h_headers h) (h_pieces h) n m \<Longrightarrow> sent_of m = reported h n"
  using arrived_serialize[of "h_view h" "h_line h" "h_headers h" "h_pieces h" n m]
  by (auto simp: sent_of_def reported_def arrived_def)

lemma reported_all: "reported h (length (calls_of HTTP_RESPONSE h)) = text_of HTTP_RESPONSE h"
  by (simp add: reported_def response_calls_split pieces_all)

text \<open>What a read brings: the facts that both cases below start from.\<close>

lemma answer_arrives:
  assumes p: "progress (parser env) HTTP_RESPONSE h m0 n p sc" and m0: "blank HTTP_RESPONSE m0" and h: "half_ok HTTP_RESPONSE h"
    and x: "api_execute (parser env) p x = (p1, cs, length x)"
    and cs: "take (n + length cs) (calls_of HTTP_RESPONSE h) = take n (calls_of HTTP_RESPONSE h) @ cs"
      "n + length cs \<le> length (calls_of HTTP_RESPONSE h)" and n: "n < length (calls_of HTTP_RESPONSE h)"
  shows "\<exists>d m. decode (parser env) x (c_decoder sc) (c_message sc) = Inr (d, m, length x) \<and>
           progress (parser env) HTTP_RESPONSE h m0 (n + length cs) p1 (sc\<lparr>c_decoder := d, c_message := m\<rparr>) \<and>
           \<not> completed (c_message sc) \<and> deliverable m \<and>
           arrived (h_view h) (h_line h) (h_headers h) (h_pieces h) n (c_message sc) \<and>
           arrived (h_view h) (h_line h) (h_headers h) (h_pieces h) (n + length cs) m"
proof -
  obtain d m where d: "decode (parser env) x (c_decoder sc) (c_message sc) = Inr (d, m, length x)"
    "progress (parser env) HTTP_RESPONSE h m0 (n + length cs) p1 (sc\<lparr>c_decoder := d, c_message := m\<rparr>)"
    using progress_next[OF p x m0 h cs(1)] by blast
  have a: "arrived (h_view h) (h_line h) (h_headers h) (h_pieces h) n (c_message sc)"
    "arrived (h_view h) (h_line h) (h_headers h) (h_pieces h) (n + length cs) m"
    using progress_decoded_to[OF p m0 h] progress_decoded_to[OF d(2) m0 h cs(2)] n by (simp_all add: decoded_to_def)
  then show ?thesis using d arrived_completed[OF a(1)] arrived_deliverable[OF a(2)] n by auto
qed

text \<open>
  A read of the server up to the point where its message has been put on the connection to the client:
  what has then become of the two connections.
\<close>

lemma answer_put:
  assumes a: "answering env k i s pc h n p sent w" and h: "half_ok HTTP_RESPONSE h"
    and x: "x \<noteq> []" "api_execute (parser env) p x = (p1, cs, length x)"
    and cs: "take (n + length cs) (calls_of HTTP_RESPONSE h) = take n (calls_of HTTP_RESPONSE h) @ cs"
      "n + length cs \<le> length (calls_of HTTP_RESPONSE h)" "n < length (calls_of HTTP_RESPONSE h)"
  obtains cc sc cc' sc' m0 w2 u y q where
    "Read_op s \<in> set (w_ops w)" "dispatch env (finish (Read_op s) (Done x (length x)) w) = Some (Inr w2)"
    "w_queue w2 = [Event_task READ s]" "u = w2\<lparr>w_queue := [], w_pinned := task_refs (Event_task READ s)\<rparr>"
    "wired k i s cc sc' u" "write_message i (c_message sc') u = Inr y" "wired k i s cc' sc' y"
    "writing_ok i cc' (w_ops y)" "writing_ok s sc' (w_ops y)" "w_contexts y = w_contexts w"
    "w_queue y = q" "list_all (aborted_wait {i, s}) q" "\<not> exchange_completed (w_contexts w k)"
    "client_done cc' pc" "enc_type (c_encoder cc') = HTTP_RESPONSE" "sent @ unsent cc' = reported h (n + length cs)"
    "unsent cc' = [] \<longrightarrow> sent = reported h n" "\<not> completed (c_message sc') \<longrightarrow> fed (c_encoder cc') (c_message sc')"
    "sent_of (c_message sc') = reported h (n + length cs)" "completed (c_message sc') \<longleftrightarrow> n + length cs = length (calls_of HTTP_RESPONSE h)"
    "progress (parser env) HTTP_RESPONSE h m0 (n + length cs) p1 sc'" "blank HTTP_RESPONSE m0"
    "\<not> running (c_timer sc')" "c_buffer_out sc' = []" "enc_type (c_encoder sc') = HTTP_REQUEST"
proof -
  obtain cc sc m0 where w: "wired k i s cc sc w" "writing_ok i cc (w_ops w)" "writing_ok s sc (w_ops w)" "w_queue w = []"
    "\<not> exchange_completed (w_contexts w k)" "client_done cc pc" "\<not> running (c_timer sc)" "c_buffer_out sc = []"
    "enc_type (c_encoder sc) = HTTP_REQUEST" "Read_op s \<in> set (w_ops w)" "blank HTTP_RESPONSE m0"
    "progress (parser env) HTTP_RESPONSE h m0 n p sc" "fed (c_encoder cc) (c_message sc)" "sent @ unsent cc = sent_of (c_message sc)"
    using a by (auto simp: answering_def steady_def)
  obtain d m where d: "decode (parser env) x (c_decoder sc) (c_message sc) = Inr (d, m, length x)"
    "progress (parser env) HTTP_RESPONSE h m0 (n + length cs) p1 (sc\<lparr>c_decoder := d, c_message := m\<rparr>)"
    "\<not> completed (c_message sc)" "deliverable m"
    "arrived (h_view h) (h_line h) (h_headers h) (h_pieces h) n (c_message sc)"
    "arrived (h_view h) (h_line h) (h_headers h) (h_pieces h) (n + length cs) m"
    using answer_arrives[OF w(12,11) h x(2) cs] by blast
  let ?sc = "sc\<lparr>c_decoder := d, c_message := m\<rparr>"
  obtain w2 where w2: "dispatch env (finish (Read_op s) (Done x (length x)) w) = Some (Inr w2)"
    "wired k i s cc ?sc w2" "w_queue w2 = [Event_task READ s]" "w_ops w2 = remove1 (Read_op s) (w_ops w)" "w_contexts w2 = w_contexts w"
    using answer_read[OF w(1,4,7) x(1) d(3,4,1)] by blast
  let ?u = "w2\<lparr>w_queue := [], w_pinned := task_refs (Event_task READ s)\<rparr>"
  have lu: "wired k i s cc ?sc ?u" using w2(2) by (simp add: wired_def)
  have ok: "writing_ok i cc (w_ops ?u)" using w(2) w2(4) by (simp add: writing_ok_def)
  have len: "n + length cs \<le> length (response_calls (h_view h) (h_line h) (h_headers h) (h_pieces h))"
    "length (response_text (h_view h) (h_line h) (h_headers h) (decoded_body (h_view h) (h_pieces h))) \<le> SINK_LIMIT"
    using cs(2) h by (simp_all add: half_ok_def)
  obtain y e out q where y: "write_message i m ?u = Inr y" "wired k i s (written_conn e out cc) ?sc y"
    "writing_ok i (written_conn e out cc) (w_ops y)"
    "\<And>j. j \<noteq> i \<Longrightarrow> filter (is_write_of j) (w_ops y) = filter (is_write_of j) (w_ops ?u)"
    "w_contexts y = w_contexts ?u" "w_queue y = w_queue ?u @ q" "list_all (aborted_wait {i, s}) q"
    "sent @ unsent (written_conn e out cc) = sent_of m" "unsent (written_conn e out cc) = [] \<longrightarrow> unsent cc = []"
    "enc_type e = HTTP_RESPONSE" "\<not> completed m \<longrightarrow> fed e m"
    using piece_put[OF lu ok w(13) d(5,6) le_add1 len w(14)] by blast
  have si: "s \<noteq> i" using w(1) by (simp add: wired_def)
  have "writing_ok s ?sc (w_ops y)" using w(3) y(4)[OF si] w2(4) by (simp add: writing_ok_def)
  moreover have "completed m \<longleftrightarrow> n + length cs = length (calls_of HTTP_RESPONSE h)" using arrived_completed[OF d(6)] by simp
  moreover have "unsent (written_conn e out cc) = [] \<longrightarrow> sent = reported h n"
    using y(9) w(14) arrived_reported[OF d(5)] by auto
  ultimately show ?thesis
    using that[of w2 ?u cc ?sc y "written_conn e out cc" q m0] w(5-11) w2(1,3,5) lu y d(2) arrived_reported[OF d(6)] by simp
qed

lemma answering_more:
  assumes a: "answering env k i s pc h n p sent w" and h: "half_ok HTTP_RESPONSE h"
    and x: "x \<noteq> []" "api_execute (parser env) p x = (p1, cs, length x)"
    and cs: "take (n + length cs) (calls_of HTTP_RESPONSE h) = take n (calls_of HTTP_RESPONSE h) @ cs"
      "n + length cs < length (calls_of HTTP_RESPONSE h)"
  shows "\<exists>w'. leads env i s [From_server x] w [] [] w' \<and> answering env k i s pc h (n + length cs) p1 sent w'"
proof -
  have n: "n + length cs \<le> length (calls_of HTTP_RESPONSE h)" "n < length (calls_of HTTP_RESPONSE h)" using cs(2) by simp_all
  obtain cc sc cc' sc' m0 w2 u y q where
    r: "Read_op s \<in> set (w_ops w)" "dispatch env (finish (Read_op s) (Done x (length x)) w) = Some (Inr w2)"
    and e: "w_queue w2 = [Event_task READ s]" "u = w2\<lparr>w_queue := [], w_pinned := task_refs (Event_task READ s)\<rparr>"
    and y: "wired k i s cc sc' u" "write_message i (c_message sc') u = Inr y" "wired k i s cc' sc' y"
      "writing_ok i cc' (w_ops y)" "writing_ok s sc' (w_ops y)" "w_contexts y = w_contexts w" "w_queue y = q" "list_all (aborted_wait {i, s}) q"
    and c: "\<not> exchange_completed (w_contexts w k)" "client_done cc' pc" "sent @ unsent cc' = reported h (n + length cs)"
      "\<not> completed (c_message sc') \<longrightarrow> fed (c_encoder cc') (c_message sc')" "sent_of (c_message sc') = reported h (n + length cs)"
      "completed (c_message sc') \<longleftrightarrow> n + length cs = length (calls_of HTTP_RESPONSE h)"
    and sc: "progress (parser env) HTTP_RESPONSE h m0 (n + length cs) p1 sc'" "blank HTTP_RESPONSE m0" "\<not> running (c_timer sc')"
      "c_buffer_out sc' = []" "enc_type (c_encoder sc') = HTTP_REQUEST"
    by (rule answer_put[OF a h x cs(1) n])
  have nc: "\<not> completed (c_message sc')" using c(6) cs(2) by simp
  let ?v = "initiate (Read_op s) y"
  have "on_server_message env k (c_message sc') u = Inr ?v"
    using wired_locks[OF y(1)] y(2,3) nc by (simp add: on_server_message_def Let_def read_def wired_def up_def)
  then have "run_task env (Event_task READ s) u = Inr ?v"
    using y(1) by (simp add: wired_def on_server_event_def Let_def)
  then have di: "dispatch env w2 = Some (Inr (release ?v))"
    unfolding e(2) by (rule dispatch_one[OF e(1)]) (use y(3) in \<open>simp add: wired_def\<close>)
  have "wired k i s cc' sc' ?v" using y(3) by (simp add: wired_def)
  then have lv: "wired k i s cc' sc' (release ?v)" by (rule wired_release)
  have qv: "w_queue (release ?v) = q @ []" using y(7) by simp
  obtain w' r1 r2 where w': "runs env (release ?v) w'" "w_queue w' = []" "w_ops w' = w_ops ?v" "w_contexts w' = w_contexts w"
    "wired k i s (cc'\<lparr>c_timer := r1\<rparr>) (sc'\<lparr>c_timer := r2\<rparr>) w'" "running r2 \<longrightarrow> running (c_timer sc')"
    using settles[OF lv qv y(8), of env] y(6) by auto
  have "writing_ok i (cc'\<lparr>c_timer := r1\<rparr>) (w_ops w')" "writing_ok s (sc'\<lparr>c_timer := r2\<rparr>) (w_ops w')"
    using y(4,5) w'(3) by (simp_all add: writing_ok_def)
  then have "answering env k i s pc h (n + length cs) p1 sent w'"
    unfolding answering_def steady_def using c nc sc w'(2-6)
    by (intro exI[of _ "cc'\<lparr>c_timer := r1\<rparr>"] exI[of _ "sc'\<lparr>c_timer := r2\<rparr>"] exI[of _ m0]) (auto simp: unsent_def)
  moreover have "leads env i s [From_server x] w ([] @ []) ([] @ []) w'"
    by (rule leads_Cons[OF _ runs_queue[OF runs.Step[OF r(2) runs.Step[OF di w'(1)]] w'(2)]]) (simp_all add: arrives_def r(1))
  ultimately show ?thesis by auto
qed

lemma server_reset_exact:
  assumes l: "wired k i s cc sc u" and ok: "writing_ok s sc (w_ops u)" "c_buffer_out sc = []" "\<not> running (c_timer sc)"
    and sc: "dec_type (c_decoder sc) = HTTP_RESPONSE" "enc_type (c_encoder sc) = HTTP_REQUEST"
      "msg_ok SINK_LIMIT (c_message sc)" "matches HTTP_RESPONSE (derived (c_message sc))"
  shows "\<exists>v sc'. server_reset api s u = Inr v \<and> wired k i s cc sc' v \<and> w_contexts v = w_contexts u \<and>
           (\<exists>q. w_queue v = w_queue u @ q \<and> list_all (aborted_wait {i, s}) q) \<and> quiet_server api sc' \<and> \<not> c_writing sc' \<and>
           (\<forall>j. filter (is_write_of j) (w_ops v) = filter (is_write_of j) (w_ops u)) \<and> tracked s sc' (w_ops v)"
proof -
  let ?c = "sc\<lparr>c_buffer_out := [], c_writing := False, c_decoder := reset_decoder api (c_decoder sc),
     c_encoder := reset_encoder (c_encoder sc), c_message := reset_message (c_message sc)\<rparr>"
  let ?u = "reset_codec api s (connection_reset s u)" and ?r = "(c_timer sc)\<lparr>running := True\<rparr>"
  let ?v = "modify s (\<lambda>c. c\<lparr>c_timer := (c_timer c)\<lparr>running := True\<rparr>\<rparr>)
        (initiate (Timer_op s SERVER_IDLE_WAITING_TIME False) (cancel_waits s ?u))"
  have conns: "w_conns ?u = (w_conns u)(s \<mapsto> ?c)"
    using l by (intro ext) (simp add: reset_codec_def connection_reset_def wired_def)
  have u: "w_ops ?u = w_ops u" "w_queue ?u = w_queue u" "w_contexts ?u = w_contexts u" "w_client_mgr ?u = w_client_mgr u"
    "w_server_mgr ?u = w_server_mgr u" "w_thrown ?u = w_thrown u"
    by (simp_all add: reset_codec_def connection_reset_def)
  have c: "quiet_server api (?c\<lparr>c_timer := ?r\<rparr>)"
    using sc blank_reset[of "c_message sc" HTTP_RESPONSE]
    by (simp add: quiet_server_def reset_decoder_def new_decoder_def reset_encoder_def new_encoder_def)
  have "w_conns ?u s = Some ?c" using conns by simp
  then have "server_reset api s u = Inr ?v"
    using ok(3) l by (simp add: server_reset_def timer_start_def wired_def)
  moreover have "wired k i s cc (?c\<lparr>c_timer := ?r\<rparr>) ?v"
    using l conns u by (simp add: wired_def up_def)
  moreover have "list_all (aborted_wait {i, s}) (map (\<lambda>p. Ready p Aborted) (filter (is_timer_of s) (w_ops u)))"
    by (auto simp: list_all_iff elim!: is_timer_of.elims)
  moreover have "w_queue ?v = w_queue u @ map (\<lambda>p. Ready p Aborted) (filter (is_timer_of s) (w_ops u))"
    using u by (simp add: cancel_waits_def)
  moreover have "tracked s (?c\<lparr>c_timer := ?r\<rparr>) (w_ops ?v)" by (auto simp: tracked_def)
  ultimately show ?thesis using c u
    by (intro exI[of _ ?v] exI[of _ "?c\<lparr>c_timer := ?r\<rparr>"]) simp
qed

lemma answering_last:
  assumes a: "answering env k i s pc h n p sent w" and h: "half_ok HTTP_RESPONSE h"
    and x: "x \<noteq> []" "api_execute (parser env) p x = (p1, cs, length x)"
    and cs: "take (n + length cs) (calls_of HTTP_RESPONSE h) = take n (calls_of HTTP_RESPONSE h) @ cs"
      "n + length cs = length (calls_of HTTP_RESPONSE h)" "cs \<noteq> []"
    and ka: "api_should_keep_alive (parser env) p1" and adds: "reported h n \<noteq> text_of HTTP_RESPONSE h"
  shows "\<exists>w' rest. leads env i s [From_server x] w [] [] w' \<and> flushing env k i s pc rest w' \<and> rest \<noteq> [] \<and>
           sent @ rest = text_of HTTP_RESPONSE h"
proof -
  have n: "n + length cs \<le> length (calls_of HTTP_RESPONSE h)" "n < length (calls_of HTTP_RESPONSE h)"
    using cs(2,3) by (cases cs; simp)+
  obtain cc sc cc' sc' m0 w2 u y q where
    r: "Read_op s \<in> set (w_ops w)" "dispatch env (finish (Read_op s) (Done x (length x)) w) = Some (Inr w2)"
    and e: "w_queue w2 = [Event_task READ s]" "u = w2\<lparr>w_queue := [], w_pinned := task_refs (Event_task READ s)\<rparr>"
    and y: "wired k i s cc sc' u" "write_message i (c_message sc') u = Inr y" "wired k i s cc' sc' y"
      "writing_ok i cc' (w_ops y)" "writing_ok s sc' (w_ops y)" "w_queue y = q" "list_all (aborted_wait {i, s}) q"
    and c: "client_done cc' pc" "enc_type (c_encoder cc') = HTTP_RESPONSE" "sent @ unsent cc' = reported h (n + length cs)"
      "unsent cc' = [] \<longrightarrow> sent = reported h n" "completed (c_message sc') \<longleftrightarrow> n + length cs = length (calls_of HTTP_RESPONSE h)"
    and sc: "progress (parser env) HTTP_RESPONSE h m0 (n + length cs) p1 sc'" "blank HTTP_RESPONSE m0" "\<not> running (c_timer sc')"
      "c_buffer_out sc' = []" "enc_type (c_encoder sc') = HTTP_REQUEST"
    by (rule answer_put[OF a h x cs(1) n])
  have m: "message_of HTTP_RESPONSE h (c_message sc')" "msg_ok SINK_LIMIT (c_message sc')" "dec_type (c_decoder sc') = HTTP_RESPONSE"
    "dec_headers_done (c_decoder sc')" "dec_parser (c_decoder sc') = p1"
    using progress_end[OF sc(1)[unfolded cs(2)] sc(2) h] by simp_all
  let ?y = "set_context k (\<lambda>x. x\<lparr>exchange_completed := True\<rparr>) y"
  have ly: "wired k i s cc' sc' ?y" "writing_ok s sc' (w_ops ?y)" "matches HTTP_RESPONSE (derived (c_message sc'))"
    using y(3,5) m(1) by (simp_all add: wired_def set_context_def message_of_def complete_message_def)
  obtain v sc2 q2 where v: "server_reset (parser env) s ?y = Inr v" "wired k i s cc' sc2 v" "w_contexts v = w_contexts ?y"
    "w_queue v = w_queue ?y @ q2" "list_all (aborted_wait {i, s}) q2" "quiet_server (parser env) sc2" "\<not> c_writing sc2"
    "\<And>j. filter (is_write_of j) (w_ops v) = filter (is_write_of j) (w_ops ?y)" "tracked s sc2 (w_ops v)"
    using server_reset_exact[OF ly(1,2) sc(4,3) m(3) sc(5) m(2) ly(3), of "parser env"] by blast
  have "w_conns ?y s = Some sc'" "keep_alive (parser env) (c_decoder sc')" "completed (c_message sc')"
    using ly(1) m(4,5) ka c(5) cs(2) by (simp_all add: wired_def keep_alive_def)
  then have "on_server_message env k (c_message sc') u = Inr v"
    using wired_locks[OF y(1)] y(2) v(1) by (simp add: on_server_message_def Let_def conn_keep_alive_def)
  then have "run_task env (Event_task READ s) u = Inr v"
    using y(1) by (simp add: wired_def on_server_event_def Let_def)
  then have di: "dispatch env w2 = Some (Inr (release v))"
    unfolding e(2) by (rule dispatch_one[OF e(1)]) (use v(2) in \<open>simp add: wired_def\<close>)
  have qv: "w_queue (release v) = (q @ q2) @ []" "list_all (aborted_wait {i, s}) (q @ q2)"
    using v(4,5) y(6,7) by (simp_all add: set_context_def)
  obtain w' r1 r2 where w': "runs env (release v) w'" "w_queue w' = []" "w_ops w' = w_ops v" "w_contexts w' = w_contexts v"
    "wired k i s (cc'\<lparr>c_timer := r1\<rparr>) (sc2\<lparr>c_timer := r2\<rparr>) w'" "running r2 \<longrightarrow> running (c_timer sc2)"
    using settles[OF wired_release[OF v(2)] qv, of env] by auto
  have "writing_ok i (cc'\<lparr>c_timer := r1\<rparr>) (w_ops w')" "writing_ok s (sc2\<lparr>c_timer := r2\<rparr>) (w_ops w')"
    using y(4,5) sc(4) w'(3) v(6,7,8) by (simp_all add: writing_ok_def set_context_def quiet_server_def)
  moreover have "tracked s (sc2\<lparr>c_timer := r2\<rparr>) (w_ops w')"
    by (rule tracked_kept[OF v(9) w'(6)]) (simp add: w'(3))
  moreover have "exchange_completed (w_contexts w' k)" using w'(4) v(3) by (simp add: set_context_def)
  ultimately have "flushing env k i s pc (unsent cc') w'"
    unfolding flushing_def steady_def using c(1,2) w'(2,5) v(6)
    by (intro exI[of _ "cc'\<lparr>c_timer := r1\<rparr>"] exI[of _ "sc2\<lparr>c_timer := r2\<rparr>"]) (simp add: unsent_def)
  moreover have "leads env i s [From_server x] w ([] @ []) ([] @ []) w'"
    by (rule leads_Cons[OF _ runs_queue[OF runs.Step[OF r(2) runs.Step[OF di w'(1)]] w'(2)]]) (simp_all add: arrives_def r(1))
  moreover have t: "sent @ unsent cc' = text_of HTTP_RESPONSE h" using c(3) reported_all[of h] cs(2) by simp
  moreover have "unsent cc' \<noteq> []" using t c(4) adds by auto
  ultimately show ?thesis by auto
qed

end
