(* ===== verification/Failures.thy ===== *)
theory Failures
  imports Exchanges
begin

text \<open>
  Executions in which the program faults or loses a guarantee, each found as a run of the model from its
  start: a script says which operation completes with which outcome and when the next handler runs.
  Scripts also show that states with a given property are reached.
\<close>

section \<open>Scripts\<close>

datatype script_event = Completes operation outcome | Runs

fun play :: "'p setting \<Rightarrow> script_event list \<Rightarrow> 'p world \<Rightarrow> 'p world result option" where
  "play env [] w = Some (Inr w)"
| "play env (Completes p r # es) w =
     (if p \<in> set (w_ops w) \<and> possible p r then play env es (finish p r w) else None)"
| "play env (Runs # es) w =
     (case dispatch env w of
        None \<Rightarrow> None
      | Some (Inl f) \<Rightarrow> Some (Inl f)
      | Some (Inr w') \<Rightarrow> play env es w')"

lemma play_reaches:
  "reachable env cm w \<Longrightarrow> play env es w = Some (Inl f) \<Longrightarrow> \<exists>w'. reachable env cm w' \<and> crashes env w' f"
proof (induction env es w rule: play.induct)
  case (1 env w)
  then show ?case by simp
next
  case (2 env p r es w)
  then have "reachable env cm (finish p r w)"
    unfolding reachable_def by (auto intro: reach.Next step.Finish split: if_splits)
  then show ?case using 2 by (auto split: if_splits)
next
  case (3 env es w)
  have after: "reachable env cm w'" if "dispatch env w = Some (Inr w')" for w'
    using 3(2) that unfolding reachable_def by (auto intro: reach.Next step.Dispatch)
  show ?case
    using 3 after by (auto simp: crashes_def split: option.splits sum.splits)
qed

lemma play_keeps:
  "reachable env cm w \<Longrightarrow> play env es w = Some (Inr w') \<Longrightarrow> reachable env cm w'"
proof (induction env es w rule: play.induct)
  case (2 env p r es w)
  then have "reachable env cm (finish p r w)"
    unfolding reachable_def by (auto intro: reach.Next step.Finish split: if_splits)
  then show ?case using 2 by (auto split: if_splits)
next
  case (3 env es w)
  have "reachable env cm v" if "dispatch env w = Some (Inr v)" for v
    using 3(2) that unfolding reachable_def by (auto intro: reach.Next step.Dispatch)
  then show ?case using 3 by (auto split: option.splits sum.splits)
qed simp

section \<open>A parser for the scripts\<close>

text \<open>
  A parser that makes given callbacks, one list for each read of a request and of a response; when the
  list is used up it has met an error and consumes nothing.
\<close>

definition two_sided :: "(parser_view \<times> callback) list list \<Rightarrow> (parser_view \<times> callback) list list \<Rightarrow>
    (parser_view \<times> callback) list list parser_api" where
  "two_sided req resp = \<lparr>api_init = (\<lambda>t. case t of HTTP_REQUEST \<Rightarrow> req | HTTP_RESPONSE \<Rightarrow> resp),
     api_execute = (\<lambda>p x. case p of [] \<Rightarrow> ([], [], 0) | c # p' \<Rightarrow> (p', c, length x)),
     api_errno_ok = (\<lambda>_. True), api_should_keep_alive = (\<lambda>_. True)\<rparr>"

definition view :: parser_view where
  "view = \<lparr>pv_method = ''GET'', pv_is_connect = False, pv_major = 1, pv_minor = 1, pv_status = 200, pv_chunked = False\<rparr>"

definition get_calls :: "string \<Rightarrow> string \<Rightarrow> (parser_view \<times> callback) list list" where
  "get_calls name host = [map (Pair view) [On_message_begin, On_url ''/'', On_header_field name,
     On_header_value host, On_headers_complete, On_message_complete]]"

definition demo_response :: "(parser_view \<times> callback) list list" where
  "demo_response = [map (Pair view) [On_message_begin, On_status ''OK'', On_header_field ''A'',
     On_header_value ''b'', On_headers_complete], map (Pair view) [On_body ''hi'', On_message_complete]]"

definition demo :: "(parser_view \<times> callback) list list \<Rightarrow> (parser_view \<times> callback) list list \<Rightarrow>
    (parser_view \<times> callback) list list setting" where
  "demo req resp = \<lparr>parser = two_sided req resp, library = no_files,
     lexical_cast = (\<lambda>s. if s = ''8080'' then Some 8080 else None)\<rparr>"

text \<open>A client connects and sends one read of data.\<close>

definition client_sends :: "script_event list" where
  "client_sends = [Completes (Accept_op 1) (Done ''10.0.0.1'' 5000), Runs,
     Completes (Read_op 1) (Done ''GET'' 0), Runs]"

section \<open>Running the scripts\<close>

text \<open>
  The contents of buffers are kept abstract in the runs: the buffer of a new message, the encoded
  request, and the two pieces of the encoded response.
\<close>

definition empty_buffer :: byte_buffer where "empty_buffer = projr (new_buffer 0)"

lemma new_buffer_0: "new_buffer 0 = Inr empty_buffer"
  by (simp add: empty_buffer_def new_buffer_def new_char_def DEFAULT_SIZE_def MAX_ALLOC_def)

lemma empty_buffer_fits: "N \<le> SINK_LIMIT \<Longrightarrow> fits N empty_buffer" "bytes empty_buffer = []"
  using fits_new[of N] fits_new[of 0] by (simp_all add: new_buffer_0)

lemma new_messages:
  "new_request = Inr \<lparr>major_version = 0, minor_version = 0, headers_done = False, message_done = False,
     headers = [], body = empty_buffer, derived = Request_part [] []\<rparr>"
  "new_response = Inr \<lparr>major_version = 0, minor_version = 0, headers_done = False, message_done = False,
     headers = [], body = empty_buffer, derived = Response_part 0 []\<rparr>"
  by (simp_all add: new_request_def new_response_def new_message_def new_buffer_0)

definition req_msg :: http_message where
  "req_msg = \<lparr>major_version = 1, minor_version = 1, headers_done = True, message_done = True,
     headers = [(''Host'', ''h.com'')], body = empty_buffer, derived = Request_part ''GET'' ''/''\<rparr>"

definition resp_msg :: "bool \<Rightarrow> byte_buffer \<Rightarrow> http_message" where
  "resp_msg d b = \<lparr>major_version = 1, minor_version = 1, headers_done = True, message_done = d,
     headers = [(''A'', ''b'')], body = b, derived = Response_part 200 ''OK''\<rparr>"

definition hi_buffer :: byte_buffer where
  "hi_buffer = projr (append_wrapper (wrap (Some (map Some ''hi'')) 2) empty_buffer)"

definition req_out :: encode_result where
  "req_out = projr (encode req_msg (new_encoder HTTP_REQUEST) empty_buffer)"

definition resp_out1 :: encode_result where
  "resp_out1 = projr (encode (resp_msg False empty_buffer) (new_encoder HTTP_RESPONSE) empty_buffer)"

definition resp_out2 :: encode_result where
  "resp_out2 = projr (encode (resp_msg True hi_buffer) (fst resp_out1) empty_buffer)"

abbreviation out_buffer :: "encode_result \<Rightarrow> byte_buffer" where "out_buffer r \<equiv> fst (snd r)"

definition req_text :: string where "req_text = ''GET / HTTP/1.1'' @ CRLF @ ''Host: h.com'' @ CRLF @ CRLF"

definition resp_text :: string where "resp_text = ''HTTP/1.1 200 OK'' @ CRLF @ ''A: b'' @ CRLF @ CRLF"

lemma hi_buffer: "append_wrapper (wrap (Some (map Some ''hi'')) 2) empty_buffer = Inr hi_buffer"
  "fits 100 hi_buffer" "bytes hi_buffer = ''hi''"
proof -
  have "succeeds (append_wrapper (wrap (Some (map Some ''hi'')) (length ''hi'')) empty_buffer)
          (\<lambda>b. fits 100 b \<and> bytes b = bytes empty_buffer @ ''hi'')"
    using memory_fits[of 100 empty_buffer "''hi''" "Some (map Some ''hi'')"] empty_buffer_fits(1)[of 100] empty_buffer_fits(2)
    by (simp add: append_wrapper_def wrap_def readable_def SINK_LIMIT_def)
  then show "append_wrapper (wrap (Some (map Some ''hi'')) 2) empty_buffer = Inr hi_buffer"
    "fits 100 hi_buffer" "bytes hi_buffer = ''hi''"
    using empty_buffer_fits(2) by (auto simp: succeeds_iff hi_buffer_def numeral_2_eq_2)
qed

lemma encoded:
  assumes "headers_done m" and "enc_ok e m" and "msg_ok 100 m" and "length (serialize m) \<le> 200"
    and "enc_state e \<noteq> END" and "r = projr (encode m e empty_buffer)"
  shows "encode m e empty_buffer = Inr (fst r, out_buffer r, snd (snd r)) \<and> emitted e m @ bytes (out_buffer r) = serialize m \<and>
     bb_size (out_buffer r) = length (bytes (out_buffer r)) \<and> enc_ok (fst r) m \<and>
     enc_state (fst r) = (if completed m then END else BODY) \<and> emitted (fst r) m = serialize m \<and> enc_type (fst r) = enc_type e"
  using encode_call[OF assms(1-3), of 200 empty_buffer] empty_buffer_fits(1)[of 200] empty_buffer_fits(2) assms(4-6)
  by (auto simp: call_result_def SINK_LIMIT_def fits_def)

lemma texts: "serialize req_msg = req_text" "serialize (resp_msg d b) = resp_text @ bytes b"
  by (simp_all add: req_msg_def resp_msg_def req_text_def resp_text_def serialize_def start_line_def header_block_def
      header_line_def body_text_def empty_buffer_fits to_string_int_def to_string_nat_def digits_in.simps digit_char_def)

lemma lengths: "length req_text = 31" "length resp_text = 25"
  by (simp_all add: req_text_def resp_text_def CRLF_def)

lemma new_encoder_simps [simp]:
  "enc_state (new_encoder t) = BEGIN" "body_encoded (new_encoder t) = 0" "enc_type (new_encoder t) = t"
  "emitted (new_encoder t) m = []"
  by (simp_all add: new_encoder_def emitted_def)

lemma req_facts:
  "headers_done req_msg" "completed req_msg" "msg_ok 100 req_msg" "enc_ok (new_encoder HTTP_REQUEST) req_msg"
  by (simp_all add: req_msg_def completed_def msg_ok_def headers_ok_def empty_buffer_fits(1) SINK_LIMIT_def enc_ok_def)

lemma resp_facts:
  "headers_done (resp_msg d b)" "completed (resp_msg d b) = d" "fits 100 b \<Longrightarrow> msg_ok 100 (resp_msg d b)"
  "matches HTTP_RESPONSE (derived (resp_msg d b))" "body_text (resp_msg d b) = bytes b"
  by (simp_all add: resp_msg_def completed_def msg_ok_def headers_ok_def body_text_def)

lemma req_out: "encode req_msg (new_encoder HTTP_REQUEST) empty_buffer = Inr (fst req_out, out_buffer req_out, snd (snd req_out))"
  "bytes (out_buffer req_out) = req_text" "bb_size (out_buffer req_out) = 31"
  using encoded[OF req_facts(1,4,3) _ _ req_out_def] by (simp_all add: texts lengths)

lemma resp_out1: "encode (resp_msg False empty_buffer) (new_encoder HTTP_RESPONSE) empty_buffer = Inr (fst resp_out1, out_buffer resp_out1, snd (snd resp_out1))"
  "bytes (out_buffer resp_out1) = resp_text" "bb_size (out_buffer resp_out1) = 25"
  "enc_state (fst resp_out1) = BODY" "enc_ok (fst resp_out1) (resp_msg False empty_buffer)"
  "enc_type (fst resp_out1) = HTTP_RESPONSE"
  using encoded[OF resp_facts(1) _ resp_facts(3) _ _ resp_out1_def] empty_buffer_fits(1)[of 100] empty_buffer_fits(2)
  by (simp_all add: texts lengths resp_facts SINK_LIMIT_def enc_ok_def)

lemma resp_out2: "encode (resp_msg True hi_buffer) (fst resp_out1) empty_buffer = Inr (fst resp_out2, out_buffer resp_out2, snd (snd resp_out2))"
  "bytes (out_buffer resp_out2) = ''hi''" "bb_size (out_buffer resp_out2) = 2"
proof -
  have e: "enc_ok (fst resp_out1) (resp_msg True hi_buffer)" "body_encoded (fst resp_out1) = 0"
    using resp_out1(4-6) by (simp_all add: enc_ok_def resp_facts empty_buffer_fits(2))
  have "emitted (fst resp_out1) (resp_msg True hi_buffer) = resp_text"
    using resp_out1(4) e(2) texts(2)[of True empty_buffer]
    by (simp add: emitted_def serialize_def empty_buffer_fits(2) resp_facts start_line_def header_block_def)
       (simp add: resp_msg_def)
  then show "encode (resp_msg True hi_buffer) (fst resp_out1) empty_buffer = Inr (fst resp_out2, out_buffer resp_out2, snd (snd resp_out2))"
    "bytes (out_buffer resp_out2) = ''hi''" "bb_size (out_buffer resp_out2) = 2"
    using encoded[OF resp_facts(1) e(1) resp_facts(3)[OF hi_buffer(2)] _ _ resp_out2_def] resp_out1(4)
    by (simp_all add: texts lengths hi_buffer)
qed


lemmas run_defs = first_world_def dispatch_def boot_def start_accept_def make_connection_def new_connection_def new_messages Let_def
  initial_world_def set_context_def initiate_def finish_def release_def restart_def shared_refs_def
  mgr_add_def mgr_erase_def modify_def conn_def new_timer_def new_context_def post_def lock_def restrict_map_def List.insert_def
  timer_start_def timer_cancel_def cancel_waits_def on_timer_def

lemmas accept_defs = on_accept_def start_def client_start_def server_start_def server_connect_def read_def
  client_on_read_def client_decoded_def on_client_event_def on_client_message_def parse_destination_def
  find_header_def deliverable_def completed_def open_server_def

lemmas server_defs = write_message_def do_write_def push_encoded_def new_buffer_0 server_on_resolve_def server_on_connect_def
  on_server_event_def write_out_def on_written_def on_write_def server_on_write_def client_on_write_def
  server_on_read_def server_decoded_def on_server_message_def conn_keep_alive_def keep_alive_def server_reset_def client_reset_def
  reset_codec_def connection_reset_def context_reset_def append_body_data_def find_char_none substr_from_def

lemmas decode_defs = demo_def two_sided_def decode_def new_decoder_def get_calls_def demo_response_def view_def
  on_message_begin_def on_url_def on_status_def on_header_field_def on_header_value_def on_headers_complete_def on_body_def
  on_message_complete_def set_method_uri_def set_status_message_def rewrite_uri_def char_at_0_def add_header_def reset_decoder_def

lemma hi_appended: "append_wrapper (wrap (Some [Some CHR ''h'', Some CHR ''i'']) (Suc (Suc 0))) empty_buffer = Inr hi_buffer"
  using hi_buffer(1) by (simp add: numeral_2_eq_2)

lemma bad_port_found: "find_char CHR '':'' ''h.com:x'' 0 = 5" "5 \<noteq> npos" "size_add 5 (Suc 0) = 6"
  by (simp_all add: find_char_def npos_def SIZE_MOD_def size_add_def)

lemmas out_defs = req_out(1)[unfolded req_msg_def] req_out(2,3)
  resp_out1(1)[unfolded resp_msg_def] resp_out1(2,3)
  resp_out2(1)[unfolded resp_msg_def] resp_out2(2,3) lengths hi_appended

definition to_server :: "script_event list" where
  "to_server = client_sends @ [Runs, Completes (Resolve_op 3) (Done [] 0), Runs, Completes (Connect_op 3) (Done [] 0)]"

definition to_response :: "script_event list" where
  "to_response = [Runs, Runs, Completes (Write_op 3 req_text) (Done [] 31), Runs]"

lemmas stop_defs = halt_def stop_def stop_all_def stop_one_def detach_def on_signal_def close_acceptor_def

section \<open>Two exchanges with one client\<close>

text \<open>
  A parser that takes each read for one message without a body: a GET request for the host that the read
  names, or a response.
\<close>

definition host_parser :: "parser_type parser_api" where
  "host_parser = \<lparr>api_init = id, api_execute = (\<lambda>t x. (t, map (Pair view) (case t of
        HTTP_REQUEST \<Rightarrow> [On_message_begin, On_url ''/'', On_header_field ''Host'', On_header_value x, On_headers_complete, On_message_complete]
      | HTTP_RESPONSE \<Rightarrow> [On_message_begin, On_status ''OK'', On_header_field ''A'', On_header_value x, On_headers_complete, On_message_complete]),
      length x)),
     api_errno_ok = (\<lambda>_. True), api_should_keep_alive = (\<lambda>_. True)\<rparr>"

definition two_hosts :: "parser_type setting" where
  "two_hosts = \<lparr>parser = host_parser, library = no_files, lexical_cast = (\<lambda>_. None)\<rparr>"

definition get_from :: "string \<Rightarrow> http_message" where
  "get_from h = \<lparr>major_version = 1, minor_version = 1, headers_done = True, message_done = True,
     headers = [(''Host'', h)], body = empty_buffer, derived = Request_part ''GET'' ''/''\<rparr>"

definition get_text :: "string \<Rightarrow> string" where
  "get_text h = ''GET / HTTP/1.1'' @ CRLF @ ''Host: '' @ h @ CRLF @ CRLF"

definition get_out :: "string \<Rightarrow> encode_result" where
  "get_out h = projr (encode (get_from h) (new_encoder HTTP_REQUEST) empty_buffer)"

definition ok_out :: encode_result where
  "ok_out = projr (encode (resp_msg True empty_buffer) (new_encoder HTTP_RESPONSE) empty_buffer)"

lemma reset_is_new: "enc_type e = t \<Longrightarrow> reset_encoder e = new_encoder t"
  by (simp add: reset_encoder_def new_encoder_def)

lemma get_text_length: "length (get_text h) = 26 + length h"
  by (simp add: get_text_def CRLF_def)

lemma get_out:
  assumes "length h = 5"
  shows "encode (get_from h) (new_encoder HTTP_REQUEST) empty_buffer = Inr (fst (get_out h), out_buffer (get_out h), snd (snd (get_out h)))"
   "bytes (out_buffer (get_out h)) = get_text h" "bb_size (out_buffer (get_out h)) = 31"
   "reset_encoder (fst (get_out h)) = new_encoder HTTP_REQUEST"
proof -
  have s: "serialize (get_from h) = get_text h"
    by (simp add: get_from_def get_text_def serialize_def start_line_def header_block_def
      header_line_def body_text_def empty_buffer_fits to_string_int_def to_string_nat_def digits_in.simps digit_char_def)
  have l: "length (get_text h) = 31" using assms by (simp add: get_text_length)
  have f: "headers_done (get_from h)" "completed (get_from h)" "msg_ok 100 (get_from h)" "enc_ok (new_encoder HTTP_REQUEST) (get_from h)"
    using assms by (simp_all add: get_from_def completed_def msg_ok_def headers_ok_def empty_buffer_fits(1) SINK_LIMIT_def enc_ok_def)
  from encoded[OF f(1,4,3) _ _ get_out_def] s l
  show "encode (get_from h) (new_encoder HTTP_REQUEST) empty_buffer = Inr (fst (get_out h), out_buffer (get_out h), snd (snd (get_out h)))"
   "bytes (out_buffer (get_out h)) = get_text h" "bb_size (out_buffer (get_out h)) = 31"
   "reset_encoder (fst (get_out h)) = new_encoder HTTP_REQUEST"
    by (simp_all add: reset_is_new)
qed

lemma ok_out:
  "encode (resp_msg True empty_buffer) (new_encoder HTTP_RESPONSE) empty_buffer = Inr (fst ok_out, out_buffer ok_out, snd (snd ok_out))"
  "bytes (out_buffer ok_out) = resp_text" "bb_size (out_buffer ok_out) = 25"
  "reset_encoder (fst ok_out) = new_encoder HTTP_RESPONSE"
  using encoded[OF resp_facts(1) _ resp_facts(3) _ _ ok_out_def] empty_buffer_fits(1)[of 100] empty_buffer_fits(2)
  by (simp_all add: texts lengths resp_facts SINK_LIMIT_def enc_ok_def reset_is_new)

lemma cleared: "buffer_clear empty_buffer = empty_buffer"
  by (simp add: empty_buffer_def buffer_clear_def new_buffer_def new_char_def DEFAULT_SIZE_def MAX_ALLOC_def)

section \<open>Properties: reachable failures\<close>

lemma asked_run:
  assumes "name \<in> {''Host'', ''host''}"
  shows "\<exists>w c. play (demo (get_calls name ''h.com'') []) client_sends (first_world (demo (get_calls name ''h.com'') []) new_manager) = Some (Inr w) \<and>
     (\<exists>q. w_queue w = Event_task READ 1 # q) \<and> w_conns w 1 = Some c \<and> completed (c_message c) \<and>
     derived (c_message c) = Request_part ''GET'' ''/'' \<and> headers (c_message c) = [(name, ''h.com'')] \<and>
     (if name = ''Host'' then \<exists>w'. dispatch (demo (get_calls name ''h.com'') []) w = Some (Inr w') \<and> Resolve_op 3 \<in> set (w_ops w')
      else crashes (demo (get_calls name ''h.com'') []) w Assertion_Failed)"
  using assms
  by auto (simp_all add: client_sends_def run_defs accept_defs decode_defs server_defs out_defs crashes_def del: prod.collapse)

lemma bad_port_run:
  "\<exists>w c w'. play (demo (get_calls ''Host'' ''h.com:x'') []) client_sends (first_world (demo (get_calls ''Host'' ''h.com:x'') []) new_manager) = Some (Inr w) \<and>
     (\<exists>q. w_queue w = Event_task READ 1 # q) \<and> w_conns w 1 = Some c \<and> find_header (c_message c) ''Host'' = Some ''h.com:x'' \<and>
     w_current w = Some 2 \<and> Accept_op 2 \<in> set (w_ops w) \<and>
     dispatch (demo (get_calls ''Host'' ''h.com:x'') []) w = Some (Inr w') \<and> w_current w' = Some 3 \<and> w_conns w' 2 = None \<and>
     Accept_op 2 \<in> set (w_ops w') \<and>
     (\<forall>addr port. crashes (demo (get_calls ''Host'' ''h.com:x'') []) (finish (Accept_op 2) (Done addr port) w') Use_After_Free)"
  by (simp add: client_sends_def run_defs accept_defs server_defs decode_defs bad_port_found crashes_def find_header_def del: prod.collapse)

lemma dangling_run:
  "\<exists>w w1 c. play (demo (get_calls ''Host'' ''h.com'') []) (to_server @ [Completes Signal_op (Done [] 0), Runs])
       (first_world (demo (get_calls ''Host'' ''h.com'') []) new_manager) = Some (Inr w) \<and>
     (\<exists>q. w_queue w = Ready Signal_op (Done [] 0) # q \<and> Event_task CONNECT 3 \<in> set q) \<and>
     w_conns w 3 = Some c \<and> c_kind c = Server \<and> \<not> c_stopped c \<and>
     dispatch (demo (get_calls ''Host'' ''h.com'') []) w = Some (Inr w1) \<and> w_conns w1 3 = None \<and>
     (\<exists>q. w_queue w1 = Event_task CONNECT 3 # q) \<and> crashes (demo (get_calls ''Host'' ''h.com'') []) w1 Use_After_Free"
  by (simp add: to_server_def client_sends_def run_defs accept_defs server_defs decode_defs out_defs stop_defs crashes_def del: prod.collapse)

text \<open>
  C29: A header name in lower case. A client sends a complete request GET / whose only header gives the host
  \<open>h.com\<close>. If its name is spelled \<open>Host\<close>, a state is reached in which this request is handed to the context
  next, and that starts the look-up of the host. If it is spelled \<open>host\<close> (header names are
  case-insensitive), the corresponding state is reached, and handing over the request ends the whole
  process with a failed assertion.
\<close>

theorem lower_case_host_aborts:
  "(\<exists>w c q w'. reachable (demo (get_calls ''Host'' ''h.com'') []) new_manager w \<and> w_queue w = Event_task READ 1 # q \<and>
      w_conns w 1 = Some c \<and> completed (c_message c) \<and> derived (c_message c) = Request_part ''GET'' ''/'' \<and>
      headers (c_message c) = [(''Host'', ''h.com'')] \<and>
      dispatch (demo (get_calls ''Host'' ''h.com'') []) w = Some (Inr w') \<and> Resolve_op 3 \<in> set (w_ops w')) \<and>
   (\<exists>w c q. reachable (demo (get_calls ''host'' ''h.com'') []) new_manager w \<and> w_queue w = Event_task READ 1 # q \<and>
      w_conns w 1 = Some c \<and> completed (c_message c) \<and> derived (c_message c) = Request_part ''GET'' ''/'' \<and>
      headers (c_message c) = [(''host'', ''h.com'')] \<and>
      crashes (demo (get_calls ''host'' ''h.com'') []) w Assertion_Failed)"
  using asked_run[of "''Host''"] asked_run[of "''host''"] play_keeps[OF first_world_reachable]
  by (intro conjI) (simp, blast)+

text \<open>
  C30: A bad port. A client sends a request whose header \<open>Host\<close> is \<open>h.com:x\<close>, while the acceptor waits
  with connection 2. Handing it to the context throws, \<open>main\<close> calls \<open>start\<close> again, and this replaces
  connection 2 by connection 3 and destroys it, although the operation that is to accept into its socket is
  still pending. Whenever that operation then accepts a client, from whatever address, its completion
  uses the destroyed connection.
\<close>

theorem bad_port_breaks_acceptor:
  "\<exists>w c q w'. reachable (demo (get_calls ''Host'' ''h.com:x'') []) new_manager w \<and> w_queue w = Event_task READ 1 # q \<and>
     w_conns w 1 = Some c \<and> find_header (c_message c) ''Host'' = Some ''h.com:x'' \<and> w_current w = Some 2 \<and>
     dispatch (demo (get_calls ''Host'' ''h.com:x'') []) w = Some (Inr w') \<and> w_current w' = Some 3 \<and> w_conns w' 2 = None \<and>
     Accept_op 2 \<in> set (w_ops w') \<and>
     (\<forall>addr port. crashes (demo (get_calls ''Host'' ''h.com:x'') []) (finish (Accept_op 2) (Done addr port) w') Use_After_Free)"
  using bad_port_run play_keeps[OF first_world_reachable] by blast

text \<open>
  C31: Shutdown while a server is being connected. A state is reached in which the handler of the signal is
  next and the event CONNECT of a server connection, which holds a bare \<open>this\<close>, is in the queue behind
  it. The connection is not stopped before; the handler of the signal stops and destroys it, the event is
  next, and it uses the destroyed connection.
\<close>

theorem shutdown_leaves_dangling_event:
  "\<exists>w w1 c q q1. reachable (demo (get_calls ''Host'' ''h.com'') []) new_manager w \<and>
     w_queue w = Ready Signal_op (Done [] 0) # q \<and> Event_task CONNECT 3 \<in> set q \<and>
     w_conns w 3 = Some c \<and> c_kind c = Server \<and> \<not> c_stopped c \<and>
     dispatch (demo (get_calls ''Host'' ''h.com'') []) w = Some (Inr w1) \<and> w_conns w1 3 = None \<and>
     w_queue w1 = Event_task CONNECT 3 # q1 \<and> crashes (demo (get_calls ''Host'' ''h.com'') []) w1 Use_After_Free"
  using dangling_run play_keeps[OF first_world_reachable] by blast

text \<open>
  C32: A malformed response. When the parser does not consume a read of a server's response completely,
  the process ends with a failed assertion: any server that a client can be made to contact can stop
  the proxy.
\<close>

theorem malformed_response_aborts:
  "\<exists>w. reachable (demo (get_calls ''Host'' ''h.com'') []) new_manager w \<and>
       crashes (demo (get_calls ''Host'' ''h.com'') []) w Assertion_Failed"
  by (rule play_reaches[OF first_world_reachable,
        where es = "to_server @ to_response @ [Completes (Read_op 3) (Done ''x'' 0), Runs]"])
     (simp add: to_server_def to_response_def client_sends_def run_defs accept_defs server_defs decode_defs out_defs del: prod.collapse)

text \<open>
  C27: Two pieces of a response. When the last piece of a response is forwarded after the write of an
  earlier piece has completed but before the client's event WRITE for that write runs, the event takes
  the exchange for finished and resets the client connection, which drops the buffer whose write is
  outstanding; when that write completes, the handler accesses the front of an empty list.
\<close>

theorem early_write_event_drops_buffer:
  "\<exists>w. reachable (demo (get_calls ''Host'' ''h.com'') demo_response) new_manager w \<and>
       crashes (demo (get_calls ''Host'' ''h.com'') demo_response) w Out_Of_Bounds"
  by (rule play_reaches[OF first_world_reachable,
        where es = "to_server @ to_response @ [Completes (Read_op 3) (Done ''first'' 0), Runs, Runs,
          Completes (Read_op 3) (Done ''second'' 0), Completes (Write_op 1 resp_text) (Done [] 25),
          Runs, Runs, Runs, Runs, Runs, Completes (Write_op 1 ''hi'') (Done [] 2), Runs]"])
     (simp add: to_server_def to_response_def client_sends_def run_defs accept_defs server_defs decode_defs out_defs del: prod.collapse)

definition first_exchange :: "script_event list" where
  "first_exchange = [Completes (Accept_op 1) (Done ''10.0.0.1'' 5000), Runs, Completes (Read_op 1) (Done ''h.com'' 0), Runs, Runs,
     Completes (Resolve_op 3) (Done [] 0), Runs, Completes (Connect_op 3) (Done [] 0), Runs, Runs,
     Completes (Write_op 3 (get_text ''h.com'')) (Done [] 31), Runs, Completes (Read_op 3) (Done ''b'' 0), Runs, Runs, Runs,
     Completes (Write_op 1 resp_text) (Done [] 25), Runs, Runs]"

definition two_exchanges :: "script_event list" where
  "two_exchanges = first_exchange @ [Completes (Read_op 1) (Done ''b.org'' 0), Runs, Runs, Runs]"

lemma two_exchanges_run:
  "\<exists>w. play two_hosts two_exchanges (first_world two_hosts new_manager) = Some (Inr w) \<and>
     (\<exists>c. w_conns w 3 = Some c \<and> c_host c = ''h.com'' \<and> Write_op 3 (get_text ''b.org'') \<in> set (w_ops w))"
  by (simp add: two_exchanges_def first_exchange_def two_hosts_def host_parser_def get_out[unfolded get_from_def] ok_out[unfolded resp_msg_def]
      cleared reset_message_def run_defs accept_defs server_defs decode_defs lengths get_text_length del: prod.collapse)

text \<open>
  C28: A second host. A client kept alive asks first for \<open>h.com\<close> and then for \<open>b.org\<close>, as browsers do with a
  proxy. The second request is written to the server connection of the first: a state is reached in which
  the connection to \<open>h.com\<close> is sent the request whose header \<open>Host\<close> names \<open>b.org\<close>, so that the client will
  be given the answer of the wrong server.
\<close>

theorem second_host_goes_to_first:
  "\<exists>w c. reachable two_hosts new_manager w \<and> w_conns w 3 = Some c \<and> c_host c = ''h.com'' \<and>
     Write_op 3 (''GET / HTTP/1.1'' @ CRLF @ ''Host: b.org'' @ CRLF @ CRLF) \<in> set (w_ops w)"
proof -
  obtain w c where "play two_hosts two_exchanges (first_world two_hosts new_manager) = Some (Inr w)"
    "w_conns w 3 = Some c" "c_host c = ''h.com''" "Write_op 3 (get_text ''b.org'') \<in> set (w_ops w)"
    using two_exchanges_run by blast
  moreover have "get_text ''b.org'' = ''GET / HTTP/1.1'' @ CRLF @ ''Host: b.org'' @ CRLF @ CRLF" by (simp add: get_text_def)
  ultimately show ?thesis using play_keeps[OF first_world_reachable] by metis
qed

section \<open>Properties: the response timer\<close>

text \<open>
  C40: The timer for the server's response. When a read completes a client's request and its timer is not
  running, a wait of 15 seconds for the response is started. When the timer is running, as it is on a
  connection kept alive, where it measures the idle time, it is cancelled but still marked as running,
  so that the new wait is not started: nothing limits the time the client waits for the response.
\<close>

theorem response_timer_skipped_when_kept_alive:
  assumes "w_conns w i = Some c" and "\<not> c_stopped c" and "\<not> completed (c_message c)" and "data \<noteq> []"
    and "decode api data (c_decoder c) (c_message c) = Inr (d, m, length data)" and "deliverable m"
  shows "\<exists>w' c'. client_on_read api i (Done data n) w = Inr w' \<and> w_conns w' i = Some c' \<and>
           c_message c' = m \<and> running (c_timer c') \<and> Event_task READ i \<in> set (w_queue w') \<and>
           filter (is_timer_of i) (w_ops w') =
             (if running (c_timer c) then [] else [Timer_op i SVR_RSP_WAITING_TIME True])"
proof (cases "running (c_timer c)")
  case True
  let ?w = "post (Event_task READ i) (modify i (\<lambda>c. c\<lparr>c_decoder := d, c_message := m\<rparr>) (cancel_waits i w))"
  have "client_on_read api i (Done data n) w = Inr ?w"
    using assms True by (simp add: client_on_read_def client_decoded_def timer_cancel_def timer_start_def conn_def)
  then show ?thesis using True assms(1)
    by (intro exI[of _ ?w] exI[of _ "c\<lparr>c_decoder := d, c_message := m\<rparr>"]) (simp add: filter_empty_conv)
next
  case False
  let ?v = "post (Event_task READ i) (modify i (\<lambda>c. c\<lparr>c_decoder := d, c_message := m\<rparr>) w)"
  let ?w = "modify i (\<lambda>c. c\<lparr>c_timer := (c_timer c)\<lparr>running := True\<rparr>\<rparr>)
    (initiate (Timer_op i SVR_RSP_WAITING_TIME True) (cancel_waits i ?v))"
  have "Event_task READ i \<in> set (w_queue (cancel_waits i ?v))" by (simp add: cancel_waits_def)
  moreover have "client_on_read api i (Done data n) w = Inr ?w"
    using assms False by (simp add: client_on_read_def client_decoded_def timer_start_def conn_def)
  ultimately show ?thesis using assms(1) False
    by (intro exI[of _ ?w] exI[of _ "c\<lparr>c_decoder := d, c_message := m, c_timer := (c_timer c)\<lparr>running := True\<rparr>\<rparr>"])
       (simp add: filter_empty_conv initiate_def)
qed

definition waiting_conn :: "bool \<Rightarrow> (parser_view \<times> callback) list list connection" where
  "waiting_conn b = (sample_conn Client)\<lparr>c_timer := \<lparr>running = b, triggered = False\<rparr>,
     c_decoder := new_decoder (scripted [[(view, On_message_complete)]]) HTTP_REQUEST\<rparr>"

theorem response_timer_skipped_when_kept_alive_witness:
  "\<exists>w'. client_on_read (scripted [[(view, On_message_complete)]]) 1 (Done ''x'' 0)
          (sample_world (waiting_conn True) (sample_conn Server)) = Inr w' \<and>
        filter (is_timer_of 1) (w_ops w') = []"
proof -
  let ?api = "scripted [[(view, On_message_complete)]]"
  have "\<exists>d m. decode ?api ''x'' (c_decoder (waiting_conn True)) (c_message (waiting_conn True)) = Inr (d, m, length ''x'') \<and>
      deliverable m"
    by (simp add: decode_def waiting_conn_def scripted_def new_decoder_def on_message_complete_def
        sample_conn_def sample_request_def deliverable_def completed_def Let_def)
  then obtain d m where "decode ?api ''x'' (c_decoder (waiting_conn True)) (c_message (waiting_conn True)) =
      Inr (d, m, length ''x'')" "deliverable m" by blast
  moreover have "\<not> c_stopped (waiting_conn True)" "\<not> completed (c_message (waiting_conn True))"
    "running (c_timer (waiting_conn True))"
    by (simp_all add: waiting_conn_def sample_conn_def sample_request_def completed_def)
  ultimately show ?thesis
    using response_timer_skipped_when_kept_alive[of "sample_world (waiting_conn True) (sample_conn Server)" 1
        "waiting_conn True" "''x''" ?api d m 0] by auto
qed

end
