(* ===== verification/Session.thy ===== *)
theory Session
  imports ResponseLeg Failures
begin

text \<open>
  Whole sessions: a client and a server that are kept alive serve one exchange after the other.
\<close>

section \<open>Exchanges\<close>

fun server_reads :: "traffic list \<Rightarrow> string list" where
  "server_reads [] = []"
| "server_reads (From_server x # es) = x # server_reads es"
| "server_reads (_ # es) = server_reads es"

fun answers :: "traffic \<Rightarrow> bool" where
  "answers (From_server x) = (x \<noteq> [])"
| "answers (To_client n) = (0 < n)"
| "answers _ = False"

text \<open>The parser makes the callbacks of the message over the given reads, and lets the connection be kept alive.\<close>

definition parsed :: "'p parser_api \<Rightarrow> parser_type \<Rightarrow> half \<Rightarrow> string list \<Rightarrow> bool" where
  "parsed api t h reads \<longleftrightarrow> half_ok t h \<and> delivers api (api_init api t) reads (h_calls h) \<and>
     concat (h_calls h) = calls_of t h \<and> last (h_calls h) \<noteq> [] \<and> [] \<notin> set reads \<and>
     api_should_keep_alive api (fst (feed api (api_init api t) reads))"

text \<open>The last read of a response adds something to what the client is sent.\<close>

definition ends_with_data :: "half \<Rightarrow> bool" where
  "ends_with_data h \<longleftrightarrow> reported h (length (concat (butlast (h_calls h)))) \<noteq> text_of HTTP_RESPONSE h"

record exchange =
  ex_request :: half
  ex_reads :: "string list"
  ex_writes :: "nat list"
  ex_response :: half
  ex_traffic :: "traffic list"
  ex_flush :: "nat list"

definition events :: "exchange \<Rightarrow> traffic list" where
  "events x = map From_client (ex_reads x) @ map To_server (ex_writes x) @ ex_traffic x @ map To_client (ex_flush x)"

definition exchange_ok :: "'p setting \<Rightarrow> exchange \<Rightarrow> bool" where
  "exchange_ok env x \<longleftrightarrow> parsed (parser env) HTTP_REQUEST (ex_request x) (ex_reads x) \<and>
     0 \<notin> set (ex_writes x) \<and> length (text_of HTTP_REQUEST (ex_request x)) \<le> length (ex_writes x) \<and>
     parsed (parser env) HTTP_RESPONSE (ex_response x) (server_reads (ex_traffic x)) \<and> list_all answers (ex_traffic x) \<and>
     ends_with_data (ex_response x) \<and>
     0 \<notin> set (ex_flush x) \<and> length (text_of HTTP_RESPONSE (ex_response x)) \<le> length (ex_flush x)"

lemma answering_all:
  assumes h: "half_ok HTTP_RESPONSE h" and kc: "api_should_keep_alive (parser env) pc"
  shows "answering env k i s pc h n p sent w \<Longrightarrow> delivers (parser env) p (server_reads es) css \<Longrightarrow>
    drop n (calls_of HTTP_RESPONSE h) = concat css \<Longrightarrow> css \<noteq> [] \<Longrightarrow> last css \<noteq> [] \<Longrightarrow> list_all answers es \<Longrightarrow>
    api_should_keep_alive (parser env) (fst (feed (parser env) p (server_reads es))) \<Longrightarrow>
    reported h (n + length (concat (butlast css))) \<noteq> text_of HTTP_RESPONSE h \<Longrightarrow>
    \<exists>b rest w'. leads env i s es w [] b w' \<and> sent @ b @ rest = text_of HTTP_RESPONSE h \<and> at_end env k i s pc rest w'"
proof (induction es arbitrary: n p sent w css)
  case Nil
  then show ?case by simp
next
  case (Cons e es)
  let ?C = "calls_of HTTP_RESPONSE h"
  show ?case
  proof (cases e)
    case (To_client x)
    obtain b w1 where 1: "leads env i s [To_client x] w [] b w1" "answering env k i s pc h n p (sent @ b) w1"
      using answering_written[OF Cons.prems(1), of x] Cons.prems(6) To_client by auto
    obtain b' rest w' where 2: "leads env i s es w1 [] b' w'" "(sent @ b) @ b' @ rest = text_of HTTP_RESPONSE h"
      "at_end env k i s pc rest w'"
      using Cons.IH[OF 1(2) _ Cons.prems(3-5) _ _ Cons.prems(8)] Cons.prems(2,6,7) To_client by auto
    show ?thesis using leads_append[OF 1(1) 2(1)] 2(2,3) To_client
      by (intro exI[of _ "b @ b'"] exI[of _ rest] exI[of _ w']) simp
  next
    case (From_server x)
    obtain p1 c css' where x: "api_execute (parser env) p x = (p1, c, length x)" "css = c # css'"
      "delivers (parser env) p1 (server_reads es) css'"
      using Cons.prems(2,4) From_server by (cases css) (auto split: prod.splits)
    have xne: "x \<noteq> []" using Cons.prems(6) From_server by auto
    have dc: "drop n ?C = c @ concat css'" using Cons.prems(3) x(2) by simp
    have tk: "take (n + length c) ?C = take n ?C @ c" by (simp add: take_add dc del: calls_of.simps)
    have rest: "drop (n + length c) ?C = concat css'" using dc by (metis add.commute append_eq_conv_conj drop_drop)
    have "concat css \<noteq> []" using Cons.prems(4,5) last_in_set by fastforce
    then have "n < length ?C" using Cons.prems(3) by (cases "n < length ?C") auto
    then have le: "n + length c \<le> length ?C" using arg_cong[OF dc, of length] by simp
    have f: "fst (feed (parser env) p (x # server_reads es)) = fst (feed (parser env) p1 (server_reads es))"
      using x(1) by (simp split: prod.split)
    show ?thesis
    proof (cases "css' = []")
      case True
      then have xs: "server_reads es = []" "n + length c = length ?C" "c \<noteq> []" using x(2,3) rest le Cons.prems(5)
        by (auto split: prod.splits) (cases "server_reads es"; auto split: prod.splits)
      have ka: "api_should_keep_alive (parser env) p1" using Cons.prems(7) From_server f xs(1) by simp
      have ad: "reported h n \<noteq> text_of HTTP_RESPONSE h" using Cons.prems(8) x(2) True by simp
      obtain w1 r where f1: "leads env i s [From_server x] w [] [] w1" "flushing env k i s pc r w1" "r \<noteq> []"
        "sent @ r = text_of HTTP_RESPONSE h"
        using answering_last[OF Cons.prems(1) h xne x(1) tk xs(2,3) ka ad] by blast
      then have 1: "leads env i s [From_server x] w [] [] w1" "at_end env k i s pc r w1" "sent @ r = text_of HTTP_RESPONSE h"
        by (simp_all add: at_end_def)
      have "\<exists>ns. es = map To_client ns \<and> 0 \<notin> set ns" if "list_all answers es" "server_reads es = []"
        using that
      proof (induction es)
        case (Cons e es)
        then obtain n where n: "e = To_client n" "0 < n" by (cases e) auto
        then obtain ns where "es = map To_client ns" "0 \<notin> set ns" using Cons by auto
        then show ?case using n by (intro exI[of _ "n # ns"]) simp
      qed simp
      then obtain ns where ns: "es = map To_client ns" "0 \<notin> set ns" using Cons.prems(6) xs(1) by auto
      obtain b r' w' where 2: "leads env i s (map To_client ns) w1 [] b w'" "b @ r' = r" "at_end env k i s pc r' w'"
        using flushed[OF ns(2) kc 1(2)] by blast
      show ?thesis using leads_append[OF 1(1) 2(1)] 1(3) 2(2,3) From_server ns(1)
        by (intro exI[of _ b] exI[of _ r'] exI[of _ w']) simp
    next
      case False
      have l: "last css' \<noteq> []" using Cons.prems(5) x(2) False by simp
      then have "concat css' \<noteq> []" using False last_in_set by fastforce
      then have lt: "n + length c < length ?C" using rest by (cases "n + length c < length ?C") auto
      obtain w1 where 1: "leads env i s [From_server x] w [] [] w1" "answering env k i s pc h (n + length c) p1 sent w1"
        using answering_more[OF Cons.prems(1) h xne x(1) tk lt] by blast
      have ad: "reported h (n + length c + length (concat (butlast css'))) \<noteq> text_of HTTP_RESPONSE h"
        using Cons.prems(8) x(2) False by (simp add: add.assoc)
      obtain b rest w' where 2: "leads env i s es w1 [] b w'" "sent @ b @ rest = text_of HTTP_RESPONSE h" "at_end env k i s pc rest w'"
        using Cons.IH[OF 1(2) x(3) rest False l _ _ ad] Cons.prems(6,7) From_server f by auto
      show ?thesis using leads_append[OF 1(1) 2(1)] 2(2,3) From_server by auto
    qed
  qed (use Cons.prems(6) in simp_all)
qed

lemma exchange_runs:
  assumes r: "at_rest env k i s w" and x: "exchange_ok env x"
  shows "\<exists>w'. leads env i s (events x) w (text_of HTTP_REQUEST (ex_request x)) (text_of HTTP_RESPONSE (ex_response x)) w' \<and>
           at_rest env k i s w'"
proof -
  let ?q = "ex_request x" and ?a = "ex_response x"
  have q: "half_ok HTTP_REQUEST ?q" "delivers (parser env) (api_init (parser env) HTTP_REQUEST) (ex_reads x) (h_calls ?q)"
    "concat (h_calls ?q) = calls_of HTTP_REQUEST ?q" "last (h_calls ?q) \<noteq> []" "[] \<notin> set (ex_reads x)"
    "api_should_keep_alive (parser env) (fst (feed (parser env) (api_init (parser env) HTTP_REQUEST) (ex_reads x)))"
    using x by (simp_all add: exchange_ok_def parsed_def)
  have a: "half_ok HTTP_RESPONSE ?a"
    "delivers (parser env) (api_init (parser env) HTTP_RESPONSE) (server_reads (ex_traffic x)) (h_calls ?a)"
    "concat (h_calls ?a) = calls_of HTTP_RESPONSE ?a" "last (h_calls ?a) \<noteq> []"
    "api_should_keep_alive (parser env) (fst (feed (parser env) (api_init (parser env) HTTP_RESPONSE) (server_reads (ex_traffic x))))"
    "reported ?a (0 + length (concat (butlast (h_calls ?a)))) \<noteq> text_of HTTP_RESPONSE ?a"
    using x by (simp_all add: exchange_ok_def parsed_def ends_with_data_def)
  have s: "0 \<notin> set (ex_writes x)" "length (text_of HTTP_REQUEST ?q) \<le> length (ex_writes x)" "list_all answers (ex_traffic x)"
    "0 \<notin> set (ex_flush x)" "length (text_of HTTP_RESPONSE ?a) \<le> length (ex_flush x)"
    using x by (simp_all add: exchange_ok_def)
  obtain cc sc where c: "steady k i s cc sc w" "tracked s sc (w_ops w)" "Read_op i \<in> set (w_ops w)"
    "\<not> exchange_completed (w_contexts w k)" "c_decoder cc = new_decoder (parser env) HTTP_REQUEST"
    "blank HTTP_REQUEST (c_message cc)" "quiet_client cc" "quiet_server (parser env) sc"
    using r by (auto simp: at_rest_def)
  let ?pc = "fst (feed (parser env) (api_init (parser env) HTTP_REQUEST) (ex_reads x))"
  have "asking env k i s ?q (c_message cc) 0 (api_init (parser env) HTTP_REQUEST) w"
    unfolding asking_def using c progress_start[OF c(5), of ?q] by blast
  moreover have "drop 0 (calls_of HTTP_REQUEST ?q) = concat (h_calls ?q)" "h_calls ?q \<noteq> []"
    using q(3) by (auto simp: request_calls_def)
  ultimately obtain w1 where 1: "leads env i s (map From_client (ex_reads x)) w [] [] w1"
    "sending env k i s ?pc (text_of HTTP_REQUEST ?q) w1"
    using asking_reads[OF c(6) q(1) _ q(2) _ _ q(4,5)] by blast
  have "text_of HTTP_REQUEST ?q \<noteq> []" by (simp add: forwarded_text_def)
  from sending_all[OF s(1) 1(2) this s(2), of ?a] obtain w2 where 2:
    "leads env i s (map To_server (ex_writes x)) w1 (text_of HTTP_REQUEST ?q) [] w2"
    "answering env k i s ?pc ?a 0 (api_init (parser env) HTTP_RESPONSE) [] w2" by blast
  have d: "drop 0 (calls_of HTTP_RESPONSE ?a) = concat (h_calls ?a)" "h_calls ?a \<noteq> []"
    using a(3) by (auto simp: response_calls_def)
  obtain b rest w3 where 3: "leads env i s (ex_traffic x) w2 [] b w3" "b @ rest = text_of HTTP_RESPONSE ?a" "at_end env k i s ?pc rest w3"
    using answering_all[OF a(1) q(6) 2(2) a(2) d a(4) s(3) a(5,6)] by auto
  obtain b' r' w' where 4: "leads env i s (map To_client (ex_flush x)) w3 [] b' w'" "b' @ r' = rest" "at_end env k i s ?pc r' w'"
    "length rest \<le> length (ex_flush x) \<longrightarrow> r' = []"
    using flushed[OF s(4) q(6) 3(3)] by blast
  have "length rest \<le> length (text_of HTTP_RESPONSE ?a)" unfolding 3(2)[symmetric] by simp
  then have "r' = []" using 4(4) s(5) by simp
  then show ?thesis
    using leads_append[OF 1(1) leads_append[OF 2(1) leads_append[OF 3(1) 4(1)]]] 3(2) 4(2,3)
    by (intro exI[of _ w']) (simp add: events_def at_end_def)
qed

section \<open>Properties\<close>

text \<open>
  C1: Sessions on kept-alive connections. Let a client and a server connection be at rest: connected, nothing
  queued, the next request being read. Let any number of exchanges follow, each a request and a response within
  the limit that the parser reports over any non-empty reads of the client and of the server: with one call for the
  target or the status text, at least one header, names and values of headers in any fragments but no empty value, the
  body in any pieces, and at least one call for the last read, after which it lets the connection be kept alive. The
  last read of a response adds something to send. The sockets take the bytes in any portions of at least one byte,
  those for the client also while the response is still coming, until there are none, and after every completion the
  event loop runs until it has nothing to do. Then no handler faults, the server is sent exactly the requests and the
  client exactly the responses, in order and without anything between them, and the connections are at rest again.
  (Completions that overtake queued events are not among these runs: see \<open>early_write_event_drops_buffer\<close>.)
\<close>

theorem session_is_relayed:
  assumes "at_rest env k i s w" and "list_all (exchange_ok env) xs"
  shows "\<exists>w'. converse env i s (concat (map events xs)) w =
           Some (Inr ((concat (map (\<lambda>x. text_of HTTP_REQUEST (ex_request x)) xs),
                       concat (map (\<lambda>x. text_of HTTP_RESPONSE (ex_response x)) xs)), w')) \<and> at_rest env k i s w'"
  using assms
proof (induction xs arbitrary: w)
  case Nil
  then show ?case by simp
next
  case (Cons x xs)
  obtain w1 where 1: "leads env i s (events x) w (text_of HTTP_REQUEST (ex_request x)) (text_of HTTP_RESPONSE (ex_response x)) w1"
    "at_rest env k i s w1"
    using exchange_runs[OF Cons.prems(1)] Cons.prems(2) by auto
  obtain w2 where 2: "leads env i s (concat (map events xs)) w1 (concat (map (\<lambda>x. text_of HTTP_REQUEST (ex_request x)) xs))
      (concat (map (\<lambda>x. text_of HTTP_RESPONSE (ex_response x)) xs)) w2" "at_rest env k i s w2"
    using Cons.IH[OF 1(2)] Cons.prems(2) by (auto simp: leads_def)
  show ?case using leads_append[OF 1(1) 2(1)] 2(2) by (auto simp: leads_def)
qed

text \<open>
  The state at rest is reached: by the first exchange with a new client, which looks up and connects to the server.
\<close>

lemma blank_empty: "blank HTTP_REQUEST \<lparr>major_version = a, minor_version = b, headers_done = False, message_done = False, headers = [], body = empty_buffer, derived = Request_part x y\<rparr>"
 "blank HTTP_RESPONSE \<lparr>major_version = a, minor_version = b, headers_done = False, message_done = False, headers = [], body = empty_buffer, derived = Response_part n y\<rparr>"
  by (simp_all add: blank_def msg_ok_def headers_ok_def body_text_def empty_buffer_fits)

lemma first_exchange_run:
  "\<exists>w. play two_hosts first_exchange (first_world two_hosts new_manager) = Some (Inr w) \<and> at_rest two_hosts 0 1 3 w"
  by (simp add: first_exchange_def two_hosts_def host_parser_def get_out[unfolded get_from_def] ok_out[unfolded resp_msg_def]
      cleared reset_message_def run_defs accept_defs server_defs decode_defs lengths get_text_length 
      at_rest_def steady_def wired_def writing_ok_def tracked_def quiet_client_def quiet_server_def blank_empty up_def ex_bool_eq del: prod.collapse)

definition get_exchange :: "string \<Rightarrow> exchange" where
  "get_exchange h = (let q = \<lparr>h_view = view, h_line = ''/'', h_headers = [([''Host''], [h])], h_pieces = [], h_calls = []\<rparr>;
       a = \<lparr>h_view = view, h_line = ''OK'', h_headers = [([''A''], [''b''])], h_pieces = [], h_calls = []\<rparr>
     in \<lparr>ex_request = q\<lparr>h_calls := [calls_of HTTP_REQUEST q]\<rparr>, ex_reads = [h], ex_writes = replicate 31 1,
          ex_response = a\<lparr>h_calls := [calls_of HTTP_RESPONSE a]\<rparr>, ex_traffic = [From_server ''b'', To_client 7],
          ex_flush = replicate 25 3\<rparr>)"

lemma get_exchange_text:
  "text_of HTTP_REQUEST (ex_request (get_exchange h)) = get_text h"
  "text_of HTTP_RESPONSE (ex_response (get_exchange h)) = resp_text"
  by (simp_all add: get_exchange_def forwarded_text_def response_text_def get_text_def resp_text_def view_def decoded_headers_def
      joined_def header_line_def decoded_body_def closing_def to_string_int_def to_string_nat_def digits_in.simps digit_char_def)

lemma get_exchange_ok:
  assumes "length h = 5"
  shows "exchange_ok two_hosts (get_exchange h)"
proof -
  have "parsed (parser two_hosts) HTTP_REQUEST (ex_request (get_exchange h)) (ex_reads (get_exchange h))"
    using assms get_exchange_text(1)[of h]
    by (auto simp: parsed_def half_ok_def get_text_length SINK_LIMIT_def)
       (auto simp: get_exchange_def two_hosts_def host_parser_def request_calls_def header_calls_def fragments_ok_def Let_def)
  moreover have "parsed (parser two_hosts) HTTP_RESPONSE (ex_response (get_exchange h)) (server_reads (ex_traffic (get_exchange h)))"
    using get_exchange_text(2)[of h]
    by (auto simp: parsed_def half_ok_def lengths SINK_LIMIT_def)
       (auto simp: get_exchange_def two_hosts_def host_parser_def response_calls_def header_calls_def fragments_ok_def Let_def)
  moreover have "ends_with_data (ex_response (get_exchange h))"
  proof -
    have "resp_text \<noteq> []" using lengths(2) by auto
    moreover have "reported (ex_response (get_exchange h)) (length (concat (butlast (h_calls (ex_response (get_exchange h)))))) = []"
      by (simp add: get_exchange_def reported_def response_head_def Let_def)
    ultimately show ?thesis unfolding ends_with_data_def get_exchange_text by simp
  qed
  ultimately show ?thesis
    using assms unfolding exchange_ok_def get_exchange_text
    by (simp add: get_text_length lengths) (simp add: get_exchange_def Let_def)
qed

theorem session_is_relayed_witness:
  "\<exists>w w'. reachable two_hosts new_manager w \<and>
     converse two_hosts 1 3 (events (get_exchange ''h.com'') @ events (get_exchange ''b.org'')) w =
       Some (Inr ((get_text ''h.com'' @ get_text ''b.org'', resp_text @ resp_text), w'))"
proof -
  obtain w where w: "play two_hosts first_exchange (first_world two_hosts new_manager) = Some (Inr w)" "at_rest two_hosts 0 1 3 w"
    using first_exchange_run by blast
  have "list_all (exchange_ok two_hosts) [get_exchange ''h.com'', get_exchange ''b.org'']"
    using get_exchange_ok[of "''h.com''"] get_exchange_ok[of "''b.org''"] by simp
  from session_is_relayed[OF w(2) this] show ?thesis
    using play_keeps[OF first_world_reachable w(1)] by (auto simp: get_exchange_text simp del: text_of.simps)
qed

end
