(* ===== verification/Typing.thy ===== *)
theory Typing
  imports NetworkProperties
begin

text \<open>
  Well-typedness: a client connection holds a request, a request decoder and a response encoder and is
  the server side of TLS, a server connection the other way round, and every pending operation and
  queued event belongs to a connection of the right class. So no \<open>dynamic_cast\<close> in the codecs or in
  the context fails and no handler that is an assertion (\<open>on_connect\<close> of a client, the default
  branches of \<open>on_event\<close>) is ever reached.
\<close>

section \<open>The types\<close>

definition typed_conn :: "'p connection \<Rightarrow> bool" where
  "typed_conn c \<longleftrightarrow>
     (case c_kind c of
        Client \<Rightarrow> is_Request_part (derived (c_message c)) \<and> dec_type (c_decoder c) = HTTP_REQUEST \<and>
          enc_type (c_encoder c) = HTTP_RESPONSE \<and> ssl_type ` set_option (c_ssl c) \<subseteq> {Ssl_server}
      | Server \<Rightarrow> \<not> is_Request_part (derived (c_message c)) \<and> dec_type (c_decoder c) = HTTP_RESPONSE \<and>
          enc_type (c_encoder c) = HTTP_REQUEST \<and> ssl_type ` set_option (c_ssl c) \<subseteq> {Ssl_client})"

definition fits_kind :: "'p world \<Rightarrow> nat \<Rightarrow> conn_kind \<Rightarrow> bool" where
  "fits_kind w i k \<longleftrightarrow> i \<le> w_counter w \<and> (\<forall>c. w_conns w i = Some c \<longrightarrow> c_kind c = k)"

fun op_fits :: "'p world \<Rightarrow> operation \<Rightarrow> bool" where
  "op_fits w (Resolve_op i) = fits_kind w i Server"
| "op_fits w (Connect_op i) = fits_kind w i Server"
| "op_fits w (Accept_op i) = fits_kind w i Client"
| "op_fits w _ = True"

fun task_fits :: "'p world \<Rightarrow> task \<Rightarrow> bool" where
  "task_fits w (Ready p r) = op_fits w p"
| "task_fits w (Event_task CONNECT i) = fits_kind w i Server"
| "task_fits w (Event_task WRITE i) = fits_kind w i Client"
| "task_fits w _ = True"

definition typed :: "'p world \<Rightarrow> bool" where
  "typed w \<longleftrightarrow> (\<forall>i c. w_conns w i = Some c \<longrightarrow> i \<le> w_counter w \<and> typed_conn c) \<and>
     list_all (op_fits w) (w_ops w) \<and> list_all (task_fits w) (w_queue w)"

text \<open>What keeps the kinds of the connections keeps what fits them.\<close>

definition kinds_kept :: "'p world \<Rightarrow> 'p world \<Rightarrow> bool" where
  "kinds_kept w w' \<longleftrightarrow> w_counter w \<le> w_counter w' \<and>
     (\<forall>i c'. i \<le> w_counter w \<longrightarrow> w_conns w' i = Some c' \<longrightarrow> (\<exists>c. w_conns w i = Some c \<and> c_kind c' = c_kind c))"

lemma fits_kind_kept: "kinds_kept w w' \<Longrightarrow> fits_kind w i k \<Longrightarrow> fits_kind w' i k"
  by (fastforce simp: kinds_kept_def fits_kind_def)

lemma op_fits_kept: "kinds_kept w w' \<Longrightarrow> op_fits w p \<Longrightarrow> op_fits w' p"
  by (cases p) (auto intro: fits_kind_kept)

lemma task_fits_kept: "kinds_kept w w' \<Longrightarrow> task_fits w t \<Longrightarrow> task_fits w' t"
  by (cases "(w, t)" rule: task_fits.cases) (auto intro: fits_kind_kept op_fits_kept)

lemma typedI:
  assumes "typed w" and "kinds_kept w w'"
    and "\<And>i c. w_conns w' i = Some c \<Longrightarrow> i \<le> w_counter w' \<and> typed_conn c"
    and "\<And>p. p \<in> set (w_ops w') \<Longrightarrow> p \<in> set (w_ops w) \<or> op_fits w' p"
    and "\<And>t. t \<in> set (w_queue w') \<Longrightarrow> t \<in> set (w_queue w) \<or> task_fits w' t"
  shows "typed w'"
  using assms op_fits_kept[OF assms(2)] task_fits_kept[OF assms(2)]
  unfolding typed_def list_all_iff by blast

lemma typed_lookup: "typed w \<Longrightarrow> w_conns w i = Some c \<Longrightarrow> typed_conn c"
  by (auto simp: typed_def)

lemma typed_fits: "typed w \<Longrightarrow> w_conns w i = Some c \<Longrightarrow> fits_kind w i (c_kind c)"
  by (auto simp: typed_def fits_kind_def)

section \<open>Changes of the state\<close>

lemma kinds_kept_refl: "w_conns w' = w_conns w \<Longrightarrow> w_counter w' = w_counter w \<Longrightarrow> kinds_kept w w'"
  by (simp add: kinds_kept_def)

lemma typed_same:
  assumes "typed w" and "w_conns w' = w_conns w" and "w_counter w' = w_counter w"
    and "set (w_ops w') \<subseteq> set (w_ops w)" and "set (w_queue w') \<subseteq> set (w_queue w)"
  shows "typed w'"
  by (rule typedI[OF assms(1) kinds_kept_refl[OF assms(2,3)]]) (use assms in \<open>auto simp: typed_def\<close>)

lemma typed_updates [simp]:
  "typed w \<Longrightarrow> typed (set_context k g w)" "typed w \<Longrightarrow> typed (mgr_add kd i w)"
  "typed w \<Longrightarrow> typed (mgr_erase kd i w)" "typed w \<Longrightarrow> typed (w\<lparr>w_certs := cm\<rparr>)"
  "typed w \<Longrightarrow> typed (w\<lparr>w_current := cur\<rparr>)" "typed w \<Longrightarrow> typed (w\<lparr>w_next_context := n\<rparr>)"
  "typed w \<Longrightarrow> typed (w\<lparr>w_client_mgr := l\<rparr>)" "typed w \<Longrightarrow> typed (w\<lparr>w_server_mgr := l\<rparr>)"
  "typed w \<Longrightarrow> typed (w\<lparr>w_pinned := l\<rparr>)" "typed w \<Longrightarrow> typed (w\<lparr>w_thrown := b\<rparr>)"
  by (erule typed_same; cases kd; simp add: mgr_add_def)+

lemma typed_modify:
  assumes "typed w" and "\<And>c. typed_conn c \<Longrightarrow> w_conns w i = Some c \<Longrightarrow> typed_conn (f c) \<and> c_kind (f c) = c_kind c"
  shows "typed (modify i f w)"
proof (rule typedI[OF assms(1)])
  show "kinds_kept w (modify i f w)"
    using assms typed_lookup[OF assms(1)] by (auto simp: kinds_kept_def split: if_splits)
qed (use assms in \<open>auto simp: typed_def split: if_splits\<close>)

lemma typed_initiate:
  assumes "typed w" and "op_fits w p"
  shows "typed (initiate p w)"
proof -
  have k: "kinds_kept w (initiate p w)" by (rule kinds_kept_refl) (simp_all add: initiate_def)
  show ?thesis
    by (rule typedI[OF assms(1) k]) (use assms op_fits_kept[OF k assms(2)] in \<open>auto simp: typed_def initiate_def\<close>)
qed

lemma typed_post:
  assumes "typed w" and "task_fits w t"
  shows "typed (post t w)"
proof -
  have k: "kinds_kept w (post t w)" by (rule kinds_kept_refl) (simp_all add: post_def)
  show ?thesis
    by (rule typedI[OF assms(1) k]) (use assms task_fits_kept[OF k assms(2)] in \<open>auto simp: typed_def\<close>)
qed

lemma typed_aborted:
  assumes "typed w" and "w_conns w' = w_conns w" and "w_counter w' = w_counter w"
    and "set (w_ops w') \<subseteq> set (w_ops w)"
    and "set (w_queue w') \<subseteq> set (w_queue w) \<union> (\<lambda>p. Ready p Aborted) ` set (w_ops w)"
  shows "typed w'"
proof -
  have k: "kinds_kept w w'" using assms(2,3) by (rule kinds_kept_refl)
  have "list_all (op_fits w) (w_ops w)" using assms(1) by (simp add: typed_def)
  then show ?thesis
    by (intro typedI[OF assms(1) k]) (use assms op_fits_kept[OF k] in \<open>auto simp: typed_def list_all_iff dest!: set_mp\<close>)
qed

lemma typed_cancel [simp]: "typed w \<Longrightarrow> typed (cancel_waits i w)"
  by (erule typed_aborted) (auto simp: cancel_waits_def)

lemma typed_close [simp]: "typed w \<Longrightarrow> typed (close_acceptor w)"
  by (erule typed_aborted) (auto simp: close_acceptor_def)

section \<open>The codecs keep their types\<close>

lemma append_keeps_type:
  "whenever (append_body_string s m) (\<lambda>m'. derived m' = derived m)"
  "whenever (append_body_data p n m) (\<lambda>m'. derived m' = derived m)"
  by (simp_all add: append_body_string_def append_body_data_def)

lemma append_if_keeps_type:
  "(\<And>m'. derived m' = derived m \<Longrightarrow> Q m') \<Longrightarrow> whenever (append_body_string s m) Q"
  "(\<And>m'. derived m' = derived m \<Longrightarrow> Q m') \<Longrightarrow> whenever (append_body_data p n m) Q"
  using append_keeps_type[THEN whenever_mono] by blast+

definition same_types :: "'p decoding \<Rightarrow> 'p decoding \<Rightarrow> bool" where
  "same_types s s' \<longleftrightarrow> dec_type (fst s') = dec_type (fst s) \<and>
     is_Request_part (derived (snd s')) = is_Request_part (derived (snd s))"

lemma on_body_types: "whenever (on_body x s) (same_types s)"
  by (cases s) (auto simp: on_body_def same_types_def intro!: append_if_keeps_type)

lemma on_message_complete_types: "whenever (on_message_complete s) (same_types s)"
  by (cases s) (auto simp: on_message_complete_def same_types_def intro!: append_if_keeps_type)

lemma on_start_types: "whenever (on_url v x s) (same_types s)" "whenever (on_status v x s) (same_types s)"
  by (cases s; auto simp: on_url_def on_status_def set_method_uri_def set_status_message_def same_types_def
      split: derived_part.split)+

lemma on_header_types:
  "whenever (on_message_begin s) (same_types s)" "whenever (on_header_field x s) (same_types s)"
  "whenever (on_header_value x s) (same_types s)" "whenever (on_headers_complete v s) (same_types s)"
  by (cases s; simp add: on_message_begin_def on_header_field_def on_header_value_def on_headers_complete_def
      same_types_def Let_def)+

lemma callback_keeps_type: "whenever (run_callback cb s) (same_types s)"
  by (cases cb; cases "snd cb")
     (simp_all add: on_body_types on_message_complete_types on_start_types on_header_types)

lemma same_types_trans: "same_types a b \<Longrightarrow> same_types b c \<Longrightarrow> same_types a c"
  by (simp add: same_types_def)

lemma callbacks_keep_type: "whenever (fold_res run_callback cs s) (same_types s)"
proof (rule whenever_fold_res[where I = "same_types s"])
  show "same_types s s" by (simp add: same_types_def)
  show "whenever (run_callback c s1) (same_types s)" if "same_types s s1" for c s1
    by (rule whenever_mono[OF callback_keeps_type]) (rule same_types_trans[OF that])
qed

lemma decode_keeps_type: "whenever (decode api data d m) (\<lambda>(d', m', n). same_types (d, m) (d', m'))"
proof -
  obtain p' cs n where x: "api_execute api (dec_parser d) data = (p', cs, n)" by (cases "api_execute api (dec_parser d) data")
  define k where "k = (if n \<noteq> length data \<and> \<not> api_errno_ok api p' then 0 else n)"
  have "decode api data d m = bind_res (fold_res run_callback cs (d\<lparr>dec_has_message := True\<rparr>, m))
      (\<lambda>s. Inr ((fst s)\<lparr>dec_parser := p'\<rparr>, snd s, k))"
    by (cases "fold_res run_callback cs (d\<lparr>dec_has_message := True\<rparr>, m)") (auto simp: decode_def x k_def Let_def)
  then show ?thesis
    by (simp only: whenever_bind) (rule whenever_mono[OF callbacks_keep_type], simp add: same_types_def)
qed

definition same_enc :: "http_encoder \<Rightarrow> encode_result \<Rightarrow> bool" where
  "same_enc e r \<longleftrightarrow> enc_type (fst r) = enc_type e"

lemma encode_parts_keep_type:
  "whenever (encode_first_line m e b) (same_enc e)" "whenever (encode_headers m e b) (same_enc e)"
  "whenever (encode_body m e b) (same_enc e)"
  by (auto simp: encode_first_line_def encode_headers_def encode_body_def same_enc_def Let_def intro!: whenever_any)

lemma encode_keeps_type: "whenever (encode m e b) (same_enc e)"
proof -
  have tail: "whenever (bind_res (encode_body m e1 b1) (\<lambda>(e3, b3, n3). Inr (e3, b3, f n3))) (same_enc e)"
    if "same_enc e (e1, b1, n)" for e1 b1 n f
    unfolding whenever_bind
    by (rule whenever_mono[OF encode_parts_keep_type(3)]) (use that in \<open>simp add: same_enc_def split_beta\<close>)
  have tail2: "whenever (bind_res (encode_headers m e1 b1) (\<lambda>(e2, b2, n2).
        bind_res (encode_body m e2 b2) (\<lambda>(e3, b3, n3). Inr (e3, b3, g n2 n3)))) (same_enc e)"
    if "same_enc e (e1, b1, n)" for e1 b1 n g
    unfolding whenever_bind[of "encode_headers m e1 b1"]
    by (rule whenever_mono[OF encode_parts_keep_type(2)])
       (use that in \<open>auto simp: same_enc_def simp del: whenever_bind intro!: tail\<close>)
  have tail3: "whenever (bind_res (encode_first_line m e b) (\<lambda>(e1, b1, n1).
        bind_res (encode_headers m e1 b1) (\<lambda>(e2, b2, n2).
        bind_res (encode_body m e2 b2) (\<lambda>(e3, b3, n3). Inr (e3, b3, h n1 n2 n3))))) (same_enc e)" for h
    unfolding whenever_bind[of "encode_first_line m e b"]
    by (rule whenever_mono[OF encode_parts_keep_type(1)])
       (auto simp: same_enc_def simp del: whenever_bind intro!: tail2)
  have "same_enc e (e, b, 0)" by (simp add: same_enc_def)
  then show ?thesis
    using tail2[of e b 0 size_add] encode_parts_keep_type(3)[of m e b] tail3[of "\<lambda>n1 n2 n3. size_add (size_add n1 n2) n3"]
    by (simp add: encode_def del: whenever_bind split: encode_state.split)
qed

section \<open>Operations of a connection\<close>

lemma typed_timer_cancel: "typed w \<Longrightarrow> whenever (timer_cancel i w) typed"
  by (simp add: timer_cancel_def)

lemma typed_read: "typed w \<Longrightarrow> whenever (read i w) typed"
  by (simp add: read_def typed_initiate)

lemma typed_flags [simp]:
  "typed w \<Longrightarrow> typed (modify i (\<lambda>c. c\<lparr>c_connected := b\<rparr>) w)"
  "typed w \<Longrightarrow> typed (modify i (\<lambda>c. c\<lparr>c_stopped := b\<rparr>) w)"
  "typed w \<Longrightarrow> typed (modify i (\<lambda>c. c\<lparr>c_writing := b\<rparr>) w)"
  "typed w \<Longrightarrow> typed (modify i (\<lambda>c. c\<lparr>c_managed := b\<rparr>) w)"
  "typed w \<Longrightarrow> typed (modify i (\<lambda>c. c\<lparr>c_buffer_out := bs\<rparr>) w)"
  "typed w \<Longrightarrow> typed (modify i (\<lambda>c. c\<lparr>c_host := h, c_port := p\<rparr>) w)"
  "typed w \<Longrightarrow> typed (modify i (\<lambda>c. c\<lparr>c_timer := (c_timer c)\<lparr>running := b\<rparr>\<rparr>) w)"
  "typed w \<Longrightarrow> typed (modify i (\<lambda>c. c\<lparr>c_timer := (c_timer c)\<lparr>triggered := b\<rparr>\<rparr>) w)"
  "typed w \<Longrightarrow> typed (modify i (\<lambda>c. c\<lparr>c_buffer_out := [], c_writing := False\<rparr>) w)"
  by (erule typed_modify, simp add: typed_conn_def split: conn_kind.splits)+

lemma typed_timer_start: "typed w \<Longrightarrow> whenever (timer_start i t n w) typed"
  by (simp add: timer_start_def typed_initiate)

lemma typed_start: "typed w \<Longrightarrow> whenever (start i w) typed"
  by (auto simp: start_def client_start_def server_start_def server_connect_def Let_def split: conn_kind.split
      dest: typed_fits intro!: typed_read typed_initiate) (auto simp: fits_kind_def typed_def)

lemma typed_halt: "typed w \<Longrightarrow> typed (halt i n c w)"
  by (simp add: halt_def Let_def typed_post)

lemma typed_stop: "typed w \<Longrightarrow> whenever (stop i n w) typed"
  by (simp add: stop_def timer_cancel_def typed_halt)

lemma typed_on_timer: "typed w \<Longrightarrow> whenever (on_timer i n r w) typed"
  by (auto simp: on_timer_def Let_def split: outcome.split intro!: typed_stop)

lemma typed_do_write: "typed w \<Longrightarrow> whenever (do_write i w) typed"
  by (auto simp: do_write_def split: list.split intro!: typed_start typed_initiate)

lemma typed_write_out: "typed w \<Longrightarrow> whenever (write_out i w) typed"
  by (auto simp: write_out_def timer_cancel_def intro!: typed_do_write)

lemma typed_push:
  assumes "typed w" and "w_conns w i = Some c" and "enc_type e = enc_type (c_encoder c)"
  shows "typed (push_encoded i e b w)"
  unfolding push_encoded_def
  by (rule typed_modify[OF assms(1)]) (use assms(2,3) in \<open>auto simp: typed_conn_def split: conn_kind.splits\<close>)

lemma typed_encoded:
  assumes "typed w" and "w_conns w i = Some c"
  shows "whenever (encode m (c_encoder c) b)
           (\<lambda>r. whenever (case r of (e, b1, n) \<Rightarrow> do_write i (push_encoded i e b1 w)) typed)"
  by (rule whenever_mono[OF encode_keeps_type])
     (use assms in \<open>auto simp: same_enc_def split_beta intro!: typed_do_write typed_push\<close>)

lemma typed_write_message:
  assumes "typed w" shows "whenever (write_message i m w) typed"
  unfolding write_message_def whenever_bind
  by (auto simp: timer_cancel_def assms intro!: whenever_any[of _ "new_buffer 0"] typed_encoded)

lemma typed_event:
  assumes "typed w" and "w_conns w i = Some c"
  shows "typed (post (Event_task READ i) w)" "typed (post (Event_task HANDSHAKE i) w)"
    "c_kind c = Client \<Longrightarrow> typed (post (Event_task WRITE i) w)" "c_kind c = Server \<Longrightarrow> typed (post (Event_task CONNECT i) w)"
  using typed_fits[OF assms] by (auto intro!: typed_post[OF assms(1)] simp: assms(1) fits_kind_def)

lemma fits_kind_modify [simp]:
  "fits_kind (w\<lparr>w_ops := ps\<rparr>) i k = fits_kind w i k" "fits_kind (w\<lparr>w_queue := q\<rparr>) i k = fits_kind w i k"
  by (simp_all add: fits_kind_def)

lemma typed_on_write: "typed w \<Longrightarrow> whenever (on_write i w) typed"
  by (auto simp: on_write_def client_on_write_def server_on_write_def split: conn_kind.split
      intro!: typed_read typed_event)

lemma typed_on_written: "typed w \<Longrightarrow> whenever (on_written i r w) typed"
  by (auto simp: on_written_def Let_def split: outcome.split list.split
      intro!: whenever_any[of _ "buffer_erase a b x" for a b x] typed_do_write typed_on_write typed_stop)

lemma typed_reset_codec:
  assumes "typed w" shows "typed (reset_codec api i w)"
  unfolding reset_codec_def
proof (rule typed_modify[OF assms])
  fix c :: "'a connection" assume "typed_conn c"
  moreover have "is_Request_part (reset_derived p) = is_Request_part p" for p by (cases p) simp_all
  ultimately show "typed_conn (c\<lparr>c_decoder := reset_decoder api (c_decoder c), c_encoder := reset_encoder (c_encoder c),
      c_message := reset_message (c_message c)\<rparr>) \<and>
    c_kind (c\<lparr>c_decoder := reset_decoder api (c_decoder c), c_encoder := reset_encoder (c_encoder c),
      c_message := reset_message (c_message c)\<rparr>) = c_kind c"
    by (auto simp: typed_conn_def reset_decoder_def reset_encoder_def reset_message_def split: conn_kind.splits)
qed

lemma typed_resets:
  "typed w \<Longrightarrow> whenever (server_reset api i w) typed" "typed w \<Longrightarrow> whenever (client_reset api i w) typed"
  by (auto simp: server_reset_def client_reset_def connection_reset_def
      intro!: typed_timer_start whenever_mono[OF typed_timer_start] typed_read typed_reset_codec)

lemma typed_ssl:
  assumes "typed w" and "fits_kind w i k" and "t = (case k of Client \<Rightarrow> Ssl_server | Server \<Rightarrow> Ssl_client)"
  shows "typed (modify i (\<lambda>c. c\<lparr>c_ssl := Some (new_ssl_socket t ca d)\<rparr>) w)"
  by (rule typed_modify[OF assms(1)])
     (use assms(2,3) in \<open>auto simp: typed_conn_def fits_kind_def new_ssl_socket_def split: conn_kind.splits\<close>)

lemma typed_handshakes:
  "typed w \<Longrightarrow> fits_kind w i Client \<Longrightarrow> whenever (client_handshake ca d i w) typed"
  "typed w \<Longrightarrow> fits_kind w i Server \<Longrightarrow> whenever (server_handshake i w) typed"
  by (auto simp: client_handshake_def server_handshake_def switch_to_ssl_def async_handshake_def
      intro!: typed_initiate typed_ssl)

lemma typed_codec:
  assumes "typed w" and "w_conns w i = Some c" and "same_types (c_decoder c, c_message c) (d, m)"
  shows "typed (modify i (\<lambda>c. c\<lparr>c_decoder := d, c_message := m\<rparr>) w)"
  by (rule typed_modify[OF assms(1)])
     (use assms(2,3) in \<open>auto simp: typed_conn_def same_types_def split: conn_kind.splits\<close>)

lemma typed_decoded:
  assumes "typed w" and "w_conns w i = Some c" and "same_types (c_decoder c, c_message c) (d, m)"
  shows "whenever (client_decoded i n d m k w) typed" "whenever (server_decoded i n d m k w) typed"
proof -
  let ?w = "modify i (\<lambda>c. c\<lparr>c_decoder := d, c_message := m\<rparr>) w"
  have t: "typed ?w" by (rule typed_codec[OF assms])
  have "typed (post (Event_task READ i) ?w)"
    by (rule typed_event(1)[OF t]) (simp add: assms(2))
  then show "whenever (client_decoded i n d m k w) typed" "whenever (server_decoded i n d m k w) typed"
    using t by (auto simp: client_decoded_def server_decoded_def Let_def intro!: typed_stop typed_read typed_timer_start)
qed

lemma typed_decode:
  assumes "typed w" and "w_conns w i = Some c"
  shows "whenever (decode api data (c_decoder c) (c_message c))
           (\<lambda>x. whenever (case x of (d, m, n) \<Rightarrow> client_decoded i k d m n w) typed)"
    "whenever (decode api data (c_decoder c) (c_message c))
           (\<lambda>x. whenever (case x of (d, m, n) \<Rightarrow> server_decoded i k d m n w) typed)"
  by (rule whenever_mono[OF decode_keeps_type], use assms in \<open>auto intro!: typed_decoded\<close>)+

lemma typed_on_read:
  "typed w \<Longrightarrow> whenever (client_on_read api i r w) typed" "typed w \<Longrightarrow> whenever (server_on_read api i r w) typed"
  by (auto simp: client_on_read_def server_on_read_def timer_cancel_def split: outcome.split
      intro!: typed_stop typed_decode)

lemma typed_on_resolve:
  assumes "typed w" and "fits_kind w i Server"
  shows "whenever (server_on_resolve i r w) typed"
  using assms by (auto simp: server_on_resolve_def split: outcome.split intro!: typed_stop typed_initiate)

lemma typed_on_connect:
  assumes "typed w" and "fits_kind w i Server"
  shows "whenever (server_on_connect i r w) typed"
proof -
  have "typed (post (Event_task CONNECT i) (modify i (\<lambda>c. c\<lparr>c_connected := True\<rparr>) w))"
    by (rule typed_post) (use assms in \<open>auto simp: fits_kind_def split: if_splits\<close>)
  then show ?thesis
    using assms(1) by (auto simp: server_on_connect_def split: outcome.split intro!: typed_stop)
qed

lemma typed_on_handshake:
  "typed w \<Longrightarrow> whenever (client_on_handshake api i r w) typed" "typed w \<Longrightarrow> whenever (server_on_handshake i r w) typed"
  by (auto simp: client_on_handshake_def server_on_handshake_def split: outcome.split
      intro!: typed_stop typed_post typed_reset_codec)

section \<open>Contexts and the server\<close>

lemma new_connection_typed: "whenever (new_connection api k x) (\<lambda>c. typed_conn c \<and> c_kind c = k)"
  by (cases k) (auto simp: new_connection_def new_request_def new_response_def new_message_def typed_conn_def
      new_decoder_def new_encoder_def intro!: whenever_any)

lemma typed_make_connection:
  assumes "typed w"
  shows "whenever (make_connection api k x w) (\<lambda>(i, w'). typed w' \<and> fits_kind w' i k)"
proof -
  have "typed (w\<lparr>w_conns := (w_conns w)(Suc (w_counter w) \<mapsto> c), w_counter := Suc (w_counter w)\<rparr>)" (is "typed ?w")
    if "typed_conn c" for c
    by (rule typedI[OF assms])
       (use assms that in \<open>auto simp: typed_def kinds_kept_def le_SucI split: if_splits\<close>)
  then show ?thesis
    unfolding make_connection_def Let_def whenever_bind
    by (intro whenever_mono[OF new_connection_typed]) (auto simp: fits_kind_def)
qed

lemma typed_open_server: "typed w \<Longrightarrow> whenever (open_server env k m b dest w) typed"
  unfolding open_server_def set_server_connection_def set_port_def set_host_def Let_def whenever_bind
  by (rule whenever_mono[OF typed_make_connection])
     (auto split: option.split intro!: whenever_any[of _ "make_response SSL_REPLY"] typed_write_message)

lemma typed_on_client_message: "typed w \<Longrightarrow> whenever (on_client_message env k m w) typed"
  by (auto simp: on_client_message_def Let_def split: option.split
      intro!: whenever_any[of _ "parse_destination (lexical_cast env) m (https (w_contexts w k))"]
        typed_write_message typed_open_server)

lemma typed_on_server_message: "typed w \<Longrightarrow> whenever (on_server_message env k m w) typed"
  by (auto simp: on_server_message_def Let_def conn_keep_alive_def split: option.split
      intro!: whenever_mono[OF typed_write_message] typed_read typed_resets typed_stop)

lemma typed_certificate_event:
  assumes "typed w" and "fits_kind w i Client"
  shows "whenever (client_handshake ca d i (w\<lparr>w_certs := cm\<rparr>)) typed"
  by (rule typed_handshakes(1)) (use assms in \<open>simp_all add: fits_kind_def\<close>)

lemma typed_on_client_event:
  assumes "typed w" and "fits_kind w i Client"
  shows "whenever (on_client_event env ev i w) typed"
  using assms
  by (auto simp: on_client_event_def Let_def conn_keep_alive_def context_reset_def split: connection_event.split option.split
      intro!: whenever_any[of _ "get_certificate (library env) h (w_certs w)" for h] typed_on_client_message
        typed_certificate_event whenever_mono[OF typed_resets(2)] typed_stop typed_read)

lemma typed_on_server_event:
  assumes "typed w" and "fits_kind w i Server"
  shows "whenever (on_server_event env ev i w) typed"
  using assms
  by (auto simp: on_server_event_def Let_def split: connection_event.split
      intro!: typed_handshakes(2) typed_write_out typed_on_server_message)

lemma typed_on_stop: "typed w \<Longrightarrow> whenever (on_stop k i w) typed"
  by (auto simp: on_stop_def Let_def split: option.split intro!: typed_stop)

lemma typed_start_accept: "typed w \<Longrightarrow> whenever (start_accept env w) typed"
  unfolding start_accept_def Let_def whenever_bind
  by (rule whenever_mono[OF typed_make_connection]) (auto intro!: typed_initiate simp: fits_kind_def)

lemma typed_on_accept: "typed w \<Longrightarrow> whenever (on_accept env i r w) typed"
  by (auto simp: on_accept_def Let_def split: option.split outcome.split
      intro!: whenever_mono[OF typed_start] typed_start_accept)

lemma typed_stop_all: "typed w \<Longrightarrow> whenever (stop_all k w) typed"
  unfolding stop_all_def whenever_bind
  by (rule whenever_mono[OF whenever_fold_res[where I = typed]])
     (auto simp: stop_one_def detach_def split: conn_kind.split intro!: typed_stop)

lemma typed_on_signal: "typed w \<Longrightarrow> whenever (on_signal w) typed"
  by (auto simp: on_signal_def intro!: whenever_mono[OF typed_stop_all])

section \<open>Runs\<close>

lemma typed_run_task:
  assumes "typed w" and "task_fits w t"
  shows "whenever (run_task env t w) typed"
proof (cases t)
  case (Ready p r)
  then show ?thesis using assms
    by (cases p) (auto split: conn_kind.split simp: client_on_connect_def
        intro!: typed_on_read typed_on_written typed_on_resolve typed_on_connect typed_on_handshake typed_on_timer
          typed_on_accept typed_on_signal)
next
  case (Event_task ev i)
  then show ?thesis using assms typed_fits[OF assms(1)]
    by (auto split: conn_kind.split intro!: typed_on_client_event typed_on_server_event) metis+
next
  case (Stop_task i)
  then show ?thesis using assms by (auto intro!: typed_on_stop)
qed

lemma typed_release:
  assumes "typed w" shows "typed (release w)"
proof (rule typedI[OF assms])
  show "kinds_kept w (release w)" by (auto simp: kinds_kept_def release_def restrict_map_def split: if_splits)
qed (use assms in \<open>auto simp: release_def restrict_map_def typed_def split: if_splits\<close>)

lemma typed_dispatch:
  assumes "typed w" and "dispatch env w = Some r"
  shows "whenever r typed"
proof -
  obtain t q where q: "w_queue w = t # q" using assms(2) by (cases "w_queue w") (auto simp: dispatch_def)
  let ?w = "w\<lparr>w_queue := q, w_pinned := task_refs t\<rparr>"
  have k: "kinds_kept w ?w" by (rule kinds_kept_refl) simp_all
  have t: "typed ?w" by (rule typed_same[OF assms(1)]) (auto simp: q)
  have "task_fits w t" using assms(1) q by (simp add: typed_def)
  then have "whenever (run_task env t ?w) typed" by (intro typed_run_task[OF t] task_fits_kept[OF k])
  moreover have "whenever (restart env (release v)) (\<lambda>v'. typed (release v'))" if "typed v" for v
    using that typed_release[OF that]
    by (auto simp: restart_def intro!: typed_release whenever_mono[OF typed_start_accept])
  ultimately have "whenever (run_task env t ?w) (\<lambda>v. whenever (restart env (release v)) (\<lambda>v'. typed (release v')))"
    by (rule whenever_mono)
  then show ?thesis using assms(2) q by (auto simp: dispatch_def)
qed

lemma typed_finish:
  assumes "typed w" and "p \<in> set (w_ops w)" shows "typed (finish p r w)"
proof -
  have k: "kinds_kept w (finish p r w)" by (rule kinds_kept_refl) (simp_all add: finish_def)
  have "op_fits w p" using assms by (auto simp: typed_def list_all_iff)
  then show ?thesis
    by (intro typedI[OF assms(1) k])
       (use assms op_fits_kept[OF k] in \<open>auto simp: typed_def finish_def dest: set_remove1_subset[THEN subsetD]\<close>)
qed

interpretation typing: invariant "\<lambda>w. boot env cm = Inr w" "step env" typed for env cm
proof
  fix w assume "boot env cm = Inr w"
  moreover have "typed (initial_world cm)" by (simp add: typed_def initial_world_def)
  ultimately show "typed w" using typed_start_accept[of "initial_world cm" env] by (simp add: boot_def)
next
  fix w w' assume "typed w" and "step env w w'"
  from this(2,1) show "typed w'"
    by (cases rule: step.cases) (auto intro: typed_finish dest: typed_dispatch)
qed

text \<open>
  C10: Well-typed connections and handlers. In every reachable state a client connection has a request,
  a request decoder and a response encoder, and takes the server's part in TLS; a server connection has
  a response, a response decoder and a request encoder, and takes the client's part; and every queued
  handler fits the class of its connection, so that the handlers that only assert are never called.
\<close>

theorem connections_are_well_typed:
  assumes "reachable env cm w"
  shows "typed w"
  using typing.always assms unfolding reachable_def .

theorem connections_are_well_typed_witness:
  "typed (first_world sample_setting new_manager)"
  by (rule connections_are_well_typed[OF first_world_reachable])

end
