(* ===== verification/Ownership.thy ===== *)
theory Ownership
  imports Typing Exchanges
begin

text \<open>
  No connection is leaked. A connection that is not stopped is held by one of the two managers as soon as
  anything refers to it (an operation, a handler, a context), so that a signal reaches it; only the
  connection that the acceptor waits with is in no manager yet. The theory follows this through
  the operations of connections, contexts and the server, and their runs.
\<close>

section \<open>The invariant\<close>

definition managed :: "'p world \<Rightarrow> nat \<Rightarrow> bool" where
  "managed w i \<longleftrightarrow> i \<in> set (w_client_mgr w) \<union> set (w_server_mgr w)"

definition cared :: "'p world \<Rightarrow> nat \<Rightarrow> bool" where
  "cared w i \<longleftrightarrow> (\<forall>c. w_conns w i = Some c \<longrightarrow> c_stopped c \<or> managed w i)"

fun subjects :: "task \<Rightarrow> nat list" where
  "subjects (Event_task ev i) = [i]"
| "subjects t = task_refs t"

definition mentioned :: "'p world \<Rightarrow> nat set" where
  "mentioned w = set (concat (map op_refs (w_ops w))) \<union> set (concat (map subjects (w_queue w))) \<union>
     {i. \<exists>k. client_conn (w_contexts w k) = Some i \<or> server_conn (w_contexts w k) = Some i}"

text \<open>The signal is waited for at most once.\<close>

definition signals :: "'p world \<Rightarrow> nat" where
  "signals w = length (filter ((=) Signal_op) (outstanding w))"

text \<open>\<open>tended D w\<close>: everything that is mentioned, and the connections of \<open>D\<close>, are cared for.\<close>

definition tended :: "nat set \<Rightarrow> 'p world \<Rightarrow> bool" where
  "tended D w \<longleftrightarrow> (\<forall>i \<in> D \<union> mentioned w. i \<le> w_counter w \<and> cared w i) \<and> (\<forall>i. w_current w = Some i \<longrightarrow> i \<le> w_counter w) \<and>
     signals w \<le> 1"

lemma tendedI:
  assumes "tended D w" and "w_counter w \<le> w_counter w'" and "signals w' \<le> signals w"
    and "\<And>i. i \<le> w_counter w \<Longrightarrow> cared w i \<Longrightarrow> cared w' i"
    and "\<And>i. i \<in> D' \<union> mentioned w' \<Longrightarrow> i \<in> D \<union> mentioned w \<or> i \<le> w_counter w' \<and> cared w' i"
    and "\<And>i. w_current w' = Some i \<Longrightarrow> w_current w = Some i \<or> i \<le> w_counter w'"
  shows "tended D' w'"
  unfolding tended_def
proof (intro conjI ballI allI impI)
  fix i assume "i \<in> D' \<union> mentioned w'"
  then have "(i \<le> w_counter w \<and> cared w i) \<or> i \<le> w_counter w' \<and> cared w' i"
    using assms(1,5) by (auto simp: tended_def)
  then show "i \<le> w_counter w'" "cared w' i" using assms(2,4) by auto
next
  show "i \<le> w_counter w'" if "w_current w' = Some i" for i
    using assms(1,2) assms(6)[OF that] by (auto simp: tended_def)
  show "signals w' \<le> 1" using assms(1,3) by (auto simp: tended_def)
qed

lemma tendedD:
  assumes "tended D w"
  shows "i \<in> D \<Longrightarrow> i \<le> w_counter w \<and> cared w i" "i \<in> mentioned w \<Longrightarrow> i \<le> w_counter w \<and> cared w i"
    "w_current w = Some i \<Longrightarrow> i \<le> w_counter w"
  using assms by (auto simp: tended_def)

lemma tended_mono: "tended D w \<Longrightarrow> D' \<subseteq> D \<Longrightarrow> tended D' w"
  by (auto simp: tended_def)

lemma tended_insert: "tended D w \<Longrightarrow> i \<in> mentioned w \<Longrightarrow> tended (insert i D) w"
  by (auto simp: tended_def)

lemma lock_mentioned:
  "lock w (client_conn (w_contexts w k)) = Some i \<Longrightarrow> i \<in> mentioned w"
  "lock w (server_conn (w_contexts w k)) = Some i \<Longrightarrow> i \<in> mentioned w"
  by (auto simp: lock_def mentioned_def split: option.splits if_splits)

section \<open>Changes of the state\<close>

lemma managed_cong: "w_client_mgr w' = w_client_mgr w \<Longrightarrow> w_server_mgr w' = w_server_mgr w \<Longrightarrow> managed w' = managed w"
  by (simp add: managed_def fun_eq_iff)

lemma cared_cong: "w_conns w' = w_conns w \<Longrightarrow> managed w' = managed w \<Longrightarrow> cared w' = cared w"
  by (simp add: cared_def fun_eq_iff)

lemma tended_same:
  assumes "tended D w" and "w_conns w' = w_conns w" and "w_client_mgr w' = w_client_mgr w" and "w_server_mgr w' = w_server_mgr w"
    and "w_counter w' = w_counter w" and "mentioned w' \<subseteq> D \<union> mentioned w" and "w_current w' = w_current w"
    and "signals w' \<le> signals w"
  shows "tended D w'"
  by (rule tendedI[OF assms(1)]) (use assms cared_cong[OF assms(2) managed_cong[OF assms(3,4)]] in auto)

lemma mentioned_simps [simp]:
  "mentioned (modify i f w) = mentioned w" "mentioned (mgr_add kd i w) = mentioned w" "mentioned (mgr_erase kd i w) = mentioned w"
  "mentioned (w\<lparr>w_certs := cm\<rparr>) = mentioned w" "mentioned (w\<lparr>w_current := cur\<rparr>) = mentioned w"
  "mentioned (w\<lparr>w_next_context := n\<rparr>) = mentioned w" "mentioned (w\<lparr>w_client_mgr := l\<rparr>) = mentioned w"
  "mentioned (w\<lparr>w_server_mgr := l\<rparr>) = mentioned w" "mentioned (w\<lparr>w_pinned := l\<rparr>) = mentioned w"
  "mentioned (w\<lparr>w_thrown := b\<rparr>) = mentioned w" "mentioned (w\<lparr>w_conns := cs, w_counter := n\<rparr>) = mentioned w"
  "mentioned (release w) = mentioned w"
  by (simp_all add: mentioned_def mgr_add_def mgr_erase_def release_def split: conn_kind.split)

lemma signals_simps [simp]:
  "signals (modify i f w) = signals w" "signals (mgr_add kd i w) = signals w" "signals (mgr_erase kd i w) = signals w"
  "signals (w\<lparr>w_certs := cm\<rparr>) = signals w" "signals (w\<lparr>w_current := cur\<rparr>) = signals w"
  "signals (w\<lparr>w_next_context := n\<rparr>) = signals w" "signals (w\<lparr>w_client_mgr := l\<rparr>) = signals w"
  "signals (w\<lparr>w_server_mgr := l\<rparr>) = signals w" "signals (w\<lparr>w_pinned := l\<rparr>) = signals w"
  "signals (w\<lparr>w_thrown := b\<rparr>) = signals w" "signals (w\<lparr>w_conns := cs, w_counter := n\<rparr>) = signals w"
  "signals (release w) = signals w" "signals (set_context k g w) = signals w"
  by (simp_all add: signals_def outstanding_def mgr_add_def mgr_erase_def release_def set_context_def split: conn_kind.split)

lemma signals_more [simp]:
  "signals (post t w) = signals w + length (filter ((=) Signal_op) (task_op t))"
  "signals (initiate p w) = signals w + of_bool (p = Signal_op)"
  by (auto simp: signals_def outstanding_def initiate_def)

lemma signals_moved:
  assumes "\<And>p. Q p \<Longrightarrow> p \<noteq> Signal_op"
  shows "length (filter ((=) Signal_op) (filter (\<lambda>p. \<not> Q p) ps)) = length (filter ((=) Signal_op) ps)"
    "filter ((=) Signal_op) (concat (map (task_op \<circ> (\<lambda>p. Ready p r)) (filter Q ps))) = []"
  using assms by (induction ps) auto

lemma signals_kept [simp]: "signals (cancel_waits i w) = signals w" "signals (close_acceptor w) = signals w"
proof -
  have "is_timer_of i p \<Longrightarrow> p \<noteq> Signal_op" "is_accept p \<Longrightarrow> p \<noteq> Signal_op" for p by (cases p; simp)+
  from signals_moved[OF this(1)] signals_moved[OF this(2)] show "signals (cancel_waits i w) = signals w" "signals (close_acceptor w) = signals w"
    by (simp_all add: signals_def outstanding_def cancel_waits_def close_acceptor_def o_def)
qed

lemma mentioned_post [simp]: "mentioned (post t w) = mentioned w \<union> set (subjects t)"
  by (auto simp: mentioned_def)

lemma mentioned_initiate [simp]: "mentioned (initiate p w) = mentioned w \<union> set (op_refs p)"
  by (auto simp: mentioned_def initiate_def)

lemma mentioned_cancel [simp]: "mentioned (cancel_waits i w) = mentioned w"
  by (auto simp: mentioned_def cancel_waits_def)

lemma mentioned_close [simp]: "mentioned (close_acceptor w) = mentioned w"
  by (auto simp: mentioned_def close_acceptor_def)

lemma mentioned_context:
  "(\<And>i. client_conn (g (w_contexts w k)) = Some i \<or> server_conn (g (w_contexts w k)) = Some i \<Longrightarrow> i \<in> D \<union> mentioned w) \<Longrightarrow>
   mentioned (set_context k g w) \<subseteq> D \<union> mentioned w"
  by (auto simp: mentioned_def set_context_def split: if_splits)

lemma fields_kept [simp]:
  "w_conns (initiate p w) = w_conns w" "w_client_mgr (initiate p w) = w_client_mgr w" "w_server_mgr (initiate p w) = w_server_mgr w"
  "w_counter (initiate p w) = w_counter w" "w_current (initiate p w) = w_current w"
  "w_conns (close_acceptor w) = w_conns w" "w_client_mgr (close_acceptor w) = w_client_mgr w"
  "w_server_mgr (close_acceptor w) = w_server_mgr w" "w_counter (close_acceptor w) = w_counter w"
  "w_current (close_acceptor w) = w_current w" "w_current (cancel_waits i w) = w_current w"
  "w_counter (cancel_waits i w) = w_counter w"
  by (simp_all add: initiate_def close_acceptor_def cancel_waits_def)

lemma tended_updates [simp]:
  "tended D w \<Longrightarrow> tended D (w\<lparr>w_certs := cm\<rparr>)" "tended D w \<Longrightarrow> tended D (w\<lparr>w_next_context := n\<rparr>)"
  "tended D w \<Longrightarrow> tended D (w\<lparr>w_pinned := l\<rparr>)" "tended D w \<Longrightarrow> tended D (w\<lparr>w_thrown := b\<rparr>)"
  "tended D w \<Longrightarrow> tended D (cancel_waits i w)" "tended D w \<Longrightarrow> tended D (close_acceptor w)"
  by (erule tended_same; simp; fail)+

lemma tended_post: "tended D w \<Longrightarrow> set (subjects t) \<subseteq> D \<Longrightarrow> Signal_op \<notin> set (task_op t) \<Longrightarrow> tended D (post t w)"
  by (erule tended_same) (auto simp: filter_empty_conv)

lemma tended_initiate: "tended D w \<Longrightarrow> set (op_refs p) \<subseteq> D \<Longrightarrow> p \<noteq> Signal_op \<Longrightarrow> tended D (initiate p w)"
  by (erule tended_same) auto

lemma tended_context:
  assumes "tended D w" and "\<And>i. client_conn (g (w_contexts w k)) = Some i \<or> server_conn (g (w_contexts w k)) = Some i \<Longrightarrow> i \<in> D \<union> mentioned w"
  shows "tended D (set_context k g w)"
proof (rule tended_same[OF assms(1)])
  show "mentioned (set_context k g w) \<subseteq> D \<union> mentioned w" by (rule mentioned_context[OF assms(2)])
  show "signals (set_context k g w) \<le> signals w" by simp
qed (simp_all add: set_context_def)

lemma context_mentioned:
  "client_conn (w_contexts w k) = Some i \<Longrightarrow> i \<in> mentioned w" "server_conn (w_contexts w k) = Some i \<Longrightarrow> i \<in> mentioned w"
  by (auto simp: mentioned_def)

lemma tended_flags [simp]:
  "tended D w \<Longrightarrow> tended D (set_context k (\<lambda>x. x\<lparr>https := b\<rparr>) w)"
  "tended D w \<Longrightarrow> tended D (set_context k (\<lambda>x. x\<lparr>ssl_setup := b\<rparr>) w)"
  "tended D w \<Longrightarrow> tended D (set_context k (\<lambda>x. x\<lparr>exchange_completed := b\<rparr>) w)"
  "tended D w \<Longrightarrow> tended D (context_reset k w)"
  "tended D w \<Longrightarrow> tended D (set_context k (\<lambda>_. new_context) w)"
  by (auto simp: context_reset_def new_context_def intro!: tended_context dest: context_mentioned)

lemma tended_names:
  "tended D w \<Longrightarrow> i \<in> D \<Longrightarrow> tended D (set_context k (\<lambda>x. x\<lparr>client_conn := Some i\<rparr>) w)"
  "tended D w \<Longrightarrow> i \<in> D \<Longrightarrow> tended D (set_context k (\<lambda>x. x\<lparr>server_conn := Some i\<rparr>) w)"
  by (auto intro!: tended_context dest: context_mentioned)

lemma tended_modify:
  assumes "tended D w" and "\<And>c. c_stopped c \<Longrightarrow> c_stopped (f c)"
  shows "tended D (modify i f w)"
proof (rule tendedI[OF assms(1)])
  have m: "managed (modify i f w) = managed w" by (rule managed_cong) simp_all
  show "cared (modify i f w) j" if "cared w j" for j
    using that assms(2) by (auto simp: cared_def m split: if_splits)
qed simp_all

lemma tended_fields [simp]:
  "tended D w \<Longrightarrow> tended D (modify i (\<lambda>c. c\<lparr>c_connected := b\<rparr>) w)"
  "tended D w \<Longrightarrow> tended D (modify i (\<lambda>c. c\<lparr>c_writing := b\<rparr>) w)"
  "tended D w \<Longrightarrow> tended D (modify i (\<lambda>c. c\<lparr>c_managed := b\<rparr>) w)"
  "tended D w \<Longrightarrow> tended D (modify i (\<lambda>c. c\<lparr>c_buffer_out := bs\<rparr>) w)"
  "tended D w \<Longrightarrow> tended D (modify i (\<lambda>c. c\<lparr>c_host := h, c_port := p\<rparr>) w)"
  "tended D w \<Longrightarrow> tended D (modify i (\<lambda>c. c\<lparr>c_decoder := d, c_message := m\<rparr>) w)"
  "tended D w \<Longrightarrow> tended D (modify i (\<lambda>c. c\<lparr>c_ssl := s\<rparr>) w)"
  "tended D w \<Longrightarrow> tended D (modify i (\<lambda>c. c\<lparr>c_timer := (c_timer c)\<lparr>running := b\<rparr>\<rparr>) w)"
  "tended D w \<Longrightarrow> tended D (modify i (\<lambda>c. c\<lparr>c_timer := (c_timer c)\<lparr>triggered := b\<rparr>\<rparr>) w)"
  "tended D w \<Longrightarrow> tended D (connection_reset i w)" "tended D w \<Longrightarrow> tended D (reset_codec api i w)"
  "tended D w \<Longrightarrow> tended D (push_encoded i e buf w)" "tended D w \<Longrightarrow> tended D (detach i w)"
  unfolding connection_reset_def reset_codec_def push_encoded_def detach_def by (erule tended_modify, simp)+

text \<open>A connection that becomes managed, and one that is stopped and leaves its manager.\<close>

lemma tended_add:
  assumes "tended D w" and "i \<le> w_counter w"
  shows "tended (insert i D) (mgr_add kd i w)"
proof (rule tendedI[OF assms(1)])
  have m: "managed w j \<or> j = i \<Longrightarrow> managed (mgr_add kd i w) j" for j
    by (cases kd) (auto simp: managed_def mgr_add_def)
  have s: "w_conns (mgr_add kd i w) = w_conns w" "w_counter (mgr_add kd i w) = w_counter w" "w_current (mgr_add kd i w) = w_current w"
    by (cases kd; simp add: mgr_add_def)+
  show "w_counter w \<le> w_counter (mgr_add kd i w)" using s by simp
  show "cared (mgr_add kd i w) j" if "cared w j" for j using that m by (auto simp: cared_def s)
  show "j \<in> D \<union> mentioned w \<or> j \<le> w_counter (mgr_add kd i w) \<and> cared (mgr_add kd i w) j"
    if "j \<in> insert i D \<union> mentioned (mgr_add kd i w)" for j
    using that m assms(2) by (auto simp: cared_def s)
  show "w_current w = Some j \<or> j \<le> w_counter (mgr_add kd i w)" if "w_current (mgr_add kd i w) = Some j" for j
    using that s by simp
qed simp

lemma halt_signals [simp]: "signals (halt i n c w) = signals w"
  by (simp add: halt_def Let_def)

lemma halt_simps:
  "w_counter (halt i n c w) = w_counter w" "w_current (halt i n c w) = w_current w"
  "mentioned (halt i n c w) \<subseteq> insert i (mentioned w)"
  "w_conns (halt i n c w) i = Some c' \<Longrightarrow> c_stopped c'"
  "j \<noteq> i \<Longrightarrow> w_conns (halt i n c w) j = w_conns w j"
  "j \<noteq> i \<Longrightarrow> managed w j \<Longrightarrow> managed (halt i n c w) j"
  by (auto simp: halt_def Let_def managed_def mgr_erase_def split: conn_kind.splits if_splits)

lemma tended_halt:
  assumes "tended D w" and "i \<in> D"
  shows "tended D (halt i n c w)"
proof (rule tendedI[OF assms(1)])
  have i: "cared (halt i n c w) i" using halt_simps(4) by (auto simp: cared_def)
  show "cared (halt i n c w) j" if "cared w j" for j
    using that i halt_simps(5)[of j i n c w] halt_simps(6)[of j i w n c] by (cases "j = i") (auto simp: cared_def)
  show "j \<in> D \<union> mentioned w \<or> j \<le> w_counter (halt i n c w) \<and> cared (halt i n c w) j"
    if "j \<in> D \<union> mentioned (halt i n c w)" for j
    using that halt_simps(3)[of i n c w] assms(2) by auto
qed (simp_all add: halt_simps)

section \<open>Operations of a connection\<close>

lemma tended_timer_cancel: "tended D w \<Longrightarrow> whenever (timer_cancel i w) (tended D)"
  by (simp add: timer_cancel_def)

lemma tended_timer_start: "tended D w \<Longrightarrow> i \<in> D \<Longrightarrow> whenever (timer_start i t n w) (tended D)"
  by (simp add: timer_start_def tended_initiate)

lemma tended_read: "tended D w \<Longrightarrow> i \<in> D \<Longrightarrow> whenever (read i w) (tended D)"
  by (simp add: read_def tended_initiate)

lemma tended_start: "tended D w \<Longrightarrow> i \<in> D \<Longrightarrow> whenever (start i w) (tended D)"
  by (auto simp: start_def client_start_def server_start_def server_connect_def Let_def split: conn_kind.split
      intro!: tended_read tended_initiate tended_names)

lemma tended_stop: "tended D w \<Longrightarrow> i \<in> D \<Longrightarrow> whenever (stop i n w) (tended D)"
  by (simp add: stop_def timer_cancel_def tended_halt)

lemma tended_on_timer: "tended D w \<Longrightarrow> i \<in> D \<Longrightarrow> whenever (on_timer i n r w) (tended D)"
  by (auto simp: on_timer_def Let_def split: outcome.split intro!: tended_stop)

lemma tended_do_write: "tended D w \<Longrightarrow> i \<in> D \<Longrightarrow> whenever (do_write i w) (tended D)"
  by (auto simp: do_write_def split: list.split intro!: tended_start tended_initiate)

lemma tended_write_out: "tended D w \<Longrightarrow> i \<in> D \<Longrightarrow> whenever (write_out i w) (tended D)"
  by (auto simp: write_out_def timer_cancel_def intro!: tended_do_write)

lemma tended_write_message: "tended D w \<Longrightarrow> i \<in> D \<Longrightarrow> whenever (write_message i m w) (tended D)"
  by (auto simp: write_message_def timer_cancel_def intro!: whenever_any[of _ "new_buffer 0"]
      whenever_any[of _ "encode m e b" for e b] tended_do_write)

lemma tended_on_write: "tended D w \<Longrightarrow> i \<in> D \<Longrightarrow> whenever (on_write i w) (tended D)"
  by (auto simp: on_write_def client_on_write_def server_on_write_def split: conn_kind.split
      intro!: tended_read tended_post)

lemma tended_on_written: "tended D w \<Longrightarrow> i \<in> D \<Longrightarrow> whenever (on_written i r w) (tended D)"
  by (auto simp: on_written_def Let_def split: outcome.split list.split
      intro!: whenever_any[of _ "buffer_erase a b x" for a b x] tended_do_write tended_on_write tended_stop)

lemma tended_resets:
  "tended D w \<Longrightarrow> i \<in> D \<Longrightarrow> whenever (server_reset api i w) (tended D)"
  "tended D w \<Longrightarrow> i \<in> D \<Longrightarrow> whenever (client_reset api i w) (tended D)"
  by (auto simp: server_reset_def client_reset_def
      intro!: tended_timer_start whenever_mono[OF tended_timer_start] tended_read)

lemma tended_handshakes:
  "tended D w \<Longrightarrow> i \<in> D \<Longrightarrow> whenever (client_handshake ca d i w) (tended D)"
  "tended D w \<Longrightarrow> i \<in> D \<Longrightarrow> whenever (server_handshake i w) (tended D)"
  by (auto simp: client_handshake_def server_handshake_def switch_to_ssl_def async_handshake_def intro!: tended_initiate)

lemma tended_decoded:
  "tended D w \<Longrightarrow> i \<in> D \<Longrightarrow> whenever (client_decoded i n d m k w) (tended D)"
  "tended D w \<Longrightarrow> i \<in> D \<Longrightarrow> whenever (server_decoded i n d m k w) (tended D)"
  by (auto simp: client_decoded_def server_decoded_def Let_def intro!: tended_stop tended_read tended_timer_start tended_post)

lemma tended_on_read:
  "tended D w \<Longrightarrow> i \<in> D \<Longrightarrow> whenever (client_on_read api i r w) (tended D)"
  "tended D w \<Longrightarrow> i \<in> D \<Longrightarrow> whenever (server_on_read api i r w) (tended D)"
  by (auto simp: client_on_read_def server_on_read_def timer_cancel_def split: outcome.split
      intro!: whenever_any[of _ "decode api x d m" for x d m] tended_stop tended_decoded)

lemma tended_other_handlers:
  "tended D w \<Longrightarrow> i \<in> D \<Longrightarrow> whenever (server_on_resolve i r w) (tended D)"
  "tended D w \<Longrightarrow> i \<in> D \<Longrightarrow> whenever (server_on_connect i r w) (tended D)"
  "tended D w \<Longrightarrow> i \<in> D \<Longrightarrow> whenever (client_on_handshake api i r w) (tended D)"
  "tended D w \<Longrightarrow> i \<in> D \<Longrightarrow> whenever (server_on_handshake i r w) (tended D)"
  by (auto simp: server_on_resolve_def server_on_connect_def client_on_handshake_def server_on_handshake_def
      split: outcome.split intro!: tended_stop tended_initiate tended_post)

section \<open>Contexts and the server\<close>

lemma tended_make_connection:
  assumes "tended D w"
  shows "whenever (make_connection api k x w) (\<lambda>(i, w'). tended D w' \<and> i \<le> w_counter w')"
proof -
  have t: "tended D (w\<lparr>w_conns := (w_conns w)(Suc (w_counter w) \<mapsto> c), w_counter := Suc (w_counter w)\<rparr>)" (is "tended D ?w") for c
  proof (rule tendedI[OF assms])
    have m: "managed ?w = managed w" by (rule managed_cong) simp_all
    show "cared ?w i" if "i \<le> w_counter w" "cared w i" for i using that by (auto simp: cared_def m)
  qed simp_all
  show ?thesis unfolding make_connection_def Let_def whenever_bind by (rule whenever_any) (simp add: t)
qed

lemma tended_drop: "whenever m (tended D) \<Longrightarrow> D' \<subseteq> D \<Longrightarrow> whenever m (tended D')"
  by (erule whenever_mono) (erule tended_mono)

text \<open>What an action does to a connection that the state mentions anyway.\<close>

lemma tended_mentioned:
  assumes "\<And>D. tended D w \<Longrightarrow> i \<in> D \<Longrightarrow> whenever m (tended D)" and "tended D w" and "i \<in> mentioned w"
  shows "whenever m (tended D)"
  by (rule tended_drop[OF assms(1)[OF tended_insert[OF assms(2,3)]]]) auto

lemma tended_open_server:
  assumes w: "tended D w" shows "whenever (open_server env k m b dest w) (tended D)"
proof -
  let ?E = "set_option (client_conn (w_contexts w k)) \<union> D"
  have "tended ?E w" using w by (auto simp: tended_def mentioned_def)
  then have new: "whenever (make_connection (parser env) Server k (set_context k (\<lambda>x. x\<lparr>https := b\<rparr>) w))
      (\<lambda>(i, w'). tended ?E w' \<and> i \<le> w_counter w')"
    by (intro tended_make_connection) simp
  have "whenever (case lock v (client_conn (w_contexts w k)) of
          None \<Rightarrow> Inl Assertion_Failed
        | Some c \<Rightarrow> if q then bind_res (make_response SSL_REPLY) (\<lambda>resp. write_message c resp v) else write_message s m v) (tended ?E)"
    if "tended (insert s ?E) v" for v s q
  proof -
    have "whenever (write_message i x v) (tended ?E)" if "i \<in> insert s ?E" for i x
      by (rule tended_drop[OF tended_write_message[OF \<open>tended (insert s ?E) v\<close> that]]) auto
    then show ?thesis by (auto split: option.split dest!: lock_some intro!: whenever_any[of _ "make_response SSL_REPLY"])
  qed
  note out = this
  have v: "tended (insert s ?E) (set_context k (\<lambda>x. x\<lparr>server_conn := Some s\<rparr>)
      (mgr_add Server s (modify s (\<lambda>c. c\<lparr>c_host := fst dest, c_port := snd dest\<rparr>) w2)))"
    if "tended ?E w2" "s \<le> w_counter w2" for s w2
    using that by (intro tended_names tended_add) simp_all
  have "whenever (open_server env k m b dest w) (tended ?E)"
    unfolding open_server_def set_server_connection_def set_port_def set_host_def Let_def whenever_bind
    by (rule whenever_mono[OF new]) (auto simp del: whenever_bind simp add: split_def intro!: out v)
  then show ?thesis by (rule tended_drop) auto
qed

lemma tended_on_client_message: "tended D w \<Longrightarrow> whenever (on_client_message env k m w) (tended D)"
  by (auto simp: on_client_message_def Let_def split: option.split
      intro!: whenever_any[of _ "parse_destination (lexical_cast env) m (https (w_contexts w k))"]
        tended_mentioned[OF tended_write_message] lock_mentioned tended_open_server)

lemma tended_on_server_message: "tended D w \<Longrightarrow> whenever (on_server_message env k m w) (tended D)"
proof -
  assume w: "tended D w"
  have "whenever (on_server_message env k m w) (tended D)"
    if c: "lock w (client_conn (w_contexts w k)) = Some c" and s: "lock w (server_conn (w_contexts w k)) = Some s" for c s
  proof -
    have "tended ({s, c} \<union> D) w"
      using w lock_mentioned(1)[OF c] lock_mentioned(2)[OF s] by (auto simp: tended_def)
    then have "whenever (on_server_message env k m w) (tended ({s, c} \<union> D))"
      using c s by (auto simp: on_server_message_def Let_def conn_keep_alive_def
          intro!: whenever_mono[OF tended_write_message] tended_read tended_resets tended_stop)
    then show ?thesis by (rule tended_drop) auto
  qed
  moreover have "on_server_message env k m w = Inl Assertion_Failed"
    if "lock w (client_conn (w_contexts w k)) = None \<or> lock w (server_conn (w_contexts w k)) = None"
    using that by (auto simp: on_server_message_def Let_def split: option.split)
  ultimately show ?thesis
    by (cases "lock w (client_conn (w_contexts w k))"; cases "lock w (server_conn (w_contexts w k))") auto
qed

lemma tended_on_client_event:
  "tended D w \<Longrightarrow> i \<in> D \<Longrightarrow> whenever (on_client_event env ev i w) (tended D)"
  by (auto simp: on_client_event_def Let_def conn_keep_alive_def split: connection_event.split option.split
      intro!: whenever_any[of _ "get_certificate (library env) h (w_certs w)" for h] tended_on_client_message
        tended_handshakes(1) whenever_mono[OF tended_resets(2)] tended_stop tended_read)

lemma tended_on_server_event:
  "tended D w \<Longrightarrow> i \<in> D \<Longrightarrow> whenever (on_server_event env ev i w) (tended D)"
  by (auto simp: on_server_event_def Let_def split: connection_event.split
      intro!: tended_handshakes(2) tended_write_out tended_on_server_message)

lemma tended_on_stop: "tended D w \<Longrightarrow> whenever (on_stop k i w) (tended D)"
  by (auto simp: on_stop_def Let_def split: option.split intro!: tended_mentioned[OF tended_stop] intro: lock_mentioned)

lemma tended_start_accept:
  assumes "tended D w" shows "whenever (start_accept env w) (tended D)"
proof -
  have new: "whenever (make_connection (parser env) Client k (set_context k (\<lambda>_. new_context) (w\<lparr>w_next_context := k + 1\<rparr>)))
      (\<lambda>(i, w'). tended D w' \<and> i \<le> w_counter w')" for k
    by (rule tended_make_connection) (simp add: assms)
  have "tended D (initiate (Accept_op i) (w2\<lparr>w_current := Some i\<rparr>))" if w: "tended D w2" "i \<le> w_counter w2" for i w2
    by (rule tended_initiate, rule tendedI[OF w(1)]) (use w(2) in \<open>auto simp: cared_def managed_def\<close>)
  then show ?thesis unfolding start_accept_def Let_def whenever_bind
    by (intro whenever_mono[OF new]) auto
qed

lemma tended_on_accept:
  assumes w: "tended D w" shows "whenever (on_accept env i r w) (tended D)"
proof -
  have "whenever (bind_res (start j (mgr_add Client j (modify j (\<lambda>c. c\<lparr>c_host := a, c_port := p\<rparr>) w))) (start_accept env)) (tended D)"
    if "w_current w = Some j" for j a p
  proof -
    have "tended (insert j D) (mgr_add Client j (modify j (\<lambda>c. c\<lparr>c_host := a, c_port := p\<rparr>) w))"
      using w tendedD(3)[OF w that] by (intro tended_add) simp_all
    from tended_start[OF this, of j] show ?thesis
      by (auto intro!: whenever_mono[of "start j x" "tended (insert j D)" for x] tended_start_accept elim: tended_mono)
  qed
  then show ?thesis using w by (auto simp: on_accept_def Let_def split: option.split outcome.split)
qed

section \<open>The signal\<close>

lemma tended_stop_one: "tended D w \<Longrightarrow> i \<in> D \<Longrightarrow> whenever (stop_one i w) (tended D)"
  by (simp add: stop_one_def tended_stop)

lemma fold_res_tended:
  assumes "tended D w" and "set is \<subseteq> D"
  shows "whenever (fold_res stop_one is w) (tended D)"
  using assms
proof (induction "is" arbitrary: w)
  case (Cons i "is")
  then show ?case using tended_stop_one[of D w i] by (cases "stop_one i w") auto
qed simp

lemma tended_stop_all:
  assumes w: "tended D w" and g: "good {} w"
  shows "whenever (stop_all kd w) (tended D)"
proof -
  let ?is = "case kd of Client \<Rightarrow> w_client_mgr w | Server \<Rightarrow> w_server_mgr w"
  have d: "set ?is \<subseteq> dom (w_conns w)" using g by (auto simp: good_def shared_refs_def split: conn_kind.split)
  have "tended (D \<union> set ?is) w"
    using w d g by (auto simp: tended_def good_def cared_def managed_def split: conn_kind.splits)
  then have "whenever (fold_res stop_one ?is w) (tended (D \<union> set ?is))"
    by (rule fold_res_tended) simp
  moreover obtain v where v: "fold_res stop_one ?is w = Inr v" "w_client_mgr v = w_client_mgr w" "w_server_mgr v = w_server_mgr w"
    "\<And>j c. w_conns v j = Some c \<Longrightarrow> j \<in> set ?is \<Longrightarrow> c_stopped c"
    using stop_each[OF d] by blast
  ultimately have t: "tended D v" by (auto elim: tended_mono)
  have "tended D (case kd of Client \<Rightarrow> v\<lparr>w_client_mgr := []\<rparr> | Server \<Rightarrow> v\<lparr>w_server_mgr := []\<rparr>)" (is "tended D ?v")
  proof (rule tendedI[OF t])
    show "cared ?v i" if "cared v i" for i
      using that v(2-4) by (cases kd) (auto simp: cared_def managed_def)
  qed (auto split: conn_kind.split)
  then show ?thesis using v(1) by (simp add: stop_all_def split: conn_kind.split_asm conn_kind.split)
qed

lemma tended_on_signal:
  assumes "tended D w" and "good {} w"
  shows "whenever (on_signal w) (tended D)"
proof -
  have "whenever (stop_all Client w) (\<lambda>v. tended D v \<and> good {} v)"
    using tended_stop_all[OF assms] good_stop_all[OF assms(2), of Client] by (auto simp: whenever_iff)
  then show ?thesis unfolding on_signal_def whenever_bind
    by (rule whenever_mono) (auto intro!: whenever_mono[OF tended_stop_all])
qed

section \<open>Runs\<close>

lemma tended_run_task:
  assumes w: "tended (set (subjects t)) w" and g: "\<And>r. t = Ready Signal_op r \<Longrightarrow> good {} w"
  shows "whenever (run_task env t w) (tended (set (subjects t)))"
proof (cases t)
  case (Ready p r)
  then show ?thesis using w g
    by (cases p) (auto split: conn_kind.split simp: client_on_connect_def
        intro!: tended_on_read tended_on_written tended_other_handlers tended_on_timer tended_on_accept tended_on_signal)
next
  case (Event_task ev i)
  then show ?thesis using w by (auto split: conn_kind.split intro!: tended_on_client_event tended_on_server_event)
next
  case (Stop_task i)
  then show ?thesis using w by (auto intro!: tended_on_stop)
qed

lemma tended_release: "tended D w \<Longrightarrow> tended D (release w)"
proof (erule tendedI)
  have f: "w_counter (release w) = w_counter w" "w_current (release w) = w_current w" by (simp_all add: release_def)
  show "w_counter w \<le> w_counter (release w)" by (simp add: f)
  show "w_current w = Some i \<or> i \<le> w_counter (release w)" if "w_current (release w) = Some i" for i using that by (simp add: f)
  have m: "managed (release w) = managed w" by (rule managed_cong) (simp_all add: release_def)
  show "cared (release w) i" if "cared w i" for i
    using that by (auto simp: cared_def m) (auto simp: release_def restrict_map_def split: if_splits)
qed simp_all

definition world_tended :: "'p world \<Rightarrow> bool" where
  "world_tended w \<longleftrightarrow> tended {} w \<and> world_ok w"

lemma tended_dispatch:
  assumes w: "world_tended w" and d: "dispatch env w = Some (Inr w')"
  shows "tended {} w'"
proof -
  obtain t q where q: "w_queue w = t # q" using d by (cases "w_queue w") (auto simp: dispatch_def)
  let ?p = "w\<lparr>w_queue := q, w_pinned := task_refs t\<rparr>"
  have "tended (set (subjects t)) ?p"
    by (rule tendedI[of "{}" w])
       (use w q in \<open>auto simp: world_tended_def cared_def managed_def mentioned_def signals_def outstanding_def\<close>)
  moreover have "good {} ?p" if "t = Ready Signal_op r" for r
    using good_pop_other[of w t q] w q that by (auto simp: world_tended_def world_ok_def intro: good_mono)
  ultimately have "whenever (run_task env t ?p) (tended {})"
    by (intro tended_drop[OF tended_run_task]) simp_all
  moreover have "whenever (restart env (release v)) (\<lambda>v'. tended {} (release v'))" if "tended {} v" for v
    using tended_release[OF that]
    by (auto simp: restart_def intro!: tended_release whenever_mono[OF tended_start_accept])
  ultimately have "whenever (run_task env t ?p) (\<lambda>v. whenever (restart env (release v)) (\<lambda>v'. tended {} (release v')))"
    by (rule whenever_mono)
  moreover have "bind_res (run_task env t ?p) (\<lambda>w1. bind_res (restart env (release w1)) (\<lambda>w2. Inr (release w2))) = Inr w'"
    using d q by (simp add: dispatch_def)
  ultimately show ?thesis by (auto simp: bind_res_eq_Inr)
qed

lemma tended_finish:
  assumes "tended {} w" and p: "p \<in> set (w_ops w)" shows "tended {} (finish p r w)"
proof (rule tended_same[OF assms(1)])
  have "length (filter ((=) Signal_op) (remove1 p ps)) + of_bool (p = Signal_op) = length (filter ((=) Signal_op) ps)"
    if "p \<in> set ps" for ps
    using that by (induction ps) auto
  from this[OF p] show "signals (finish p r w) \<le> signals w"
    by (auto simp: signals_def outstanding_def finish_def split: if_splits)
qed (use p in \<open>auto simp: finish_def mentioned_def dest: set_remove1_subset[THEN subsetD]\<close>)

lemma tended_initial: "tended {} (initial_world cm)"
  by (simp add: tended_def mentioned_def initial_world_def new_context_def signals_def outstanding_def)

interpretation ownership: invariant "\<lambda>w. boot env cm = Inr w" "step env" world_tended for env cm
proof
  fix w assume b: "boot env cm = Inr w"
  then show "world_tended w"
    using tended_start_accept[OF tended_initial, of env cm] boot_ok[OF b] by (simp add: boot_def world_tended_def)
next
  fix w w' assume w: "world_tended w" and s: "step env w w'"
  have "world_ok w'" using proxy.kept[OF _ s] w by (simp add: world_tended_def)
  moreover have "tended {} w'"
    using s w tended_dispatch[OF w] by (cases rule: step.cases) (auto simp: world_tended_def intro: tended_finish)
  ultimately show "world_tended w'" by (simp add: world_tended_def)
qed

lemma reachable_tended: "reachable env cm w \<Longrightarrow> tended {} w"
  using ownership.always[of env cm w] by (simp add: reachable_def world_tended_def)

end
