(* ===== verification/Activities.thy ===== *)
theory Activities
  imports Typing Exchanges "HOL-Library.Multiset"
begin

text \<open>
  What is under way in a context. A read of the client's request, the event that delivers it, the way of
  the request to the server (resolving, connecting, shaking hands, writing), a read of the response, the
  event that delivers it, and the acknowledgement of the exchange or of a CONNECT request are its
  activities. This theory has the invariant that a context has at most one of them, together with what
  is needed to keep it and what follows from it, and shows that the operations of connections
  (\<open>src/connection.cpp\<close>, \<open>src/client_connection.cpp\<close>, \<open>src/server_connection.cpp\<close>), new connections and
  the changes of contexts keep it; \<open>Privacy\<close> goes on with messages, events and runs.
\<close>

section \<open>Activities\<close>

fun op_id :: "operation \<Rightarrow> nat" where
  "op_id (Read_op i) = i"
| "op_id (Write_op i d) = i"
| "op_id (Resolve_op i) = i"
| "op_id (Connect_op i) = i"
| "op_id (Handshake_op i) = i"
| "op_id (Timer_op i t n) = i"
| "op_id (Accept_op i) = i"
| "op_id Signal_op = 0"

fun task_id :: "task \<Rightarrow> nat" where
  "task_id (Ready p r) = op_id p"
| "task_id (Event_task ev i) = i"
| "task_id (Stop_task i) = i"

text \<open>
  The handlers still to run: those of the pending operations, and those in the queue, in any order and
  whatever the outcome.
\<close>

fun plain :: "task \<Rightarrow> task" where
  "plain (Ready p r) = Ready p Aborted"
| "plain t = t"

definition jobs :: "'p world \<Rightarrow> task multiset" where
  "jobs w = {#Ready p Aborted. p \<in># mset (w_ops w)#} + {#plain t. t \<in># mset (w_queue w)#}"

definition belongs :: "'p world \<Rightarrow> nat \<Rightarrow> nat \<Rightarrow> bool" where
  "belongs w k i \<longleftrightarrow> (\<exists>c. w_conns w i = Some c \<and> c_context c = k)"

definition server_of :: "'p world \<Rightarrow> nat \<Rightarrow> nat \<Rightarrow> bool" where
  "server_of w k i \<longleftrightarrow> (\<exists>c. w_conns w i = Some c \<and> c_context c = k \<and> c_kind c = Server)"

fun op_busy :: "'p world \<Rightarrow> nat \<Rightarrow> operation \<Rightarrow> bool" where
  "op_busy w k (Write_op i d) = server_of w k i"
| "op_busy w k (Timer_op i t n) = False"
| "op_busy w k Signal_op = False"
| "op_busy w k p = belongs w k (op_id p)"

fun busy :: "'p world \<Rightarrow> nat \<Rightarrow> task \<Rightarrow> bool" where
  "busy w k (Ready p r) = op_busy w k p"
| "busy w k (Event_task ev i) = (ev \<noteq> WRITE \<and> belongs w k i)"
| "busy w k (Stop_task i) = False"

text \<open>The reply to CONNECT is on its way to the client, which is then shaken hands with.\<close>

definition acknowledging :: "'p world \<Rightarrow> nat \<Rightarrow> bool" where
  "acknowledging w k \<longleftrightarrow> https (w_contexts w k) \<and> \<not> ssl_setup (w_contexts w k) \<and>
     (\<exists>i c. w_conns w i = Some c \<and> c_kind c = Client \<and> c_context c = k \<and> c_ssl c = None)"

definition activities :: "'p world \<Rightarrow> nat \<Rightarrow> nat" where
  "activities w k = size (filter_mset (busy w k) (jobs w)) + of_bool (exchange_completed (w_contexts w k)) +
     of_bool (acknowledging w k)"

section \<open>The invariant\<close>

text \<open>The ids and contexts in use, and how contexts and connections refer to each other.\<close>

definition linked :: "'p world \<Rightarrow> bool" where
  "linked w \<longleftrightarrow>
     (\<forall>i c. w_conns w i = Some c \<longrightarrow> i \<le> w_counter w \<and> c_context c < w_next_context w) \<and>
     (\<forall>t \<in># jobs w. task_id t \<le> w_counter w) \<and>
     (\<forall>i j c d. w_conns w i = Some c \<and> w_conns w j = Some d \<and> c_kind c = Client \<and> c_kind d = Client \<and>
        c_context c = c_context d \<longrightarrow> i = j) \<and>
     (\<forall>i c. w_conns w i = Some c \<and> c_kind c = Server \<longrightarrow> server_conn (w_contexts w (c_context c)) = Some i) \<and>
     (\<forall>k i. server_conn (w_contexts w k) = Some i \<longrightarrow>
        i \<le> w_counter w \<and> (\<forall>c. w_conns w i = Some c \<longrightarrow> c_kind c = Server \<and> c_context c = k)) \<and>
     (\<forall>k i. client_conn (w_contexts w k) = Some i \<longrightarrow>
        i \<le> w_counter w \<and> (\<forall>c. w_conns w i = Some c \<longrightarrow>
          c_kind c = Client \<and> c_context c = k \<and> (c_connected c \<or> c_stopped c)))"

text \<open>What is known of a connection that is written to, or that is being connected with TLS.\<close>

definition guarded :: "'p world \<Rightarrow> bool" where
  "guarded w \<longleftrightarrow>
     (\<forall>i c. w_conns w i = Some c \<and> c_kind c = Client \<longrightarrow>
        (\<forall>d. Ready (Write_op i d) Aborted \<in># jobs w \<longrightarrow> c_connected c \<or> c_stopped c)) \<and>
     (\<forall>i c. w_conns w i = Some c \<and> c_kind c = Server \<and> c_ssl c = None \<longrightarrow>
        Ready (Handshake_op i) Aborted \<notin># jobs w \<and> Event_task HANDSHAKE i \<notin># jobs w \<and>
        (https (w_contexts w (c_context c)) \<longrightarrow>
           (\<forall>d. Ready (Write_op i d) Aborted \<notin># jobs w) \<and> (c_connected c \<longrightarrow> Event_task CONNECT i \<in># jobs w)))"

text \<open>
  \<open>lawful K D w\<close>: the invariant, where the contexts of \<open>K\<close> have no activity at the moment, the others at
  most one, and \<open>D\<close> says of some connections to which context they belong.
\<close>

definition placed :: "'p world \<Rightarrow> nat \<times> nat \<Rightarrow> bool" where
  "placed w x \<longleftrightarrow> fst x \<le> w_counter w \<and> (\<forall>c. w_conns w (fst x) = Some c \<longrightarrow> c_context c = snd x)"

definition lawful :: "nat set \<Rightarrow> (nat \<times> nat) set \<Rightarrow> 'p world \<Rightarrow> bool" where
  "lawful K D w \<longleftrightarrow> linked w \<and> guarded w \<and> (\<forall>k. activities w k \<le> of_bool (k \<notin> K)) \<and> (\<forall>x \<in> D. placed w x)"

lemma lawfulI:
  "linked w \<Longrightarrow> guarded w \<Longrightarrow> (\<And>k. activities w k \<le> of_bool (k \<notin> K)) \<Longrightarrow> (\<And>x. x \<in> D \<Longrightarrow> placed w x) \<Longrightarrow> lawful K D w"
  by (simp add: lawful_def)

lemma lawfulD:
  assumes "lawful K D w"
  shows "linked w" "guarded w" "activities w k \<le> of_bool (k \<notin> K)" "x \<in> D \<Longrightarrow> placed w x"
  using assms by (simp_all add: lawful_def)

lemma lawful_idle: "lawful K D w \<Longrightarrow> k \<in> K \<Longrightarrow> activities w k = 0"
  using lawfulD(3)[of K D w k] by simp

lemma lawful_mono: "lawful K D w \<Longrightarrow> K' \<subseteq> K \<Longrightarrow> D' \<subseteq> D \<Longrightarrow> lawful K' D' w"
  by (rule lawfulI) (auto dest: lawfulD lawful_idle intro: order_trans[OF lawfulD(3)])

lemma lawful_less: "lawful K D w \<Longrightarrow> lawful {} D w"
  by (erule lawful_mono) auto

lemma lawful_insert: "lawful K D w \<Longrightarrow> w_conns w i = Some c \<Longrightarrow> lawful K (insert (i, c_context c) D) w"
  by (auto simp: lawful_def linked_def placed_def)

lemma lawful_in: "lawful K D w \<Longrightarrow> (i, k) \<in> D \<Longrightarrow> w_conns w i = Some c \<Longrightarrow> c_context c = k"
  using lawfulD(4)[of K D w "(i, k)"] by (simp add: placed_def)

lemma lawful_id: "lawful K D w \<Longrightarrow> (i, k) \<in> D \<Longrightarrow> i \<le> w_counter w"
  using lawfulD(4)[of K D w "(i, k)"] by (simp add: placed_def)

section \<open>Changes that keep everything\<close>

definition tame :: "'p connection \<Rightarrow> 'p connection \<Rightarrow> bool" where
  "tame c c' \<longleftrightarrow> c_kind c' = c_kind c \<and> c_context c' = c_context c \<and> (c_ssl c' = None \<longrightarrow> c_ssl c = None) \<and>
     (if c_kind c = Client then c_connected c \<or> c_stopped c \<longrightarrow> c_connected c' \<or> c_stopped c'
      else c_connected c' \<longrightarrow> c_connected c)"

definition tamed :: "'p world \<Rightarrow> 'p world \<Rightarrow> bool" where
  "tamed w w' \<longleftrightarrow> (\<forall>i c'. w_conns w' i = Some c' \<longrightarrow> (\<exists>c. w_conns w i = Some c \<and> tame c c'))"

lemma size_filter_mono: "(\<And>t. P t \<Longrightarrow> Q t) \<Longrightarrow> size (filter_mset P M) \<le> size (filter_mset Q M)"
  by (induction M) auto

lemma tamed_belongs:
  assumes "tamed w w'"
  shows "belongs w' k i \<Longrightarrow> belongs w k i" "server_of w' k i \<Longrightarrow> server_of w k i"
  using assms by (fastforce simp: tamed_def tame_def belongs_def server_of_def)+

lemma tamed_busy: "tamed w w' \<Longrightarrow> busy w' k t \<Longrightarrow> busy w k t"
  by (cases t; cases "(w, k, case t of Ready p r \<Rightarrow> p | _ \<Rightarrow> Signal_op)" rule: op_busy.cases) (auto dest: tamed_belongs)

lemma tamed_acknowledging:
  "tamed w w' \<Longrightarrow> w_contexts w' = w_contexts w \<Longrightarrow> acknowledging w' k \<Longrightarrow> acknowledging w k"
  unfolding acknowledging_def tamed_def tame_def by metis

lemma activities_tamed:
  assumes "tamed w w'" and "w_contexts w' = w_contexts w" and "jobs w' = jobs w"
  shows "activities w' k \<le> activities w k"
proof -
  have "size (filter_mset (busy w' k) (jobs w')) \<le> size (filter_mset (busy w k) (jobs w))"
    unfolding assms(3) by (rule size_filter_mono) (rule tamed_busy[OF assms(1)])
  then show ?thesis using tamed_acknowledging[OF assms(1,2), of k] by (auto simp: activities_def assms(2))
qed


lemma linkedI:
  assumes "\<And>i c. w_conns w i = Some c \<Longrightarrow> i \<le> w_counter w \<and> c_context c < w_next_context w"
    and "\<And>t. t \<in># jobs w \<Longrightarrow> task_id t \<le> w_counter w"
    and "\<And>i j c d. w_conns w i = Some c \<Longrightarrow> w_conns w j = Some d \<Longrightarrow> c_kind c = Client \<Longrightarrow> c_kind d = Client \<Longrightarrow>
        c_context c = c_context d \<Longrightarrow> i = j"
    and "\<And>i c. w_conns w i = Some c \<Longrightarrow> c_kind c = Server \<Longrightarrow> server_conn (w_contexts w (c_context c)) = Some i"
    and "\<And>k i. server_conn (w_contexts w k) = Some i \<Longrightarrow>
        i \<le> w_counter w \<and> (\<forall>c. w_conns w i = Some c \<longrightarrow> c_kind c = Server \<and> c_context c = k)"
    and "\<And>k i. client_conn (w_contexts w k) = Some i \<Longrightarrow>
        i \<le> w_counter w \<and> (\<forall>c. w_conns w i = Some c \<longrightarrow>
          c_kind c = Client \<and> c_context c = k \<and> (c_connected c \<or> c_stopped c))"
  shows "linked w"
  unfolding linked_def using assms by blast

lemma linkedD:
  assumes "linked w"
  shows "w_conns w i = Some c \<Longrightarrow> i \<le> w_counter w \<and> c_context c < w_next_context w"
    and "t \<in># jobs w \<Longrightarrow> task_id t \<le> w_counter w"
    and "w_conns w i = Some c \<Longrightarrow> w_conns w j = Some d \<Longrightarrow> c_kind c = Client \<Longrightarrow> c_kind d = Client \<Longrightarrow>
        c_context c = c_context d \<Longrightarrow> i = j"
    and "w_conns w i = Some c \<Longrightarrow> c_kind c = Server \<Longrightarrow> server_conn (w_contexts w (c_context c)) = Some i"
    and "server_conn (w_contexts w k) = Some i \<Longrightarrow>
        i \<le> w_counter w \<and> (\<forall>c. w_conns w i = Some c \<longrightarrow> c_kind c = Server \<and> c_context c = k)"
    and "client_conn (w_contexts w k) = Some i \<Longrightarrow>
        i \<le> w_counter w \<and> (\<forall>c. w_conns w i = Some c \<longrightarrow>
          c_kind c = Client \<and> c_context c = k \<and> (c_connected c \<or> c_stopped c))"
  using assms unfolding linked_def by blast+

lemma tamedD: "tamed w w' \<Longrightarrow> w_conns w' i = Some c' \<Longrightarrow> \<exists>c. w_conns w i = Some c \<and> tame c c'"
  by (simp add: tamed_def)

lemma tameD:
  assumes "tame c c'"
  shows "c_kind c' = c_kind c" "c_context c' = c_context c" "c_ssl c' = None \<Longrightarrow> c_ssl c = None"
    "c_kind c = Client \<Longrightarrow> c_connected c \<or> c_stopped c \<Longrightarrow> c_connected c' \<or> c_stopped c'"
    "c_kind c = Server \<Longrightarrow> c_connected c' \<Longrightarrow> c_connected c"
  using assms by (auto simp: tame_def)

text \<open>
  A change that tames connections or destroys them, and does not touch jobs and contexts.
\<close>

lemma linked_tamed:
  assumes l: "linked w" and t: "tamed w w'" and x: "w_contexts w' = w_contexts w" and "jobs w' = jobs w"
    and n: "w_counter w \<le> w_counter w'" "w_next_context w \<le> w_next_context w'"
  shows "linked w'"
proof (rule linkedI)
  fix i c' assume "w_conns w' i = Some c'"
  with tamedD[OF t this] linkedD(1)[OF l] n
  show "i \<le> w_counter w' \<and> c_context c' < w_next_context w'" by (force dest: tameD(2))
next
  fix i j c' d' assume a: "w_conns w' i = Some c'" "w_conns w' j = Some d'" "c_kind c' = Client" "c_kind d' = Client"
    "c_context c' = c_context d'"
  obtain c where c: "w_conns w i = Some c" "tame c c'" using tamedD[OF t a(1)] by blast
  obtain d where d: "w_conns w j = Some d" "tame d d'" using tamedD[OF t a(2)] by blast
  show "i = j" by (rule linkedD(3)[OF l c(1) d(1)]) (use a(3-5) tameD(1,2)[OF c(2)] tameD(1,2)[OF d(2)] in simp_all)
next
  fix i c' assume a: "w_conns w' i = Some c'" "c_kind c' = Server"
  obtain c where c: "w_conns w i = Some c" "tame c c'" using tamedD[OF t a(1)] by blast
  then show "server_conn (w_contexts w' (c_context c')) = Some i"
    using linkedD(4)[OF l c(1)] a(2) tameD(1,2)[OF c(2)] by (simp add: x)
next
  fix k i assume "server_conn (w_contexts w' k) = Some i"
  then show "i \<le> w_counter w' \<and> (\<forall>c. w_conns w' i = Some c \<longrightarrow> c_kind c = Server \<and> c_context c = k)"
    using tamedD[OF t, of i] linkedD(5)[OF l, of k i] n by (auto simp: x dest: tameD(1,2)) (metis tameD(1,2))+
next
  fix k i assume a: "client_conn (w_contexts w' k) = Some i"
  have "c_kind c' = Client \<and> c_context c' = k \<and> (c_connected c' \<or> c_stopped c')" if c': "w_conns w' i = Some c'" for c'
  proof -
    obtain c where c: "w_conns w i = Some c" "tame c c'" using tamedD[OF t c'] by blast
    then show ?thesis using linkedD(6)[OF l, of k i] a tameD[OF c(2)] by (simp add: x)
  qed
  then show "i \<le> w_counter w' \<and> (\<forall>c. w_conns w' i = Some c \<longrightarrow> c_kind c = Client \<and> c_context c = k \<and>
      (c_connected c \<or> c_stopped c))"
    using linkedD(6)[OF l, of k i] a n by (simp add: x)
qed (use assms linkedD(2)[OF l] in fastforce)

lemma guardedI:
  assumes "\<And>i c d. w_conns w i = Some c \<Longrightarrow> c_kind c = Client \<Longrightarrow> Ready (Write_op i d) Aborted \<in># jobs w \<Longrightarrow>
        c_connected c \<or> c_stopped c"
    and "\<And>i c. w_conns w i = Some c \<Longrightarrow> c_kind c = Server \<Longrightarrow> c_ssl c = None \<Longrightarrow>
        Ready (Handshake_op i) Aborted \<notin># jobs w \<and> Event_task HANDSHAKE i \<notin># jobs w"
    and "\<And>i c d. w_conns w i = Some c \<Longrightarrow> c_kind c = Server \<Longrightarrow> c_ssl c = None \<Longrightarrow>
        https (w_contexts w (c_context c)) \<Longrightarrow> Ready (Write_op i d) Aborted \<notin># jobs w"
    and "\<And>i c. w_conns w i = Some c \<Longrightarrow> c_kind c = Server \<Longrightarrow> c_ssl c = None \<Longrightarrow>
        https (w_contexts w (c_context c)) \<Longrightarrow> c_connected c \<Longrightarrow> Event_task CONNECT i \<in># jobs w"
  shows "guarded w"
  unfolding guarded_def using assms by blast

lemma guardedD:
  assumes "guarded w" and "w_conns w i = Some c"
  shows "c_kind c = Client \<Longrightarrow> Ready (Write_op i d) Aborted \<in># jobs w \<Longrightarrow> c_connected c \<or> c_stopped c"
    and "c_kind c = Server \<Longrightarrow> c_ssl c = None \<Longrightarrow>
        Ready (Handshake_op i) Aborted \<notin># jobs w \<and> Event_task HANDSHAKE i \<notin># jobs w"
    and "c_kind c = Server \<Longrightarrow> c_ssl c = None \<Longrightarrow>
        https (w_contexts w (c_context c)) \<Longrightarrow> Ready (Write_op i d) Aborted \<notin># jobs w"
    and "c_kind c = Server \<Longrightarrow> c_ssl c = None \<Longrightarrow>
        https (w_contexts w (c_context c)) \<Longrightarrow> c_connected c \<Longrightarrow> Event_task CONNECT i \<in># jobs w"
  using assms unfolding guarded_def by blast+

lemma guarded_tamed:
  assumes g: "guarded w" and t: "tamed w w'" and x: "w_contexts w' = w_contexts w" and j: "jobs w' = jobs w"
  shows "guarded w'"
proof (rule guardedI)
  fix i c' d assume a: "w_conns w' i = Some c'" "c_kind c' = Client" "Ready (Write_op i d) Aborted \<in># jobs w'"
  obtain c where c: "w_conns w i = Some c" "tame c c'" using tamedD[OF t a(1)] by blast
  then show "c_connected c' \<or> c_stopped c'" using a guardedD(1)[OF g c(1)] tameD[OF c(2)] by (simp add: j)
next
  fix i c' assume a: "w_conns w' i = Some c'" "c_kind c' = Server" "c_ssl c' = None"
  obtain c where c: "w_conns w i = Some c" "tame c c'" using tamedD[OF t a(1)] by blast
  then show "Ready (Handshake_op i) Aborted \<notin># jobs w' \<and> Event_task HANDSHAKE i \<notin># jobs w'"
    using a guardedD(2)[OF g c(1)] tameD[OF c(2)] by (simp add: j)
next
  fix i c' d assume a: "w_conns w' i = Some c'" "c_kind c' = Server" "c_ssl c' = None" "https (w_contexts w' (c_context c'))"
  obtain c where c: "w_conns w i = Some c" "tame c c'" using tamedD[OF t a(1)] by blast
  then show "Ready (Write_op i d) Aborted \<notin># jobs w'"
    using a guardedD(3)[OF g c(1)] tameD[OF c(2)] by (simp add: j x)
next
  fix i c' assume a: "w_conns w' i = Some c'" "c_kind c' = Server" "c_ssl c' = None" "https (w_contexts w' (c_context c'))"
    "c_connected c'"
  obtain c where c: "w_conns w i = Some c" "tame c c'" using tamedD[OF t a(1)] by blast
  then show "Event_task CONNECT i \<in># jobs w'"
    using a guardedD(4)[OF g c(1)] tameD[OF c(2)] by (simp add: j x)
qed

lemma placed_tamed: "placed w x \<Longrightarrow> tamed w w' \<Longrightarrow> w_counter w \<le> w_counter w' \<Longrightarrow> placed w' x"
  by (fastforce simp: placed_def dest: tamedD tameD(2))

lemma lawful_tamed:
  assumes "lawful K D w" and "tamed w w'" and "w_contexts w' = w_contexts w" and "jobs w' = jobs w"
    and "w_counter w \<le> w_counter w'" and "w_next_context w \<le> w_next_context w'"
  shows "lawful K D w'"
  using linked_tamed[OF lawfulD(1)[OF assms(1)] assms(2-)] guarded_tamed[OF lawfulD(2)[OF assms(1)] assms(2-4)]
    order_trans[OF activities_tamed[OF assms(2-4)] lawfulD(3)[OF assms(1)]] placed_tamed[OF lawfulD(4)[OF assms(1)] assms(2,5)]
  by (intro lawfulI) auto


lemma tame_refl [simp]: "tame c c"
  by (simp add: tame_def)

lemma tamed_same: "w_conns w' = w_conns w \<Longrightarrow> tamed w w'"
  by (simp add: tamed_def)

lemma lawful_same:
  assumes "lawful K D w" and "w_conns w' = w_conns w" and "w_contexts w' = w_contexts w" and "jobs w' = jobs w"
    and "w_counter w' = w_counter w" and "w_next_context w' = w_next_context w"
  shows "lawful K D w'"
  by (rule lawful_tamed[OF assms(1) tamed_same]) (use assms in simp_all)

lemma jobs_same: "w_ops w' = w_ops w \<Longrightarrow> w_queue w' = w_queue w \<Longrightarrow> jobs w' = jobs w"
  by (simp add: jobs_def)

lemma jobs_simps [simp]:
  "jobs (modify i f w) = jobs w" "jobs (set_context k g w) = jobs w" "jobs (mgr_add kd i w) = jobs w"
  "jobs (mgr_erase kd i w) = jobs w" "jobs (w\<lparr>w_certs := cm\<rparr>) = jobs w" "jobs (w\<lparr>w_current := cur\<rparr>) = jobs w"
  "jobs (w\<lparr>w_next_context := n\<rparr>) = jobs w" "jobs (w\<lparr>w_client_mgr := l\<rparr>) = jobs w"
  "jobs (w\<lparr>w_server_mgr := l\<rparr>) = jobs w" "jobs (w\<lparr>w_pinned := l\<rparr>) = jobs w" "jobs (w\<lparr>w_thrown := b\<rparr>) = jobs w"
  "jobs (release w) = jobs w" "jobs (w\<lparr>w_conns := cs\<rparr>) = jobs w" "jobs (w\<lparr>w_counter := n\<rparr>) = jobs w"
  by (auto intro!: jobs_same simp: mgr_add_def mgr_erase_def release_def split: conn_kind.split)

lemma jobs_initiate [simp]: "jobs (initiate p w) = add_mset (Ready p Aborted) (jobs w)"
  by (simp add: jobs_def initiate_def)

lemma jobs_post [simp]: "jobs (post t w) = add_mset (plain t) (jobs w)"
  by (simp add: jobs_def post_def)

lemma mset_split: "{#f p. p \<in># mset (filter (\<lambda>p. \<not> Q p) ps)#} + {#f p. p \<in># mset (filter Q ps)#} = {#f p. p \<in># mset ps#}"
  by (induction ps) auto

lemma jobs_cancel [simp]: "jobs (cancel_waits i w) = jobs w"
  using mset_split[of "\<lambda>p. Ready p Aborted" "is_timer_of i" "w_ops w"]
  by (simp add: jobs_def cancel_waits_def image_mset.compositionality o_def ac_simps)

lemma jobs_close [simp]: "jobs (close_acceptor w) = jobs w"
  using mset_split[of "\<lambda>p. Ready p Aborted" is_accept "w_ops w"]
  by (simp add: jobs_def close_acceptor_def image_mset.compositionality o_def ac_simps)

lemma next_context_simps [simp]:
  "w_next_context (modify i f w) = w_next_context w" "w_next_context (set_context k g w) = w_next_context w"
  "w_next_context (initiate p w) = w_next_context w" "w_next_context (post t w) = w_next_context w"
  "w_next_context (cancel_waits i w) = w_next_context w" "w_next_context (close_acceptor w) = w_next_context w"
  "w_next_context (mgr_add kd i w) = w_next_context w" "w_next_context (mgr_erase kd i w) = w_next_context w"
  "w_next_context (release w) = w_next_context w"
  by (simp_all add: modify_def set_context_def initiate_def post_def cancel_waits_def close_acceptor_def mgr_add_def
      mgr_erase_def release_def split: conn_kind.split)

lemma close_simps [simp]:
  "w_conns (close_acceptor w) = w_conns w" "w_contexts (close_acceptor w) = w_contexts w" "w_counter (close_acceptor w) = w_counter w"
  by (simp_all add: close_acceptor_def)

lemma mgr_add_same [simp]:
  "w_conns (mgr_add kd i w) = w_conns w" "w_contexts (mgr_add kd i w) = w_contexts w" "w_counter (mgr_add kd i w) = w_counter w"
  by (simp_all add: mgr_add_def split: conn_kind.split)

lemma lawful_updates [simp]:
  "lawful K D w \<Longrightarrow> lawful K D (cancel_waits i w)" "lawful K D w \<Longrightarrow> lawful K D (close_acceptor w)"
  "lawful K D w \<Longrightarrow> lawful K D (mgr_add kd i w)" "lawful K D w \<Longrightarrow> lawful K D (mgr_erase kd i w)"
  "lawful K D w \<Longrightarrow> lawful K D (w\<lparr>w_certs := cm\<rparr>)" "lawful K D w \<Longrightarrow> lawful K D (w\<lparr>w_current := cur\<rparr>)"
  "lawful K D w \<Longrightarrow> lawful K D (w\<lparr>w_client_mgr := l\<rparr>)" "lawful K D w \<Longrightarrow> lawful K D (w\<lparr>w_server_mgr := l\<rparr>)"
  "lawful K D w \<Longrightarrow> lawful K D (w\<lparr>w_pinned := l\<rparr>)" "lawful K D w \<Longrightarrow> lawful K D (w\<lparr>w_thrown := b\<rparr>)"
  by (erule lawful_same; simp)+

lemma lawful_modify:
  assumes "lawful K D w" and "\<And>c. w_conns w i = Some c \<Longrightarrow> tame c (f c)"
  shows "lawful K D (modify i f w)"
  by (rule lawful_tamed[OF assms(1)]) (use assms(2) in \<open>auto simp: tamed_def split: if_splits\<close>)

lemma lawful_release: "lawful K D w \<Longrightarrow> lawful K D (release w)"
  by (rule lawful_tamed) (auto simp: tamed_def release_def restrict_map_def split: if_splits)


section \<open>New jobs\<close>

text \<open>What must hold of the connection of a new job.\<close>

definition admissible :: "'p world \<Rightarrow> task \<Rightarrow> bool" where
  "admissible w t \<longleftrightarrow> task_id t \<le> w_counter w \<and> (\<forall>c. w_conns w (task_id t) = Some c \<longrightarrow>
     (c_kind c = Client \<and> (\<exists>i d. t = Ready (Write_op i d) Aborted) \<longrightarrow> c_connected c \<or> c_stopped c) \<and>
     (c_kind c = Server \<and> c_ssl c = None \<longrightarrow>
        (\<forall>i. t \<noteq> Ready (Handshake_op i) Aborted \<and> t \<noteq> Event_task HANDSHAKE i) \<and>
        (https (w_contexts w (c_context c)) \<longrightarrow> (\<forall>i d. t \<noteq> Ready (Write_op i d) Aborted))))"

lemma op_busy_cong: "w_conns w' = w_conns w \<Longrightarrow> op_busy w' k p = op_busy w k p"
  by (cases p) (simp_all add: belongs_def server_of_def)

lemma busy_cong: "w_conns w' = w_conns w \<Longrightarrow> busy w' k t = busy w k t"
  by (cases t) (simp_all add: belongs_def op_busy_cong[of w' w])

lemma busy_fun: "w_conns w' = w_conns w \<Longrightarrow> busy w' k = busy w k"
  by (rule ext) (rule busy_cong)

lemma acknowledging_cong: "w_conns w' = w_conns w \<Longrightarrow> w_contexts w' = w_contexts w \<Longrightarrow> acknowledging w' k = acknowledging w k"
  by (simp add: acknowledging_def)

lemma activities_add:
  assumes "w_conns w' = w_conns w" and "w_contexts w' = w_contexts w" and "jobs w' = add_mset t (jobs w)"
  shows "activities w' k = activities w k + of_bool (busy w k t)"
  using acknowledging_cong[OF assms(1,2), of k] by (simp add: activities_def assms(2,3) busy_fun[OF assms(1)])

lemma lawful_add:
  assumes l: "lawful K D w" and c: "w_conns w' = w_conns w" and x: "w_contexts w' = w_contexts w"
    and j: "jobs w' = add_mset t (jobs w)" and n: "w_counter w' = w_counter w" "w_next_context w' = w_next_context w"
    and t: "admissible w t" and b: "\<And>k. busy w k t \<Longrightarrow> k \<in> K \<and> k \<notin> K'" and "K' \<subseteq> K"
  shows "lawful K' D w'"
proof (rule lawfulI)
  have i: "task_id t \<le> w_counter w" using t by (simp add: admissible_def)
  show "linked w'"
    by (rule linkedI) (use linkedD[OF lawfulD(1)[OF l]] i in \<open>auto simp: c x j n\<close>)
  show "guarded w'"
  proof (rule guardedI)
    note g = guardedD[OF lawfulD(2)[OF l]]
    fix i c' d assume a: "w_conns w' i = Some c'" "c_kind c' = Client" "Ready (Write_op i d) Aborted \<in># jobs w'"
    then show "c_connected c' \<or> c_stopped c'" using t g(1)[of i c' d] by (auto simp: c j admissible_def)
  next
    note g = guardedD[OF lawfulD(2)[OF l]]
    fix i c' assume a: "w_conns w' i = Some c'" "c_kind c' = Server" "c_ssl c' = None"
    then show "Ready (Handshake_op i) Aborted \<notin># jobs w' \<and> Event_task HANDSHAKE i \<notin># jobs w'"
      using t g(2)[of i c'] by (auto simp: c j admissible_def)
  next
    note g = guardedD[OF lawfulD(2)[OF l]]
    fix i c' d assume a: "w_conns w' i = Some c'" "c_kind c' = Server" "c_ssl c' = None" "https (w_contexts w' (c_context c'))"
    then show "Ready (Write_op i d) Aborted \<notin># jobs w'" using t g(3)[of i c' d] by (auto simp: c j x admissible_def)
  next
    note g = guardedD[OF lawfulD(2)[OF l]]
    fix i c' assume a: "w_conns w' i = Some c'" "c_kind c' = Server" "c_ssl c' = None" "https (w_contexts w' (c_context c'))"
      "c_connected c'"
    then show "Event_task CONNECT i \<in># jobs w'" using g(4)[of i c'] by (simp add: c j x)
  qed
  show "activities w' k \<le> of_bool (k \<notin> K')" for k
    using lawfulD(3)[OF l, of k] b[of k] \<open>K' \<subseteq> K\<close> by (auto simp: activities_add[OF c x j] of_bool_def split: if_splits)
  show "placed w' y" if "y \<in> D" for y
    using lawfulD(4)[OF l that] by (simp add: placed_def c n)
qed

lemma lawful_initiate:
  assumes "lawful K D w" and "admissible w (Ready p Aborted)" and "\<And>k. op_busy w k p \<Longrightarrow> k \<in> K \<and> k \<notin> K'" and "K' \<subseteq> K"
  shows "lawful K' D (initiate p w)"
  by (rule lawful_add[OF assms(1), where t = "Ready p Aborted"]) (use assms(2-) in auto)

lemma lawful_post:
  assumes "lawful K D w" and "admissible w t" and "plain t = t" and "\<And>k. busy w k t \<Longrightarrow> k \<in> K \<and> k \<notin> K'" and "K' \<subseteq> K"
  shows "lawful K' D (post t w)"
  by (rule lawful_add[OF assms(1), where t = t]) (use assms(2-) in auto)

text \<open>The operations of a connection whose context is idle.\<close>

lemma belongs_in: "lawful K D w \<Longrightarrow> (i, k) \<in> D \<Longrightarrow> belongs w k' i \<Longrightarrow> k' = k"
  by (auto simp: belongs_def dest: lawful_in)

lemma lawful_activity:
  assumes "lawful {k} D w" and "(i, k) \<in> D" and "p \<in> {Read_op i, Resolve_op i, Connect_op i, Accept_op i}"
  shows "lawful {} D (initiate p w)"
  using assms(3) belongs_in[OF assms(1,2)] lawful_id[OF assms(1,2)]
  by (intro lawful_initiate[OF assms(1)]) (auto simp: admissible_def)

lemma lawful_timer:
  "lawful K D w \<Longrightarrow> (i, k) \<in> D \<Longrightarrow> lawful K D (initiate (Timer_op i t n) w)"
  by (rule lawful_initiate) (auto simp: admissible_def dest: lawful_id)

lemma lawful_event:
  assumes "lawful {k} D w" and "(i, k) \<in> D"
  shows "lawful {} D (post (Event_task READ i) w)" "lawful {} D (post (Event_task CONNECT i) w)"
  using belongs_in[OF assms] lawful_id[OF assms] by (auto intro!: lawful_post[OF assms(1)] simp: admissible_def)

lemma lawful_quiet:
  assumes "lawful K D w" and "(i, k) \<in> D"
  shows "lawful K D (post (Event_task WRITE i) w)" "lawful K D (post (Stop_task i) w)"
  using lawful_id[OF assms] by (auto intro!: lawful_post[OF assms(1)] simp: admissible_def)

lemma lawful_stop_task:
  assumes "lawful K D w" and "w_conns w i = Some c"
  shows "lawful K D (post (Stop_task i) w)"
  using linkedD(1)[OF lawfulD(1)[OF assms(1)] assms(2)] by (auto intro!: lawful_post[OF assms(1)] simp: admissible_def)


text \<open>A change of a context that is not about TLS or the end of an exchange.\<close>

lemma lawful_context:
  assumes l: "lawful K D w"
    and g: "\<And>x. https (g x) = https x \<and> ssl_setup (g x) = ssl_setup x \<and> exchange_completed (g x) = exchange_completed x"
    and s: "server_conn (g (w_contexts w k)) = server_conn (w_contexts w k)"
    and c: "\<And>i. client_conn (g (w_contexts w k)) = Some i \<Longrightarrow> i \<le> w_counter w \<and> (\<forall>c. w_conns w i = Some c \<longrightarrow>
          c_kind c = Client \<and> c_context c = k \<and> (c_connected c \<or> c_stopped c))"
  shows "lawful K D (set_context k g w)"
proof (rule lawfulI)
  let ?w = "set_context k g w"
  have x: "w_contexts ?w j = (if j = k then g (w_contexts w k) else w_contexts w j)" for j by (simp add: set_context_def)
  have h: "https (w_contexts ?w j) = https (w_contexts w j)" "ssl_setup (w_contexts ?w j) = ssl_setup (w_contexts w j)"
    "exchange_completed (w_contexts ?w j) = exchange_completed (w_contexts w j)"
    "server_conn (w_contexts ?w j) = server_conn (w_contexts w j)" for j
    using g s by (simp_all add: x)
  note d = linkedD[OF lawfulD(1)[OF l]]
  show "linked ?w"
  proof (rule linkedI)
    fix j i assume "client_conn (w_contexts ?w j) = Some i"
    then show "i \<le> w_counter ?w \<and> (\<forall>c. w_conns ?w i = Some c \<longrightarrow>
        c_kind c = Client \<and> c_context c = j \<and> (c_connected c \<or> c_stopped c))"
      using c[of i] d(6)[of j i] by (simp add: x split: if_splits)
  next
    fix j i assume "server_conn (w_contexts ?w j) = Some i"
    then show "i \<le> w_counter ?w \<and> (\<forall>c. w_conns ?w i = Some c \<longrightarrow> c_kind c = Server \<and> c_context c = j)"
      using d(5)[of j i] by (simp add: h)
  next
    fix i c assume "w_conns ?w i = Some c" "c_kind c = Server"
    then show "server_conn (w_contexts ?w (c_context c)) = Some i" using d(4)[of i c] by (simp add: h)
  next
    fix t assume "t \<in># jobs ?w"
    then show "task_id t \<le> w_counter ?w" using d(2) by simp
  qed (use d(1,3) in auto)
  show "guarded ?w" using lawfulD(2)[OF l] by (simp add: guarded_def h)
  show "activities ?w j \<le> of_bool (j \<notin> K)" for j
    using lawfulD(3)[OF l, of j] by (simp add: activities_def acknowledging_def h busy_fun[of ?w w])
  show "placed ?w y" if "y \<in> D" for y
    using lawfulD(4)[OF l that] by (simp add: placed_def)
qed

section \<open>Operations of a connection\<close>

lemma lawful_modify_member [simp]:
  "lawful K D w \<Longrightarrow> lawful K D (modify i (\<lambda>c. c\<lparr>c_writing := b\<rparr>) w)"
  "lawful K D w \<Longrightarrow> lawful K D (modify i (\<lambda>c. c\<lparr>c_buffer_out := bs\<rparr>) w)"
  "lawful K D w \<Longrightarrow> lawful K D (modify i (\<lambda>c. c\<lparr>c_managed := m\<rparr>) w)"
  "lawful K D w \<Longrightarrow> lawful K D (modify i (\<lambda>c. c\<lparr>c_host := h, c_port := p\<rparr>) w)"
  "lawful K D w \<Longrightarrow> lawful K D (modify i (\<lambda>c. c\<lparr>c_decoder := d, c_message := msg\<rparr>) w)"
  "lawful K D w \<Longrightarrow> lawful K D (modify i (\<lambda>c. c\<lparr>c_timer := (c_timer c)\<lparr>running := b\<rparr>\<rparr>) w)"
  "lawful K D w \<Longrightarrow> lawful K D (modify i (\<lambda>c. c\<lparr>c_timer := (c_timer c)\<lparr>triggered := b\<rparr>\<rparr>) w)"
  "lawful K D w \<Longrightarrow> lawful K D (push_encoded i e buf w)"
  "lawful K D w \<Longrightarrow> lawful K D (connection_reset i w)"
  "lawful K D w \<Longrightarrow> lawful K D (reset_codec api i w)"
  unfolding push_encoded_def connection_reset_def reset_codec_def
  by (erule lawful_modify, simp add: tame_def)+

lemma lawful_timer_cancel: "lawful K D w \<Longrightarrow> whenever (timer_cancel i w) (lawful K D)"
  by (simp add: timer_cancel_def)

lemma lawful_timer_start: "lawful K D w \<Longrightarrow> (i, k) \<in> D \<Longrightarrow> whenever (timer_start i t n w) (lawful K D)"
  by (auto simp: timer_start_def intro!: lawful_modify_member lawful_timer lawful_updates)

lemma lawful_read: "lawful {k} D w \<Longrightarrow> (i, k) \<in> D \<Longrightarrow> whenever (read i w) (lawful {} D)"
  by (auto simp: read_def intro!: lawful_activity)

lemma lawful_start:
  assumes l: "lawful {k} D w" and i: "(i, k) \<in> D"
  shows "whenever (start i w) (lawful {} D)"
proof -
  have client: "whenever (client_start i w) (lawful {} D)" if c: "w_conns w i = Some c" "c_kind c = Client" for c
  proof -
    let ?w = "modify i (\<lambda>c. c\<lparr>c_connected := True\<rparr>) w"
    have "lawful {k} D ?w" by (rule lawful_modify[OF l]) (use c in \<open>simp add: tame_def\<close>)
    then have "lawful {k} D (set_context (c_context c) (\<lambda>x. x\<lparr>client_conn := Some i\<rparr>) ?w)"
      by (rule lawful_context) (use c lawful_id[OF l i] in auto)
    then show ?thesis using c i by (simp add: client_start_def Let_def lawful_read)
  qed
  have server: "whenever (server_start i w) (lawful {} D)" if c: "w_conns w i = Some c" "c_kind c = Server" for c
  proof -
    have s: "server_conn (w_contexts w (c_context c)) = Some i" using linkedD(4)[OF lawfulD(1)[OF l] c] .
    have "lawful {k} D (set_context (c_context c) (\<lambda>x. x\<lparr>server_conn := Some i\<rparr>) w)"
      by (rule lawful_context[OF l]) (use s linkedD(6)[OF lawfulD(1)[OF l]] in auto)
    then show ?thesis using c i by (auto simp: server_start_def server_connect_def intro!: lawful_activity)
  qed
  show ?thesis using client server by (auto simp: start_def split: conn_kind.split)
qed

lemma halt_same:
  "w_contexts (halt i n c w) = w_contexts w" "w_counter (halt i n c w) = w_counter w"
  "w_next_context (halt i n c w) = w_next_context w"
  "jobs (halt i n c w) = (if n then add_mset (Stop_task i) (jobs w) else jobs w)"
  by (simp_all add: halt_def Let_def)

lemma lawful_halt:
  assumes l: "lawful K D w" and c: "w_conns w i = Some c"
  shows "lawful K D (halt i n c w)"
proof -
  let ?v = "modify i (\<lambda>c. c\<lparr>c_connected := False, c_stopped := True\<rparr>) w"
  have v: "lawful K D ?v" by (rule lawful_modify[OF l]) (simp add: tame_def)
  have "w_conns (halt i n c w) = w_conns ?v" by (rule ext) (simp add: halt_conns[OF c] c)
  then show ?thesis
  proof (cases n)
    case True
    show ?thesis
      by (rule lawful_same[OF lawful_stop_task[OF v, of i "c\<lparr>c_connected := False, c_stopped := True\<rparr>"]])
         (use True c \<open>w_conns (halt i n c w) = w_conns ?v\<close> in \<open>simp_all add: halt_same\<close>)
  next
    case False
    then show ?thesis
      by (intro lawful_same[OF v]) (use \<open>w_conns (halt i n c w) = w_conns ?v\<close> in \<open>simp_all add: halt_same\<close>)
  qed
qed

lemma lawful_stop: "lawful K D w \<Longrightarrow> whenever (stop i n w) (lawful K D)"
  by (auto simp: stop_def timer_cancel_def intro!: lawful_halt)

lemma lawful_on_timer: "lawful K D w \<Longrightarrow> whenever (on_timer i n r w) (lawful K D)"
  by (auto simp: on_timer_def Let_def split: outcome.split intro!: lawful_stop)


section \<open>Writing\<close>

text \<open>A write to a client is no activity; the first write to a server must not come before TLS.\<close>

definition writable :: "'p world \<Rightarrow> nat \<Rightarrow> bool" where
  "writable w i \<longleftrightarrow> (\<forall>c. w_conns w i = Some c \<longrightarrow> c_kind c = Server \<and>
     (https (w_contexts w (c_context c)) \<and> c_connected c \<longrightarrow> c_ssl c \<noteq> None))"

lemma writable_modify [simp]:
  "writable (modify j (\<lambda>c. c\<lparr>c_buffer_out := bs\<rparr>) w) i = writable w i"
  "writable (modify j (\<lambda>c. c\<lparr>c_writing := b\<rparr>) w) i = writable w i"
  "writable (push_encoded j e buf w) i = writable w i"
  "writable (cancel_waits j w) i = writable w i"
  by (cases "j = i"; cases "w_conns w i"; simp add: writable_def push_encoded_def)+

lemma lawful_client_write:
  assumes l: "lawful K D w" and c: "w_conns w i = Some c" "c_kind c = Client" "c_connected c"
  shows "lawful K D (initiate (Write_op i d) w)"
  by (rule lawful_initiate[OF l])
     (use c linkedD(1)[OF lawfulD(1)[OF l] c(1)] in \<open>auto simp: admissible_def server_of_def\<close>)

lemma lawful_server_write:
  assumes l: "lawful {k} D w" and i: "(i, k) \<in> D" and c: "w_conns w i = Some c" "c_connected c" and "writable w i"
  shows "lawful {} D (initiate (Write_op i d) w)"
  by (rule lawful_initiate[OF l])
     (use c lawful_id[OF l i] lawful_in[OF l i] assms(5) in \<open>auto simp: admissible_def server_of_def writable_def\<close>)

lemma lawful_do_write_client:
  assumes l: "lawful K D w" and c: "w_conns w i = Some c" "c_kind c = Client" "c_connected c"
  shows "whenever (do_write i w) (lawful K D)"
proof -
  have "lawful K D (initiate (Write_op i d) (modify i (\<lambda>c. c\<lparr>c_writing := True\<rparr>) w))" for d
    by (rule lawful_client_write[of _ _ _ _ "c\<lparr>c_writing := True\<rparr>"]) (use l c in auto)
  then show ?thesis using l c by (auto simp: do_write_def split: list.split)
qed

lemma lawful_do_write_server:
  assumes l: "lawful {k} D w" and i: "(i, k) \<in> D" and s: "writable w i"
  shows "whenever (do_write i w) (lawful {} D)"
proof -
  have "lawful {} D (initiate (Write_op i d) (modify i (\<lambda>c. c\<lparr>c_writing := True\<rparr>) w))"
    if "w_conns w i = Some c" "c_connected c" for c d
    by (rule lawful_server_write[of k _ _ i "c\<lparr>c_writing := True\<rparr>"]) (use l i s that in auto)
  then show ?thesis using l i
    by (auto simp: do_write_def split: list.split intro: lawful_less lawful_start)
qed

lemma lawful_write_out:
  assumes "lawful {k} D w" and "(i, k) \<in> D" and "writable w i"
  shows "whenever (write_out i w) (lawful {} D)"
  using assms by (auto simp: write_out_def timer_cancel_def intro!: lawful_do_write_server)

lemmas codec_any = whenever_any[of _ "new_buffer 0"] whenever_any[of _ "encode m e b" for m e b]
  whenever_any[of _ "decode api x d m" for api x d m] whenever_any[of _ "buffer_erase a b x" for a b x]
  whenever_any[of _ "make_response t" for t]

lemma lawful_write_message_client:
  assumes l: "lawful K D w" and c: "w_conns w i = Some c" "c_kind c = Client" "c_connected c \<or> c_stopped c"
  shows "whenever (write_message i m w) (lawful K D)"
proof -
  have "whenever (do_write i (push_encoded i e buf v)) (lawful K D)"
    if "\<not> c_stopped c" "v = w \<or> v = cancel_waits i w" for e buf v
  proof (rule lawful_do_write_client)
    show "w_conns (push_encoded i e buf v) i = Some (c\<lparr>c_encoder := e,
        c_buffer_out := (if bb_size buf > 0 then c_buffer_out c @ [buf] else c_buffer_out c)\<rparr>)"
      using that c by (subst push_encoded_conn[of _ _ c]) auto
  qed (use l c that in auto)
  then show ?thesis using c by (auto simp: write_message_def timer_cancel_def intro!: codec_any)
qed

lemma lawful_write_message_server:
  assumes "lawful {k} D w" and "(i, k) \<in> D" and "writable w i"
  shows "whenever (write_message i m w) (lawful {} D)"
  using assms by (auto simp: write_message_def timer_cancel_def intro!: codec_any lawful_do_write_server)

lemma lawful_on_written_client:
  assumes l: "lawful K D w" and i: "(i, k) \<in> D" and c: "w_conns w i = Some c" "c_kind c = Client" "c_connected c \<or> c_stopped c"
  shows "whenever (on_written i r w) (lawful K D)"
proof -
  let ?u = "modify i (\<lambda>c. c\<lparr>c_writing := False\<rparr>) w"
  have "whenever (do_write i (modify i (\<lambda>c. c\<lparr>c_buffer_out := bs\<rparr>) ?u)) (lawful K D)" if "\<not> c_stopped c" for bs
    by (rule lawful_do_write_client[of _ _ _ _ "c\<lparr>c_writing := False, c_buffer_out := bs\<rparr>"]) (use l c that in auto)
  moreover have "whenever (on_write i (modify i (\<lambda>c. c\<lparr>c_buffer_out := bs\<rparr>) ?u)) (lawful K D)" for bs
    using l i c by (auto simp: on_write_def client_on_write_def intro!: lawful_quiet)
  moreover have "whenever (stop i True ?u) (lawful K D)" using l by (intro lawful_stop) simp
  ultimately show ?thesis using l c(1) by (auto simp: on_written_def Let_def split: outcome.split list.split intro!: codec_any)
qed

lemma lawful_on_written_server:
  assumes l: "lawful {k} D w" and i: "(i, k) \<in> D" and s: "writable w i"
  shows "whenever (on_written i r w) (lawful {} D)"
proof -
  let ?u = "modify i (\<lambda>c. c\<lparr>c_writing := False\<rparr>) w"
  have "whenever (do_write i (modify i (\<lambda>c. c\<lparr>c_buffer_out := bs\<rparr>) ?u)) (lawful {} D)" for bs
    by (rule lawful_do_write_server[of k]) (use l i s in auto)
  moreover have "whenever (on_write i (modify i (\<lambda>c. c\<lparr>c_buffer_out := bs\<rparr>) ?u)) (lawful {} D)"
    if "w_conns w i = Some c" for c bs
  proof -
    have "lawful {k} D (modify i (\<lambda>c. c\<lparr>c_buffer_out := bs\<rparr>) ?u)" using l by simp
    moreover have "c_kind c = Server" using s that by (simp add: writable_def)
    ultimately show ?thesis using i that
      by (auto simp: on_write_def server_on_write_def intro: lawful_less intro!: lawful_read)
  qed
  moreover have "lawful {} D ?u" using l by (auto dest: lawful_less)
  moreover have "whenever (stop i True ?u) (lawful {} D)" using calculation(3) by (rule lawful_stop)
  ultimately show ?thesis by (auto simp: on_written_def Let_def split: outcome.split list.split intro!: codec_any)
qed


section \<open>Taking a handler from the queue\<close>

lemma busy_belongs: "busy w k t \<Longrightarrow> belongs w k (task_id t)"
  by (cases t; cases "case t of Ready p r \<Rightarrow> p | _ \<Rightarrow> Signal_op") (auto simp: belongs_def server_of_def)

text \<open>
  The context of the handler that is taken from the queue is idle afterwards. An event CONNECT may be
  taken when its connection need not wait for it any more.
\<close>

lemma busy_plain [simp]: "busy w k (plain t) = busy w k t"
  by (cases t) simp_all

lemma lawful_pop:
  assumes l: "lawful {} D w" and q: "w_queue w = t # q"
    and c: "\<And>i c. t = Event_task CONNECT i \<Longrightarrow> w_conns w i = Some c \<Longrightarrow> c_kind c = Server \<Longrightarrow>
        https (w_contexts w (c_context c)) \<Longrightarrow> c_connected c \<Longrightarrow> c_ssl c \<noteq> None"
  shows "lawful {k. busy w k t} D (w\<lparr>w_queue := q, w_pinned := refs\<rparr>)"
proof (rule lawfulI)
  let ?v = "w\<lparr>w_queue := q, w_pinned := refs\<rparr>"
  have j: "jobs w = add_mset (plain t) (jobs ?v)" by (simp add: jobs_def q)
  note d = linkedD[OF lawfulD(1)[OF l]] and g = guardedD[OF lawfulD(2)[OF l]]
  show "linked ?v"
  proof (rule linkedI)
    fix t' assume "t' \<in># jobs ?v"
    then show "task_id t' \<le> w_counter ?v" using d(2)[of t'] by (simp add: j)
  qed (use d(1,3-6) in auto)
  show "guarded ?v"
  proof (rule guardedI)
    fix i c assume a: "w_conns ?v i = Some c" "c_kind c = Server" "c_ssl c = None"
      "https (w_contexts ?v (c_context c))" "c_connected c"
    then have "Event_task CONNECT i \<in># jobs w" using g(4)[of i c] by simp
    moreover have "plain t \<noteq> Event_task CONNECT i" using c[of i c] a by (cases t) auto
    ultimately show "Event_task CONNECT i \<in># jobs ?v" by (simp add: j)
  next
    fix i c d assume "w_conns ?v i = Some c" "c_kind c = Client" "Ready (Write_op i d) Aborted \<in># jobs ?v"
    then show "c_connected c \<or> c_stopped c" using g(1)[of i c d] by (simp add: j)
  next
    fix i c assume "w_conns ?v i = Some c" "c_kind c = Server" "c_ssl c = None"
    then show "Ready (Handshake_op i) Aborted \<notin># jobs ?v \<and> Event_task HANDSHAKE i \<notin># jobs ?v"
      using g(2)[of i c] by (simp add: j)
  next
    fix i c d assume "w_conns ?v i = Some c" "c_kind c = Server" "c_ssl c = None" "https (w_contexts ?v (c_context c))"
    then show "Ready (Write_op i d) Aborted \<notin># jobs ?v" using g(3)[of i c d] by (simp add: j)
  qed
  show "activities ?v k \<le> of_bool (k \<notin> {k. busy w k t})" for k
  proof -
    have "activities w k = activities ?v k + of_bool (busy w k t)"
      using activities_add[of w ?v "plain t" k] busy_cong[of ?v w k t] j by simp
    then show ?thesis using lawfulD(3)[OF l, of k] by (cases "busy w k t") auto
  qed
  show "placed ?v x" if "x \<in> D" for x using lawfulD(4)[OF l that] by (simp add: placed_def)
qed

section \<open>Switching to TLS, and connecting\<close>

lemma lawful_ssl: "lawful K D w \<Longrightarrow> lawful K D (modify i (\<lambda>c. c\<lparr>c_ssl := Some s\<rparr>) w)"
  by (erule lawful_modify) (simp add: tame_def)

text \<open>For the client of a context that waits for it, this ends the acknowledgement.\<close>

lemma lawful_client_ssl:
  assumes l: "lawful {} D w" and c: "w_conns w i = Some c" "c_kind c = Client" "c_ssl c = None"
    and x: "https (w_contexts w (c_context c))" "\<not> ssl_setup (w_contexts w (c_context c))"
  shows "lawful {c_context c} D (modify i (\<lambda>c. c\<lparr>c_ssl := Some s\<rparr>) w)"
proof (rule lawfulI)
  let ?v = "modify i (\<lambda>c. c\<lparr>c_ssl := Some s\<rparr>) w" and ?k = "c_context c"
  have v: "lawful {} D ?v" by (rule lawful_ssl[OF l])
  then show "linked ?v" "guarded ?v" "\<And>y. y \<in> D \<Longrightarrow> placed ?v y" by (simp_all add: lawfulD)
  have t: "tamed w ?v" by (auto simp: tamed_def tame_def split: if_splits)
  have "acknowledging w ?k" using c x by (auto simp: acknowledging_def)
  moreover have "\<not> acknowledging ?v ?k"
  proof
    assume "acknowledging ?v ?k"
    then obtain j d where "w_conns ?v j = Some d" "c_kind d = Client" "c_context d = ?k" "c_ssl d = None"
      by (auto simp: acknowledging_def)
    then have "w_conns w j = Some d" "j \<noteq> i" by (auto split: if_splits)
    then show False using linkedD(3)[OF lawfulD(1)[OF l], of j d i c] c \<open>c_kind d = Client\<close> \<open>c_context d = ?k\<close> by simp
  qed
  ultimately have "activities ?v ?k = 0"
    using lawfulD(3)[OF l, of ?k] tamed_busy[OF t, of ?k] by (auto simp: activities_def)
  then show "activities ?v k \<le> of_bool (k \<notin> {?k})" for k using lawfulD(3)[OF v, of k] by (cases "k = ?k") auto
qed

lemma lawful_client_handshake:
  assumes l: "lawful {} D w" and i: "(i, k) \<in> D" and c: "w_conns w i = Some c" "c_kind c = Client"
    and x: "https (w_contexts w (c_context c))" "\<not> ssl_setup (w_contexts w (c_context c))"
  shows "whenever (client_handshake ca d i w) (lawful {} D)"
proof -
  have "lawful {} D (initiate (Handshake_op i) (modify i (\<lambda>c. c\<lparr>c_ssl := Some s\<rparr>) w))" if "c_ssl c = None" for s
  proof (rule lawful_initiate[OF lawful_client_ssl[OF l c that x]])
    show "admissible (modify i (\<lambda>c. c\<lparr>c_ssl := Some s\<rparr>) w) (Ready (Handshake_op i) Aborted)"
      using c lawful_id[OF l i] by (simp add: admissible_def)
  qed (use c in \<open>auto simp: belongs_def\<close>)
  then show ?thesis using c by (auto simp: client_handshake_def switch_to_ssl_def async_handshake_def)
qed

lemma lawful_handshake_op:
  assumes l: "lawful {k} D w" and i: "(i, k) \<in> D" and "\<And>c. w_conns w i = Some c \<Longrightarrow> c_ssl c \<noteq> None"
  shows "lawful {} D (initiate (Handshake_op i) w)" "lawful {} D (post (Event_task HANDSHAKE i) w)"
  using assms(3) lawful_id[OF l i] belongs_in[OF l i]
  by (auto intro!: lawful_initiate[OF l] lawful_post[OF l] simp: admissible_def)

lemma lawful_connected:
  assumes l: "lawful K D w" and c: "w_conns w i = Some c" "c_kind c = Server" and e: "Event_task CONNECT i \<in># jobs w"
  shows "lawful K D (modify i (\<lambda>c. c\<lparr>c_connected := True\<rparr>) w)"
proof (rule lawfulI)
  let ?v = "modify i (\<lambda>c. c\<lparr>c_connected := True\<rparr>) w"
  note d = linkedD[OF lawfulD(1)[OF l]] and g = guardedD[OF lawfulD(2)[OF l]]
  have old: "\<exists>b. w_conns w j = Some b \<and> c_kind b = c_kind b' \<and> c_context b = c_context b' \<and> c_ssl b = c_ssl b' \<and>
      (j \<noteq> i \<longrightarrow> b = b')" if "w_conns ?v j = Some b'" for j b'
    using that by (auto split: if_splits)
  have same: "belongs ?v = belongs w" "server_of ?v = server_of w"
    by (intro ext, auto simp: belongs_def server_of_def)+
  have "busy ?v k t = busy w k t" for k t
    by (cases t; cases "case t of Ready p r \<Rightarrow> p | _ \<Rightarrow> Signal_op") (auto simp: same)
  then have busy: "busy ?v k = busy w k" for k by blast
  have "(\<exists>j b. w_conns ?v j = Some b \<and> c_kind b = Client \<and> c_context b = k \<and> c_ssl b = None) =
      (\<exists>j b. w_conns w j = Some b \<and> c_kind b = Client \<and> c_context b = k \<and> c_ssl b = None)" (is "?l = ?r") for k
  proof
    show "?l \<Longrightarrow> ?r" using old by metis
    assume ?r
    then obtain j b where b: "w_conns w j = Some b" "c_kind b = Client" "c_context b = k" "c_ssl b = None" by blast
    then have "j \<noteq> i" using c by auto
    then show ?l using b by (intro exI[of _ j] exI[of _ b]) simp
  qed
  then have "acknowledging ?v k = acknowledging w k" for k by (simp add: acknowledging_def)
  then show "activities ?v k \<le> of_bool (k \<notin> K)" for k
    using lawfulD(3)[OF l, of k] by (simp add: activities_def busy)
  show "placed ?v y" if "y \<in> D" for y
    using lawfulD(4)[OF l that] by (auto simp: placed_def)
  show "linked ?v"
  proof (rule linkedI)
    fix j b' assume "w_conns ?v j = Some b'"
    with old[OF this] d(1)[of j] show "j \<le> w_counter ?v \<and> c_context b' < w_next_context ?v" by auto
  next
    fix j j' b b' assume a: "w_conns ?v j = Some b" "w_conns ?v j' = Some b'" "c_kind b = Client" "c_kind b' = Client"
      "c_context b = c_context b'"
    then have "j \<noteq> i" "j' \<noteq> i" using c by auto
    then show "j = j'" using a d(3)[of j b j' b'] by simp
  next
    fix j b' assume a: "w_conns ?v j = Some b'" "c_kind b' = Server"
    then show "server_conn (w_contexts ?v (c_context b')) = Some j" using old[OF a(1)] d(4)[of j] by auto
  next
    fix k j assume "server_conn (w_contexts ?v k) = Some j"
    then show "j \<le> w_counter ?v \<and> (\<forall>b. w_conns ?v j = Some b \<longrightarrow> c_kind b = Server \<and> c_context b = k)"
      using d(5)[of k j] old[of j] by fastforce
  next
    fix k j assume "client_conn (w_contexts ?v k) = Some j"
    then have x: "client_conn (w_contexts w k) = Some j" by simp
    moreover have "j \<noteq> i" using d(6)[OF x] c by auto
    ultimately show "j \<le> w_counter ?v \<and> (\<forall>b. w_conns ?v j = Some b \<longrightarrow> c_kind b = Client \<and> c_context b = k \<and>
        (c_connected b \<or> c_stopped b))"
      using d(6)[of k j] by simp
  qed (use d(2) in simp)
  show "guarded ?v"
  proof (rule guardedI)
    fix j b d assume a: "w_conns ?v j = Some b" "c_kind b = Client" "Ready (Write_op j d) Aborted \<in># jobs ?v"
    then have "j \<noteq> i" using c by auto
    then show "c_connected b \<or> c_stopped b" using a g(1)[of j b d] by simp
  next
    fix j b assume a: "w_conns ?v j = Some b" "c_kind b = Server" "c_ssl b = None"
    then show "Ready (Handshake_op j) Aborted \<notin># jobs ?v \<and> Event_task HANDSHAKE j \<notin># jobs ?v"
      using old[OF a(1)] g(2)[of j] by auto
  next
    fix j b d assume a: "w_conns ?v j = Some b" "c_kind b = Server" "c_ssl b = None" "https (w_contexts ?v (c_context b))"
    then show "Ready (Write_op j d) Aborted \<notin># jobs ?v" using old[OF a(1)] g(3)[of j] by auto
  next
    fix j b assume a: "w_conns ?v j = Some b" "c_kind b = Server" "c_ssl b = None" "https (w_contexts ?v (c_context b))"
      "c_connected b"
    then show "Event_task CONNECT j \<in># jobs ?v" using e g(4)[of j b] by (cases "j = i") auto
  qed
qed


section \<open>The completion handlers\<close>

lemma lawful_server_reset: "lawful K D w \<Longrightarrow> (i, k) \<in> D \<Longrightarrow> whenever (server_reset api i w) (lawful K D)"
  by (auto simp: server_reset_def intro!: lawful_timer_start)

lemma lawful_client_reset: "lawful {k} D w \<Longrightarrow> (i, k) \<in> D \<Longrightarrow> whenever (client_reset api i w) (lawful {} D)"
  by (auto simp: client_reset_def intro!: whenever_mono[OF lawful_timer_start] lawful_read)

lemma lawful_decoded:
  assumes l: "lawful {k} D w" and i: "(i, k) \<in> D"
  shows "whenever (client_decoded i n d m j w) (lawful {} D)" "whenever (server_decoded i n d m j w) (lawful {} D)"
proof -
  let ?v = "modify i (\<lambda>c. c\<lparr>c_decoder := d, c_message := m\<rparr>) w"
  have v: "lawful {k} D ?v" using l by simp
  then have "lawful {} D ?v" by (rule lawful_less)
  with v i show "whenever (client_decoded i n d m j w) (lawful {} D)" "whenever (server_decoded i n d m j w) (lawful {} D)"
    by (auto simp: client_decoded_def server_decoded_def Let_def
        intro!: lawful_stop lawful_read lawful_timer_start lawful_event)
qed

lemma lawful_on_read_client:
  assumes l: "lawful {k} D w" and i: "(i, k) \<in> D"
  shows "whenever (client_on_read api i r w) (lawful {} D)"
  using l i lawful_less[OF l]
  by (auto simp: client_on_read_def timer_cancel_def split: outcome.split intro!: codec_any lawful_stop lawful_decoded)

lemma lawful_on_read_server:
  assumes l: "lawful {k} D w" and i: "(i, k) \<in> D" and c: "w_conns w i = Some c" "c_kind c = Server"
  shows "whenever (server_on_read api i r w) (lawful {} D)"
proof -
  have "lawful {} D (modify i (\<lambda>c. c\<lparr>c_connected := False\<rparr>) w)"
    by (rule lawful_modify[OF lawful_less[OF l]]) (use c in \<open>simp add: tame_def\<close>)
  then show ?thesis using l i lawful_less[OF l]
    by (auto simp: server_on_read_def timer_cancel_def split: outcome.split intro!: codec_any lawful_stop lawful_decoded)
qed

lemma lawful_on_resolve:
  assumes l: "lawful {k} D w" and i: "(i, k) \<in> D"
  shows "whenever (server_on_resolve i r w) (lawful {} D)"
  using l i lawful_less[OF l] by (auto simp: server_on_resolve_def split: outcome.split intro!: lawful_stop lawful_activity)

lemma lawful_on_connect:
  assumes l: "lawful {k} D w" and i: "(i, k) \<in> D" and c: "w_conns w i = Some c" "c_kind c = Server"
  shows "whenever (server_on_connect i r w) (lawful {} D)"
proof -
  have "lawful {} D (modify i (\<lambda>c. c\<lparr>c_connected := True\<rparr>) (post (Event_task CONNECT i) w))"
    by (rule lawful_connected[OF lawful_event(2)[OF l i]]) (use c in auto)
  moreover have "modify i (\<lambda>c. c\<lparr>c_connected := True\<rparr>) (post (Event_task CONNECT i) w) =
      post (Event_task CONNECT i) (modify i (\<lambda>c. c\<lparr>c_connected := True\<rparr>) w)"
    by (simp add: modify_def post_def)
  ultimately show ?thesis using lawful_less[OF l]
    by (auto simp: server_on_connect_def split: outcome.split intro!: lawful_stop)
qed

lemma lawful_on_handshake_server:
  assumes l: "lawful {k} D w" and i: "(i, k) \<in> D" and c: "\<And>c. w_conns w i = Some c \<Longrightarrow> c_ssl c \<noteq> None"
  shows "whenever (server_on_handshake i r w) (lawful {} D)"
  using lawful_less[OF l] lawful_handshake_op(2)[OF l i c]
  by (auto simp: server_on_handshake_def split: outcome.split intro!: lawful_stop)

lemma lawful_on_handshake_client:
  assumes l: "lawful {k} D w" and i: "(i, k) \<in> D" and c: "w_conns w i = Some c" "c_kind c = Client"
  shows "whenever (client_on_handshake api i r w) (lawful {} D)"
proof -
  have "lawful {k} D (reset_codec api i w)" using l by simp
  then have "lawful {} D (post (Event_task HANDSHAKE i) (reset_codec api i w))"
    using c i lawful_id[OF l i] belongs_in[OF _ i, of "{k}" "reset_codec api i w"]
    by (intro lawful_post[where K = "{k}"]) (auto simp: admissible_def reset_codec_def)
  then show ?thesis using lawful_less[OF l]
    by (auto simp: client_on_handshake_def split: outcome.split intro!: lawful_stop)
qed


section \<open>New connections\<close>

text \<open>A fresh id: no job knows it.\<close>

definition added :: "nat \<Rightarrow> 'p connection \<Rightarrow> 'p world \<Rightarrow> 'p world \<Rightarrow> bool" where
  "added i c w v \<longleftrightarrow> w_counter w < i \<and> w_counter v = i \<and> w_conns v = (w_conns w)(i \<mapsto> c) \<and> jobs v = jobs w \<and>
     \<not> c_connected c \<and> c_ssl c = None"

lemma added_busy:
  assumes "linked w" and "added i c w v" and "t \<in># jobs w"
  shows "busy v k t = busy w k t"
proof -
  have "task_id t \<noteq> i" using linkedD(2)[OF assms(1,3)] assms(2) by (simp add: added_def)
  then show ?thesis
    using assms(2) by (cases t; cases "case t of Ready p r \<Rightarrow> p | _ \<Rightarrow> Signal_op") (auto simp: added_def belongs_def server_of_def)
qed

lemma added_idle:
  assumes "linked w" and "added i c w v"
  shows "size (filter_mset (busy v k) (jobs v)) = size (filter_mset (busy w k) (jobs w))"
proof -
  have "filter_mset (busy v k) (jobs w) = filter_mset (busy w k) (jobs w)"
    by (rule filter_mset_cong) (simp_all add: added_busy[OF assms])
  then show ?thesis using assms(2) by (simp add: added_def)
qed

lemma added_placed: "added i c w v \<Longrightarrow> placed w x \<Longrightarrow> placed v x"
  by (auto simp: added_def placed_def)

lemma added_jobs: "linked w \<Longrightarrow> added i c w v \<Longrightarrow> t \<in># jobs v \<Longrightarrow> task_id t \<le> w_counter v \<and> task_id t \<noteq> i"
  using linkedD(2)[of w t] by (auto simp: added_def)

lemma added_guarded:
  assumes l: "linked w" and g: "guarded w" and a: "added i c w v"
    and x: "\<And>j d. j \<noteq> i \<Longrightarrow> w_conns w j = Some d \<Longrightarrow> c_kind d = Server \<Longrightarrow>
          https (w_contexts v (c_context d)) = https (w_contexts w (c_context d))"
  shows "guarded v"
proof -
  note g = guardedD[OF g] and n = added_jobs[OF l a]
  have old: "j = i \<and> d = c \<or> j \<noteq> i \<and> w_conns w j = Some d" if "w_conns v j = Some d" for j d
    using a that by (auto simp: added_def split: if_splits)
  have c: "\<not> c_connected c" "jobs v = jobs w" using a by (simp_all add: added_def)
  show ?thesis
  proof (rule guardedI)
    fix j d s assume b: "w_conns v j = Some d" "c_kind d = Client" "Ready (Write_op j s) Aborted \<in># jobs v"
    then show "c_connected d \<or> c_stopped d" using old[OF b(1)] n[OF b(3)] g(1)[of j d s] c by auto
  next
    fix j d assume b: "w_conns v j = Some d" "c_kind d = Server" "c_ssl d = None"
    then show "Ready (Handshake_op j) Aborted \<notin># jobs v \<and> Event_task HANDSHAKE j \<notin># jobs v"
      using old[OF b(1)] n[of "Ready (Handshake_op j) Aborted"] n[of "Event_task HANDSHAKE j"] g(2)[of j d] c by auto
  next
    fix j d s assume b: "w_conns v j = Some d" "c_kind d = Server" "c_ssl d = None" "https (w_contexts v (c_context d))"
    then show "Ready (Write_op j s) Aborted \<notin># jobs v"
      using old[OF b(1)] n[of "Ready (Write_op j s) Aborted"] g(3)[of j d s] x[of j d] c by auto
  next
    fix j d assume b: "w_conns v j = Some d" "c_kind d = Server" "c_ssl d = None" "https (w_contexts v (c_context d))"
      "c_connected d"
    then show "Event_task CONNECT j \<in># jobs v" using old[OF b(1)] g(4)[of j d] x[of j d] c by auto
  qed
qed

text \<open>The next client to accept, with its context.\<close>

definition with_client :: "'p connection \<Rightarrow> 'p world \<Rightarrow> 'p world" where
  "with_client c w = (let k = w_next_context w; i = Suc (w_counter w) in
     (set_context k (\<lambda>_. new_context) (w\<lparr>w_next_context := k + 1\<rparr>))\<lparr>w_conns := (w_conns w)(i \<mapsto> c), w_counter := i\<rparr>)"

lemma with_client_simps [simp]:
  "w_conns (with_client c w) = (w_conns w)(Suc (w_counter w) \<mapsto> c)" "w_counter (with_client c w) = Suc (w_counter w)"
  "w_next_context (with_client c w) = Suc (w_next_context w)" "jobs (with_client c w) = jobs w"
  "w_contexts (with_client c w) = (w_contexts w)(w_next_context w := new_context)"
  by (simp_all add: with_client_def Let_def set_context_def jobs_def)

lemma lawful_with_client:
  assumes l: "lawful {} D w" and c: "c_kind c = Client" "c_context c = w_next_context w" "\<not> c_connected c" "c_ssl c = None"
  shows "lawful {w_next_context w} (insert (Suc (w_counter w), w_next_context w) D) (with_client c w)"
proof (rule lawfulI)
  let ?v = "with_client c w" and ?k = "w_next_context w" and ?i = "Suc (w_counter w)"
  note d = linkedD[OF lawfulD(1)[OF l]]
  have a: "added ?i c w ?v" using c by (simp add: added_def)
  have fresh: "c_context b \<noteq> ?k" "j \<noteq> ?i" if "w_conns w j = Some b" for j b using d(1)[OF that] by auto
  show "linked ?v"
  proof (rule linkedI)
    fix j b assume "w_conns ?v j = Some b"
    then show "j \<le> w_counter ?v \<and> c_context b < w_next_context ?v"
      using d(1)[of j b] c(2) by (auto simp: less_Suc_eq split: if_splits)
  next
    fix t assume "t \<in># jobs ?v" then show "task_id t \<le> w_counter ?v" using added_jobs[OF lawfulD(1)[OF l] a] by blast
  next
    fix j j' b b' assume "w_conns ?v j = Some b" "w_conns ?v j' = Some b'" "c_kind b = Client" "c_kind b' = Client"
      "c_context b = c_context b'"
    then show "j = j'" using d(3)[of j b j' b'] fresh(1)[of j b] fresh(1)[of j' b'] c(2) by (auto split: if_splits)
  next
    fix j b assume b: "w_conns ?v j = Some b" "c_kind b = Server"
    then have "w_conns w j = Some b" using c(1) by (auto split: if_splits)
    then show "server_conn (w_contexts ?v (c_context b)) = Some j" using d(4)[of j b] b(2) fresh(1)[of j b] by simp
  next
    fix k j assume "server_conn (w_contexts ?v k) = Some j"
    then have "server_conn (w_contexts w k) = Some j" by (auto simp: new_context_def split: if_splits)
    then show "j \<le> w_counter ?v \<and> (\<forall>b. w_conns ?v j = Some b \<longrightarrow> c_kind b = Server \<and> c_context b = k)"
      using d(5)[of k j] by auto
  next
    fix k j assume "client_conn (w_contexts ?v k) = Some j"
    then have "client_conn (w_contexts w k) = Some j" by (auto simp: new_context_def split: if_splits)
    then show "j \<le> w_counter ?v \<and> (\<forall>b. w_conns ?v j = Some b \<longrightarrow> c_kind b = Client \<and> c_context b = k \<and>
        (c_connected b \<or> c_stopped b))"
      using d(6)[of k j] by auto
  qed
  show "guarded ?v"
    by (rule added_guarded[OF lawfulD(1,2)[OF l] a]) (use fresh in simp)
  have "\<not> busy w ?k t" for t
    using busy_belongs[of w ?k t] fresh by (auto simp: belongs_def)
  then have k: "activities ?v ?k = 0"
    using added_idle[OF lawfulD(1)[OF l] a, of ?k] by (simp add: activities_def acknowledging_def new_context_def)
  have ack: "acknowledging ?v k \<Longrightarrow> acknowledging w k" if "k \<noteq> ?k" for k
    using that c(2) by (auto simp: acknowledging_def split: if_splits)
  show "activities ?v k \<le> of_bool (k \<notin> {?k})" for k
  proof (cases "k = ?k")
    case False
    then show ?thesis
      using lawfulD(3)[OF l, of k] added_idle[OF lawfulD(1)[OF l] a, of k] ack[OF False]
      by (auto simp: activities_def of_bool_def split: if_splits)
  qed (use k in simp)
  show "placed ?v x" if "x \<in> insert (?i, ?k) D" for x
  proof (cases "x = (?i, ?k)")
    case False
    then show ?thesis using added_placed[OF a lawfulD(4)[OF l]] that by blast
  qed (simp add: placed_def c(2))
qed


lemma lawful_start_accept:
  assumes l: "lawful {} D w"
  shows "whenever (start_accept env w) (lawful {} D)"
proof -
  obtain c where c: "new_connection (parser env) Client (w_next_context w) = Inr c" "c_kind c = Client"
    "c_context c = w_next_context w" "\<not> c_connected c" "c_ssl c = None"
    by (simp add: new_connection_def new_request_def new_message_def new_buffer_def new_char_def DEFAULT_SIZE_def MAX_ALLOC_def)
  let ?v = "(with_client c w)\<lparr>w_current := Some (Suc (w_counter w))\<rparr>"
  have "lawful {w_next_context w} (insert (Suc (w_counter w), w_next_context w) D) ?v"
    using lawful_with_client[OF l c(2-)] by simp
  then have "lawful {} (insert (Suc (w_counter w), w_next_context w) D) (initiate (Accept_op (Suc (w_counter w))) ?v)"
    by (rule lawful_activity) auto
  then have "lawful {} D (initiate (Accept_op (Suc (w_counter w))) ?v)" by (rule lawful_mono) auto
  moreover have "start_accept env w = Inr (initiate (Accept_op (Suc (w_counter w))) ?v)"
    using c(1) by (simp add: start_accept_def make_connection_def Let_def set_context_def with_client_def)
  ultimately show ?thesis by simp
qed

text \<open>The server connection of a context that has none.\<close>

definition no_server :: "'p world \<Rightarrow> nat \<Rightarrow> bool" where
  "no_server w k \<longleftrightarrow> (\<forall>i c. w_conns w i = Some c \<and> c_kind c = Server \<longrightarrow> c_context c \<noteq> k)"

lemma next_context_with_server [simp]:
  "w_next_context (with_server k b c w) = w_next_context w" "w_counter (with_server k b c w) = Suc (w_counter w)"
  "jobs (with_server k b c w) = jobs w"
  by (simp_all add: with_server_def set_context_def Let_def jobs_def)

lemma lawful_with_server:
  assumes l: "lawful {k} D w" and n: "no_server w k" and k: "k < w_next_context w"
    and c: "c_kind c = Server" "c_context c = k" "\<not> c_connected c" "c_ssl c = None"
  shows "lawful (if b \<and> \<not> ssl_setup (w_contexts w k) then {} else {k}) (insert (Suc (w_counter w), k) D) (with_server k b c w)"
proof (rule lawfulI)
  let ?v = "with_server k b c w" and ?i = "Suc (w_counter w)"
  note d = linkedD[OF lawfulD(1)[OF l]]
  have a: "added ?i c w ?v" using c by (simp add: added_def)
  have fresh: "j \<noteq> ?i" if "w_conns w j = Some d" for j d using d(1)[OF that] by auto
  show "linked ?v"
  proof (rule linkedI)
    fix j d' assume "w_conns ?v j = Some d'"
    then show "j \<le> w_counter ?v \<and> c_context d' < w_next_context ?v"
      using d(1)[of j d'] c(2) k by (auto split: if_splits)
  next
    fix t assume "t \<in># jobs ?v" then show "task_id t \<le> w_counter ?v" using added_jobs[OF lawfulD(1)[OF l] a] by blast
  next
    fix j j' d d' assume "w_conns ?v j = Some d" "w_conns ?v j' = Some d'" "c_kind d = Client" "c_kind d' = Client"
      "c_context d = c_context d'"
    then show "j = j'" using d(3)[of j d j' d'] c(1) by (auto split: if_splits)
  next
    fix j d' assume b: "w_conns ?v j = Some d'" "c_kind d' = Server"
    then show "server_conn (w_contexts ?v (c_context d')) = Some j"
      using d(4)[of j d'] n c(2) by (auto simp: no_server_def split: if_splits)
  next
    fix k' j assume "server_conn (w_contexts ?v k') = Some j"
    then show "j \<le> w_counter ?v \<and> (\<forall>d. w_conns ?v j = Some d \<longrightarrow> c_kind d = Server \<and> c_context d = k')"
      using d(5)[of k' j] c(1,2) by (auto split: if_splits)
  next
    fix k' j assume "client_conn (w_contexts ?v k') = Some j"
    then have "client_conn (w_contexts w k') = Some j" by (auto split: if_splits)
    then show "j \<le> w_counter ?v \<and> (\<forall>d. w_conns ?v j = Some d \<longrightarrow> c_kind d = Client \<and> c_context d = k' \<and>
        (c_connected d \<or> c_stopped d))"
      using d(6)[of k' j] by auto
  qed
  show "guarded ?v"
    by (rule added_guarded[OF lawfulD(1,2)[OF l] a]) (use n in \<open>auto simp: no_server_def\<close>)
  have ack: "acknowledging ?v j \<Longrightarrow> if j = k then b \<and> \<not> ssl_setup (w_contexts w k) else acknowledging w j" for j
    using c(1) by (auto simp: acknowledging_def split: if_splits)
  have exch: "exchange_completed (w_contexts ?v j) = exchange_completed (w_contexts w j)" for j by simp
  show "activities ?v j \<le> of_bool (j \<notin> (if b \<and> \<not> ssl_setup (w_contexts w k) then {} else {k}))" for j
  proof (cases "j = k")
    case True
    have "size (filter_mset (busy w k) (jobs w)) = 0" "\<not> exchange_completed (w_contexts w k)"
      using lawful_idle[OF l, of k] by (simp_all add: activities_def)
    then show ?thesis using True added_idle[OF lawfulD(1)[OF l] a, of k] ack[of k]
      by (auto simp: activities_def simp del: size_eq_0_iff_empty)
  next
    case False
    then show ?thesis using lawfulD(3)[OF l, of j] added_idle[OF lawfulD(1)[OF l] a, of j] ack[of j] exch[of j]
      by (auto simp: activities_def of_bool_def simp del: with_server_simps split: if_splits)
  qed
  show "placed ?v x" if "x \<in> insert (?i, k) D" for x
  proof (cases "x = (?i, k)")
    case False
    then show ?thesis using added_placed[OF a lawfulD(4)[OF l]] that by blast
  qed (simp add: placed_def c(2))
qed


section \<open>Changes of a context\<close>

lemma busy_set_context [simp]: "busy (set_context k g w) = busy w"
  by (rule ext, rule busy_fun) simp

lemma activities_context:
  "activities (set_context k g w) j = size (filter_mset (busy w j) (jobs w)) +
     of_bool (exchange_completed (w_contexts (set_context k g w) j)) + of_bool (acknowledging (set_context k g w) j)"
  by (simp add: activities_def)

lemma contexts_set_context [simp]:
  "w_contexts (set_context k g w) j = (if j = k then g (w_contexts w k) else w_contexts w j)"
  by (simp add: set_context_def)

lemma lawful_set_context:
  assumes l: "lawful K D w"
    and g: "server_conn (g (w_contexts w k)) = server_conn (w_contexts w k)"
      "client_conn (g (w_contexts w k)) = client_conn (w_contexts w k)"
    and h: "https (g (w_contexts w k)) = https (w_contexts w k) \<or> no_server w k"
    and a: "activities (set_context k g w) k \<le> of_bool (k \<notin> K')" and K: "K' - {k} \<subseteq> K"
  shows "lawful K' D (set_context k g w)"
proof (rule lawfulI)
  let ?v = "set_context k g w"
  have s: "server_conn (w_contexts ?v j) = server_conn (w_contexts w j)"
    "client_conn (w_contexts ?v j) = client_conn (w_contexts w j)" for j
    using g by simp_all
  show "linked ?v" using lawfulD(1)[OF l] by (simp add: linked_def s del: contexts_set_context)
  have e: "https (w_contexts ?v (c_context c)) = https (w_contexts w (c_context c))"
    if "w_conns w i = Some c" "c_kind c = Server" for i c
    using that h by (auto simp: no_server_def)
  note u = guardedD[OF lawfulD(2)[OF l]]
  show "guarded ?v"
  proof (rule guardedI)
    fix i c d assume "w_conns ?v i = Some c" "c_kind c = Server" "c_ssl c = None" "https (w_contexts ?v (c_context c))"
    then show "Ready (Write_op i d) Aborted \<notin># jobs ?v" using u(3)[of i c d] e[of i c] by (simp del: contexts_set_context)
  next
    fix i c assume "w_conns ?v i = Some c" "c_kind c = Server" "c_ssl c = None" "https (w_contexts ?v (c_context c))"
      "c_connected c"
    then show "Event_task CONNECT i \<in># jobs ?v" using u(4)[of i c] e[of i c] by (simp del: contexts_set_context)
  next
    fix i c d assume "w_conns ?v i = Some c" "c_kind c = Client" "Ready (Write_op i d) Aborted \<in># jobs ?v"
    then show "c_connected c \<or> c_stopped c" using u(1)[of i c d] by simp
  next
    fix i c assume "w_conns ?v i = Some c" "c_kind c = Server" "c_ssl c = None"
    then show "Ready (Handshake_op i) Aborted \<notin># jobs ?v \<and> Event_task HANDSHAKE i \<notin># jobs ?v"
      using u(2)[of i c] by simp
  qed
  have "activities ?v j = activities w j" if "j \<noteq> k" for j
    using that by (simp add: activities_context) (simp add: activities_def acknowledging_def)
  then show "activities ?v j \<le> of_bool (j \<notin> K')" for j
    using lawfulD(3)[OF l, of j] a K by (cases "j = k") (auto simp: of_bool_def split: if_splits)
  show "placed ?v y" if "y \<in> D" for y using lawfulD(4)[OF l that] by (simp add: placed_def)
qed

lemma idle_jobs: "lawful K D w \<Longrightarrow> k \<in> K \<Longrightarrow> size (filter_mset (busy w k) (jobs w)) = 0 \<and>
    \<not> exchange_completed (w_contexts w k) \<and> \<not> acknowledging w k"
  using lawful_idle[of K D w k] by (simp add: activities_def)

lemma lawful_https:
  assumes "lawful {k} D w" and "no_server w k"
  shows "lawful {} D (set_context k (\<lambda>x. x\<lparr>https := b\<rparr>) w)"
  by (rule lawful_set_context[OF assms(1)])
     (use assms(2) idle_jobs[OF assms(1), of k] in \<open>auto simp: activities_context simp del: size_eq_0_iff_empty\<close>)

lemma lawful_complete:
  assumes "lawful {k} D w"
  shows "lawful {} D (set_context k (\<lambda>x. x\<lparr>exchange_completed := True\<rparr>) w)"
  by (rule lawful_set_context[OF assms])
     (use idle_jobs[OF assms, of k] in \<open>auto simp: activities_context acknowledging_def\<close>)

lemma lawful_context_reset:
  assumes "lawful {} D w" and "exchange_completed (w_contexts w k)"
  shows "lawful {k} D (context_reset k w)"
  unfolding context_reset_def
  by (rule lawful_set_context[OF assms(1)])
     (use lawfulD(3)[OF assms(1), of k] assms(2) in \<open>auto simp: activities_context activities_def acknowledging_def\<close>)

lemma lawful_setup:
  assumes "lawful K D w"
  shows "lawful K D (set_context k (\<lambda>x. x\<lparr>ssl_setup := True\<rparr>) w)"
  by (rule lawful_set_context[OF assms])
     (use lawfulD(3)[OF assms, of k] in \<open>auto simp: activities_context activities_def acknowledging_def\<close>)

end
