(* ===== verification/Privacy.thy ===== *)
theory Privacy
  imports Activities Failures
begin

text \<open>
  Two invariants of every run that need each other: in each context at most one activity is under way,
  and, because nothing else can then write to a server that is still being connected, no byte goes to
  the server of an https context before its socket uses TLS. The first part follows the messages and
  events through the context (\<open>src/connection_context.cpp\<close>) and the event loop.
\<close>

section \<open>Messages and events\<close>

lemma lawful_server_known:
  assumes "lawful K D w" and "lock w (server_conn (w_contexts w k)) = Some s"
  shows "lawful K (insert (s, k) D) w" "w_conns w s = Some c \<Longrightarrow> c_kind c = Server \<and> c_context c = k"
proof -
  have "server_conn (w_contexts w k) = Some s" using lock_some[OF assms(2)] by blast
  note s = linkedD(5)[OF lawfulD(1)[OF assms(1)] this]
  show "lawful K (insert (s, k) D) w"
    using assms(1) s by (auto simp: lawful_def placed_def)
  show "w_conns w s = Some c \<Longrightarrow> c_kind c = Server \<and> c_context c = k" using s by blast
qed

lemma lawful_client_known:
  assumes "lawful K D w" and "lock v (client_conn (w_contexts w k)) = Some i" and "w_conns w i = Some c"
  shows "c_kind c = Client \<and> c_context c = k \<and> (c_connected c \<or> c_stopped c)"
proof -
  have "client_conn (w_contexts w k) = Some i" using lock_some[OF assms(2)] by blast
  from linkedD(6)[OF lawfulD(1)[OF assms(1)] this] show ?thesis using assms(3) by blast
qed

text \<open>A server of an idle context is not waiting for its event CONNECT, so it may be written to.\<close>

lemma idle_server_writable:
  assumes l: "lawful {k} D w" and s: "lock w (server_conn (w_contexts w k)) = Some s"
  shows "writable w s"
  unfolding writable_def
proof (intro allI impI conjI)
  fix c assume c: "w_conns w s = Some c"
  then show kc: "c_kind c = Server" using lawful_server_known(2)[OF l s] by blast
  have k: "c_context c = k" using lawful_server_known(2)[OF l s c] by blast
  assume h: "https (w_contexts w (c_context c)) \<and> c_connected c"
  show "c_ssl c \<noteq> None"
  proof
    assume "c_ssl c = None"
    then have "Event_task CONNECT s \<in># jobs w" using guardedD(4)[OF lawfulD(2)[OF l] c kc] h by blast
    moreover have "busy w k (Event_task CONNECT s)" using c k by (simp add: belongs_def)
    ultimately show False using idle_jobs[OF l, of k] by auto
  qed
qed

definition held :: "'p world \<Rightarrow> bool" where
  "held w \<longleftrightarrow> dom (w_conns w) \<subseteq> set (shared_refs w @ w_pinned w)"

lemma no_server_locked:
  assumes l: "lawful K D w" and h: "held w" and n: "lock w (server_conn (w_contexts w k)) = None"
  shows "no_server w k"
  unfolding no_server_def
proof (intro allI impI notI)
  fix i c assume c: "w_conns w i = Some c \<and> c_kind c = Server" and k: "c_context c = k"
  then have "server_conn (w_contexts w k) = Some i" using linkedD(4)[OF lawfulD(1)[OF l]] by blast
  moreover have "i \<in> set (shared_refs w @ w_pinned w)" using h c by (auto simp: held_def)
  ultimately show False using n by (simp add: lock_def)
qed

lemma lawful_open_server:
  assumes l: "lawful {k} D w" and n: "no_server w k" and k: "k < w_next_context w"
  shows "whenever (open_server env k m b dest w) (lawful {} D)"
proof -
  let ?s = "Suc (w_counter w)" and ?K = "if b \<and> \<not> ssl_setup (w_contexts w k) then {} else {k}"
  obtain c where c: "c_kind c = Server" "c_context c = k" "\<not> c_connected c" "c_ssl c = None"
    and o: "open_server env k m b dest w = (case lock (with_server k b c w) (client_conn (w_contexts w k)) of
          None \<Rightarrow> Inl Assertion_Failed
        | Some i \<Rightarrow>
            if b \<and> \<not> ssl_setup (w_contexts w k)
            then bind_res (make_response SSL_REPLY) (\<lambda>resp. write_message i resp (with_server k b c w))
            else write_message ?s m (with_server k b c w))"
    using open_server_eq[of dest k env m b w] by blast
  let ?v = "with_server k b c w"
  have v: "lawful ?K (insert (?s, k) D) ?v" by (rule lawful_with_server[OF l n k c])
  have weaker: "lawful {} (insert (?s, k) D) u \<Longrightarrow> lawful {} D u" for u :: "'a world" by (erule lawful_mono) auto
  have x: "client_conn (w_contexts ?v k) = client_conn (w_contexts w k)" by simp
  show ?thesis
  proof (cases "lock ?v (client_conn (w_contexts w k))")
    case None
    then show ?thesis by (simp add: o)
  next
    case (Some i)
    show ?thesis
    proof (cases "b \<and> \<not> ssl_setup (w_contexts w k)")
      case True
      then have v: "lawful {} (insert (?s, k) D) ?v" using v by simp
      have "whenever (write_message i resp ?v) (lawful {} D)" for resp
      proof (cases "w_conns ?v i")
        case None
        then show ?thesis by (simp add: write_message_def conn_def)
      next
        case i: (Some ci)
        from lawful_client_known[OF v Some[folded x] i] show ?thesis
          by (intro whenever_mono[OF lawful_write_message_client[OF v i] weaker]) auto
      qed
      then show ?thesis unfolding o Some using True by (auto intro!: codec_any)
    next
      case False
      then have v: "lawful {k} (insert (?s, k) D) ?v" using v by (simp only: if_False)
      have "whenever (write_message ?s m ?v) (lawful {} D)"
        by (rule whenever_mono[OF lawful_write_message_server[OF v] weaker]) (use c in \<open>auto simp: writable_def\<close>)
      then show ?thesis unfolding o Some option.case if_not_P[OF False] .
    qed
  qed
qed

lemma lawful_on_client_message:
  assumes l: "lawful {k} D w" and h: "held w" and k: "k < w_next_context w"
  shows "whenever (on_client_message env k m w) (lawful {} D)"
proof (cases "lock w (server_conn (w_contexts w k))")
  case (Some s)
  have "whenever (write_message s m w) (lawful {} (insert (s, k) D))"
    by (rule lawful_write_message_server[OF lawful_server_known(1)[OF l Some]])
       (use idle_server_writable[OF l Some] in auto)
  then have "whenever (write_message s m w) (lawful {} D)" by (rule whenever_mono) (erule lawful_mono, auto)
  then show ?thesis using Some by (auto simp: on_client_message_def Let_def)
next
  case None
  then have n: "no_server w k" by (rule no_server_locked[OF l h])
  then show ?thesis using None lawful_https[OF l n] lawful_open_server[OF l n k]
    by (auto simp: on_client_message_def Let_def split: option.split
        intro!: whenever_any[of _ "parse_destination (lexical_cast env) m (https (w_contexts w k))"])
qed

lemma lawful_on_server_message:
  assumes l: "lawful {k} D w"
  shows "whenever (on_server_message env k m w) (lawful {} D)"
proof -
  have "whenever (on_server_message env k m w) (lawful {} (insert (s, k) D))"
    if c: "lock w (client_conn (w_contexts w k)) = Some c" and s: "lock w (server_conn (w_contexts w k)) = Some s" for c s
  proof -
    have l: "lawful {k} (insert (s, k) D) w" by (rule lawful_server_known(1)[OF l s])
    have "whenever (write_message c m w) (lawful {k} (insert (s, k) D))"
    proof (cases "w_conns w c")
      case None
      then show ?thesis by (simp add: write_message_def conn_def)
    next
      case (Some cc)
      from lawful_client_known[OF l c Some] show ?thesis by (intro lawful_write_message_client[OF l Some]) auto
    qed
    moreover have "whenever (if \<not> completed m then read s w1 else
        let w2 = set_context k (\<lambda>x. x\<lparr>exchange_completed := True\<rparr>) w1 in
        bind_res (conn_keep_alive (parser env) s w2) (\<lambda>keep. if keep then server_reset (parser env) s w2 else stop s False w2))
          (lawful {} (insert (s, k) D))" (is "whenever (?after w1) _") if w1: "lawful {k} (insert (s, k) D) w1" for w1
    proof (cases "completed m")
      case True
      then show ?thesis using lawful_complete[OF w1]
        by (auto simp: Let_def conn_keep_alive_def intro!: lawful_server_reset[where k = k] lawful_stop)
    next
      case False
      then show ?thesis using lawful_read[OF w1, of s] by simp
    qed
    ultimately have "whenever (write_message c m w) (\<lambda>w1. whenever (?after w1) (lawful {} (insert (s, k) D)))"
      by (rule whenever_mono)
    then show ?thesis using c s by (simp add: on_server_message_def Let_def)
  qed
  note served = this
  show ?thesis
  proof (cases "\<exists>c s. lock w (client_conn (w_contexts w k)) = Some c \<and> lock w (server_conn (w_contexts w k)) = Some s")
    case True
    then obtain c s where "lock w (client_conn (w_contexts w k)) = Some c" "lock w (server_conn (w_contexts w k)) = Some s"
      by blast
    from served[OF this] show ?thesis by (rule whenever_mono) (erule lawful_mono, auto)
  next
    case False
    then have "on_server_message env k m w = Inl Assertion_Failed"
      by (auto simp: on_server_message_def Let_def split: option.split)
    then show ?thesis by simp
  qed
qed


lemma client_reset_commutes:
  "bind_res (client_reset api i w) (\<lambda>w1. Inr (context_reset k w1)) = client_reset api i (context_reset k w)"
  by (cases "w_conns w i")
     (auto simp: client_reset_def context_reset_def connection_reset_def reset_codec_def timer_start_def read_def conn_def
       modify_def set_context_def initiate_def cancel_waits_def assert_that_def)

lemma lawful_client_event:
  assumes l: "lawful (if ev = WRITE then {} else {k}) D w" and i: "(i, k) \<in> D" and h: "held w"
    and c: "w_conns w i = Some c" "c_kind c = Client"
  shows "whenever (on_client_event env ev i w) (lawful {} D)"
proof -
  have k: "c_context c = k" by (rule lawful_in[OF l i c(1)])
  have n: "k < w_next_context w" using linkedD(1)[OF lawfulD(1)[OF l] c(1)] k by simp
  let ?x = "w_contexts w k"
  show ?thesis
  proof (cases ev)
    case READ
    then show ?thesis using l lawful_on_client_message[OF _ h n] c k by (simp add: on_client_event_def Let_def)
  next
    case HANDSHAKE
    then have "lawful {k} D (set_context k (\<lambda>x. x\<lparr>ssl_setup := True\<rparr>) w)" using l by (intro lawful_setup) simp
    from lawful_read[OF this i] show ?thesis using HANDSHAKE c k by (simp add: on_client_event_def Let_def)
  next
    case CONNECT
    then show ?thesis using c by (simp add: on_client_event_def Let_def)
  next
    case WRITE
    then have l: "lawful {} D w" using l by simp
    have hs: "whenever (client_handshake ca d i (w\<lparr>w_certs := cm\<rparr>)) (lawful {} D)" if "https ?x" "\<not> ssl_setup ?x" for ca d cm
      by (rule lawful_client_handshake[where k = k and c = c]) (use l i c k that in auto)
    have rs: "whenever (client_reset (parser env) i (context_reset k w)) (lawful {} D)" if "exchange_completed ?x"
      by (rule lawful_client_reset[OF lawful_context_reset[OF l that] i])
    have st: "whenever (stop i False w) (lawful {} D)" by (rule lawful_stop[OF l])
    show ?thesis
    proof (cases "https ?x \<and> \<not> ssl_setup ?x")
      case True
      then show ?thesis using WRITE c k hs
        by (auto simp: on_client_event_def Let_def split: option.split
            intro!: whenever_any[of _ "get_certificate lib x cm" for lib x cm])
    next
      case False
      then have "on_client_event env ev i w = (if exchange_completed ?x then
          bind_res (conn_keep_alive (parser env) i w) (\<lambda>keep.
          if keep then client_reset (parser env) i (context_reset k w) else stop i False w) else Inr w)"
        unfolding client_reset_commutes[symmetric] using WRITE c k by (auto simp: on_client_event_def Let_def conn_def)
      then show ?thesis using rs st l by (auto simp: conn_keep_alive_def)
    qed
  qed
qed

lemma lawful_server_event:
  assumes l: "lawful {k} D w" and i: "(i, k) \<in> D" and c: "w_conns w i = Some c" "c_kind c = Server"
    and s: "ev = HANDSHAKE \<Longrightarrow> c_ssl c \<noteq> None" "ev = CONNECT \<Longrightarrow> \<not> https (w_contexts w k)"
  shows "whenever (on_server_event env ev i w) (lawful {} D)"
proof -
  have k: "c_context c = k" by (rule lawful_in[OF l i c(1)])
  have "whenever (write_out i w) (lawful {} D)" if "ev \<noteq> READ" "ev \<noteq> WRITE"
    by (rule lawful_write_out[OF l i]) (use that s c k in \<open>cases ev; auto simp: writable_def\<close>)
  then show ?thesis
    using c k s lawful_on_server_message[OF l]
    by (auto simp: on_server_event_def Let_def split: connection_event.split)
qed

text \<open>The event CONNECT of an https context, from the state in which it is still queued.\<close>

lemma lawful_connect_event:
  assumes l: "lawful {} D w" and i: "(i, k) \<in> D" and c: "w_conns w i = Some c" "c_kind c = Server"
    and q: "w_queue w = Event_task CONNECT i # q" and h: "https (w_contexts w k)"
  shows "whenever (on_server_event env CONNECT i (w\<lparr>w_queue := q, w_pinned := refs\<rparr>)) (lawful {} D)"
proof -
  have k: "c_context c = k" by (rule lawful_in[OF l i c(1)])
  let ?p = "w\<lparr>w_queue := q, w_pinned := refs\<rparr>"
  have p: "w_conns ?p i = Some c" using c by simp
  have "lawful {} D (initiate (Handshake_op i) (modify i (\<lambda>c. c\<lparr>c_ssl := Some s\<rparr>) ?p))" for s
  proof -
    let ?v = "modify i (\<lambda>c. c\<lparr>c_ssl := Some s\<rparr>) w"
    have "lawful {j. busy ?v j (Event_task CONNECT i)} D (?v\<lparr>w_queue := q, w_pinned := refs\<rparr>)"
      by (rule lawful_pop[OF lawful_ssl[OF l]]) (use q in auto)
    moreover have "{j. busy ?v j (Event_task CONNECT i)} = {k}" using c k by (auto simp: belongs_def)
    moreover have "?v\<lparr>w_queue := q, w_pinned := refs\<rparr> = modify i (\<lambda>c. c\<lparr>c_ssl := Some s\<rparr>) ?p" by (simp add: modify_def)
    ultimately have "lawful {k} D (modify i (\<lambda>c. c\<lparr>c_ssl := Some s\<rparr>) ?p)" by simp
    then show ?thesis by (rule lawful_handshake_op(1)[OF _ i]) auto
  qed
  then show ?thesis using c k h p
    by (auto simp: on_server_event_def Let_def server_handshake_def switch_to_ssl_def async_handshake_def simp del: modify_simps)
qed

lemma lawful_on_stop: "lawful K D w \<Longrightarrow> whenever (on_stop k i w) (lawful K D)"
  by (auto simp: on_stop_def Let_def split: option.split intro!: lawful_stop)

lemma lawful_stop_all: "lawful K D w \<Longrightarrow> whenever (stop_all kd w) (lawful K D)"
  unfolding stop_all_def whenever_bind
  by (rule whenever_mono[OF whenever_fold_res[where I = "lawful K D"]])
     (auto simp: stop_one_def detach_def split: conn_kind.split intro!: lawful_stop)

lemma lawful_on_signal: "lawful K D w \<Longrightarrow> whenever (on_signal w) (lawful K D)"
  by (auto simp: on_signal_def intro!: whenever_mono[OF lawful_stop_all])

lemma lawful_on_accept:
  assumes l: "lawful {k} D w" and i: "(i, k) \<in> D"
  shows "whenever (on_accept env i r w) (lawful {} D)"
  using l i lawful_less[OF l]
  by (auto simp: on_accept_def Let_def split: option.split outcome.split
      intro!: whenever_mono[OF lawful_start[where k = k]] lawful_start_accept)


section \<open>Runs\<close>

lemma forget: "whenever m (lawful {} D) \<Longrightarrow> whenever m (lawful {} {})"
  by (erule whenever_mono, erule lawful_mono) auto

lemma lawful_run_op:
  assumes l: "lawful {} {} w" and q: "w_queue w = Ready p r # q"
  shows "whenever (run_task env (Ready p r) (w\<lparr>w_queue := q, w_pinned := refs\<rparr>)) (lawful {} {})"
proof -
  let ?p = "w\<lparr>w_queue := q, w_pinned := refs\<rparr>" and ?i = "op_id p"
  have pop: "lawful {k. op_busy w k p} D ?p" if "lawful {} D w" for D
    using lawful_pop[OF that q] by simp
  have job: "Ready p Aborted \<in># jobs w" by (simp add: jobs_def q)
  show ?thesis
  proof (cases "w_conns w ?i")
    case None
    then show ?thesis using pop[OF l]
      by (cases p) (auto simp: on_written_def server_on_resolve_def on_accept_def conn_def intro!: lawful_on_timer lawful_on_signal intro: lawful_less)
  next
    case (Some c)
    let ?k = "c_context c" and ?D = "{(?i, c_context c)}"
    have c: "w_conns ?p ?i = Some c" using Some by simp
    have d: "lawful {k. op_busy w k p} ?D ?p" using pop[OF lawful_insert[OF l Some]] .
    have one: "{k. belongs w k ?i} = {?k}" using Some by (auto simp: belongs_def)
    note g = guardedD[OF lawfulD(2)[OF l] Some]
    show ?thesis
    proof (cases p)
      case (Read_op i)
      then have "lawful {?k} ?D ?p" using d one by simp
      then show ?thesis using Read_op c
        by (auto split: conn_kind.split intro!: forget[OF lawful_on_read_client] forget[OF lawful_on_read_server])
    next
      case (Write_op i x)
      show ?thesis
      proof (cases "c_kind c")
        case Client
        then have "lawful {} ?D ?p" using d Write_op Some by (simp add: server_of_def)
        moreover have "c_connected c \<or> c_stopped c" using g(1)[of x] Client job Write_op by simp
        ultimately show ?thesis using Write_op c Client by (auto intro!: forget[OF lawful_on_written_client])
      next
        case Server
        then have "{k. op_busy w k p} = {?k}" using Write_op Some by (auto simp: server_of_def)
        then have "lawful {?k} ?D ?p" using d by simp
        moreover have "writable ?p ?i" using g(3)[of x] Server job Write_op Some by (auto simp: writable_def)
        ultimately show ?thesis using Write_op by (auto intro!: forget[OF lawful_on_written_server])
      qed
    next
      case (Resolve_op i)
      then have "lawful {?k} ?D ?p" using d one by simp
      then show ?thesis using Resolve_op by (auto intro!: forget[OF lawful_on_resolve])
    next
      case (Connect_op i)
      then have "lawful {?k} ?D ?p" using d one by simp
      then show ?thesis using Connect_op c
        by (auto simp: client_on_connect_def split: conn_kind.split intro!: forget[OF lawful_on_connect])
    next
      case (Handshake_op i)
      then have "lawful {?k} ?D ?p" using d one by simp
      moreover have "c_kind c = Server \<Longrightarrow> c_ssl c \<noteq> None" using g(2) job Handshake_op by auto
      ultimately show ?thesis using Handshake_op c
        by (auto split: conn_kind.split intro!: forget[OF lawful_on_handshake_client] forget[OF lawful_on_handshake_server])
    next
      case (Timer_op i t n)
      then show ?thesis using pop[OF l] by (auto intro!: lawful_on_timer)
    next
      case (Accept_op i)
      then have "lawful {?k} ?D ?p" using d one by simp
      then show ?thesis using Accept_op by (auto intro!: forget[OF lawful_on_accept])
    next
      case Signal_op
      then show ?thesis using pop[OF l] by (auto intro!: lawful_on_signal)
    qed
  qed
qed

lemma lawful_run_event:
  assumes l: "lawful {} {} w" and h: "dom (w_conns w) \<subseteq> set (shared_refs w)" and q: "w_queue w = Event_task ev i # q"
  shows "whenever (run_task env (Event_task ev i) (w\<lparr>w_queue := q, w_pinned := []\<rparr>)) (lawful {} {})"
proof (cases "w_conns w i")
  case None
  then show ?thesis by (simp add: conn_def)
next
  case (Some c)
  let ?p = "w\<lparr>w_queue := q, w_pinned := []\<rparr>" and ?k = "c_context c" and ?D = "{(i, c_context c)}"
  have l: "lawful {} ?D w" using lawful_insert[OF l Some] .
  have c: "w_conns ?p i = Some c" using Some by simp
  have "held ?p" using h q by (auto simp: held_def shared_refs_def)
  note busy = Some[THEN arg_cong[where f = "\<lambda>x. x"]]
  have b: "{k. busy w k (Event_task ev i)} = (if ev = WRITE then {} else {?k})"
    using Some by (auto simp: belongs_def)
  note g = guardedD[OF lawfulD(2)[OF l] Some]
  show ?thesis
  proof (cases "c_kind c = Server \<and> ev = CONNECT \<and> https (w_contexts w ?k)")
    case True
    then show ?thesis
      using forget[OF lawful_connect_event[OF l _ Some _ q[unfolded True[THEN conjunct2, THEN conjunct1]]]] c by simp
  next
    case False
    have "lawful {k. busy w k (Event_task ev i)} ?D ?p"
      by (rule lawful_pop[OF l q]) (use False Some in auto)
    then have p: "lawful (if ev = WRITE then {} else {?k}) ?D ?p" by (simp only: b)
    show ?thesis
    proof (cases "c_kind c")
      case Client
      then show ?thesis using forget[OF lawful_client_event[OF p _ \<open>held ?p\<close> c]] c by simp
    next
      case Server
      have "c_ssl c \<noteq> None" if "ev = HANDSHAKE" using g(2) Server that q by (auto simp: jobs_def)
      then have "whenever (on_server_event env ev i ?p) (lawful {} {})" if "ev \<noteq> WRITE"
        using forget[OF lawful_server_event[OF _ _ c Server, of ?k ?D ev env]] p that False Server by simp
      then show ?thesis using Server c by (cases ev) (auto simp: on_server_event_def Let_def)
    qed
  qed
qed

lemma lawful_run_task:
  assumes l: "lawful {} {} w" and h: "dom (w_conns w) \<subseteq> set (shared_refs w)" and q: "w_queue w = t # q"
  shows "whenever (run_task env t (w\<lparr>w_queue := q, w_pinned := task_refs t\<rparr>)) (lawful {} {})"
proof (cases t)
  case (Ready p r)
  then show ?thesis using lawful_run_op[OF l, of p r q env] q by simp
next
  case (Event_task ev i)
  then show ?thesis using lawful_run_event[OF l h, of ev i q env] q by simp
next
  case (Stop_task i)
  then show ?thesis using lawful_pop[OF l q, of "task_refs t"] by (auto intro!: lawful_on_stop)
qed

definition settled :: "'p world \<Rightarrow> bool" where
  "settled w \<longleftrightarrow> lawful {} {} w \<and> dom (w_conns w) \<subseteq> set (shared_refs w)"

lemma settled_release: "lawful {} {} w \<Longrightarrow> settled (release w)"
  by (auto simp: settled_def lawful_release) (auto simp: release_def restrict_map_def split: if_splits)

lemma settled_dispatch:
  assumes s: "settled w" and d: "dispatch env w = Some (Inr w')"
  shows "settled w'"
proof -
  obtain t q where q: "w_queue w = t # q" using d by (cases "w_queue w") (auto simp: dispatch_def)
  let ?run = "bind_res (run_task env t (w\<lparr>w_queue := q, w_pinned := task_refs t\<rparr>)) (\<lambda>w1.
    bind_res (restart env (release w1)) (\<lambda>w2. Inr (release w2)))"
  have "whenever (run_task env t (w\<lparr>w_queue := q, w_pinned := task_refs t\<rparr>)) (lawful {} {})"
    using s q by (intro lawful_run_task) (simp_all add: settled_def)
  moreover have "whenever (restart env (release v)) (\<lambda>v'. settled (release v'))" if v: "lawful {} {} v" for v
  proof -
    have "lawful {} {} ((release v)\<lparr>w_thrown := False\<rparr>)" using lawful_release[OF v] by simp
    then show ?thesis using lawful_release[OF v]
      by (auto simp: restart_def intro!: settled_release whenever_mono[OF lawful_start_accept])
  qed
  ultimately have "whenever ?run settled" unfolding whenever_bind whenever_simps by (rule whenever_mono)
  moreover have "?run = Inr w'" using d q by (simp add: dispatch_def)
  ultimately show ?thesis by (simp only: whenever_simps)
qed

lemma settled_finish:
  assumes s: "settled w" and p: "p \<in> set (w_ops w)"
  shows "settled (finish p r w)"
proof -
  have m: "mset (w_ops w) = add_mset p (mset (remove1 p (w_ops w)))" using p by simp
  have "{#f x. x \<in># mset (w_ops w)#} = add_mset (f p) {#f x. x \<in># mset (remove1 p (w_ops w))#}" for f :: "operation \<Rightarrow> task"
    by (subst m) (simp del: mset_remove1)
  then have j: "jobs (finish p r w) = jobs w" by (simp add: jobs_def finish_def del: mset_remove1)
  have "lawful {} {} (finish p r w)"
    by (rule lawful_same[where w = w]) (use s j in \<open>simp_all add: settled_def finish_def\<close>)
  moreover have "set (shared_refs w) \<subseteq> set (shared_refs (finish p r w))"
  proof -
    have "x \<in> set (op_refs y) \<Longrightarrow> y \<in> set (w_ops w) \<Longrightarrow> x \<in> set (op_refs p) \<or> (\<exists>z \<in> set (remove1 p (w_ops w)). x \<in> set (op_refs z))" for x y
      by (cases "y = p") (auto simp: in_set_remove1)
    then show ?thesis by (fastforce simp: shared_refs_def finish_def)
  qed
  ultimately show ?thesis using s by (auto simp: settled_def finish_def)
qed


lemma lawful_initial: "lawful {} {} (initial_world cm)"
proof (rule lawfulI)
  have j: "jobs (initial_world cm) = {#Ready Signal_op Aborted#}" by (simp add: jobs_def initial_world_def)
  show "linked (initial_world cm)" by (simp add: linked_def j) (simp add: initial_world_def new_context_def)
  show "guarded (initial_world cm)" by (simp add: guarded_def initial_world_def)
  show "activities (initial_world cm) k \<le> of_bool (k \<notin> {})" for k
    by (simp add: activities_def j acknowledging_def) (simp add: initial_world_def new_context_def)
qed simp

interpretation privacy: invariant "\<lambda>w. boot env cm = Inr w" "step env" settled for env cm
proof
  fix w assume b: "boot env cm = Inr w"
  have "lawful {} {} w" using lawful_start_accept[OF lawful_initial, of env cm] b by (simp add: boot_def)
  moreover have "dom (w_conns w) \<subseteq> set (shared_refs w)"
    using b by (auto simp: boot_def start_accept_def make_connection_def Let_def initial_world_def shared_refs_def
        set_context_def split: if_splits elim!: bind_res_InrE)
  ultimately show "settled w" by (simp add: settled_def)
next
  fix w w' assume "settled w" and "step env w w'"
  from this(2,1) show "settled w'" by (cases rule: step.cases) (auto intro: settled_finish settled_dispatch)
qed

lemma reachable_lawful: "reachable env cm w \<Longrightarrow> lawful {} {} w"
  using privacy.always[of env cm w] by (simp add: reachable_def settled_def)

lemma job_outstanding: "Ready p Aborted \<in># jobs w \<longleftrightarrow> p \<in> set (outstanding w)"
proof -
  have "Ready p Aborted \<in> plain ` set q \<longleftrightarrow> p \<in> set (concat (map task_op q))" for q
  proof (induction q)
    case (Cons t q)
    then show ?case by (cases t) auto
  qed simp
  then show ?thesis by (auto simp: jobs_def outstanding_def image_iff)
qed

lemma outstanding_busy: "length (filter (op_busy w k) (outstanding w)) \<le> size (filter_mset (busy w k) (jobs w))"
proof -
  have "length (filter (op_busy w k) (concat (map task_op q))) \<le> size (filter_mset (busy w k) (mset q))" for q
  proof (induction q)
    case (Cons t q)
    then show ?case by (cases t) auto
  qed simp
  moreover have "size (filter_mset (busy w k) {#plain t. t \<in># M#}) = size (filter_mset (busy w k) M)" for M
    by (induction M) auto
  moreover have "size (filter_mset (busy w k) {#Ready p Aborted. p \<in># mset ps#}) = length (filter (op_busy w k) ps)" for ps
    by (induction ps) auto
  ultimately show ?thesis by (simp add: jobs_def outstanding_def)
qed

lemma short_list: "x \<in> set xs \<Longrightarrow> y \<in> set xs \<Longrightarrow> length xs \<le> 1 \<Longrightarrow> x = y"
  by (cases xs) auto

section \<open>A run of an https exchange\<close>

text \<open>
  A client connects, sends CONNECT, is answered and shaken hands with, and sends a request; its server is
  resolved, connected and shaken hands with, and the request is being written. The parser makes the
  callbacks of CONNECT or of a GET request, as the data says.
\<close>

definition connect_view :: parser_view where
  "connect_view = view\<lparr>pv_method := ''CONNECT'', pv_is_connect := True\<rparr>"

definition connect_calls :: "(parser_view \<times> callback) list" where
  "connect_calls = map (Pair connect_view) [On_message_begin, On_url ''www.google.com'', On_header_field ''A'',
     On_header_value ''b'', On_headers_complete, On_message_complete]"

definition reading :: "unit parser_api" where
  "reading = \<lparr>api_init = (\<lambda>_. ()),
     api_execute = (\<lambda>p x. ((), if x = ''CONNECT'' then connect_calls else concat (get_calls ''Host'' ''h.com''), length x)),
     api_errno_ok = (\<lambda>_. True), api_should_keep_alive = (\<lambda>_. True)\<rparr>"

definition tunnel :: "unit setting" where
  "tunnel = \<lparr>parser = reading, library = no_files, lexical_cast = (\<lambda>_. None)\<rparr>"

definition ready_manager :: cert_manager where
  "ready_manager = filled_manager\<lparr>dh := 7\<rparr>"

definition ssl_reply :: http_message where "ssl_reply = projr (make_response SSL_REPLY)"

definition reply_out :: encode_result where
  "reply_out = projr (encode ssl_reply (new_encoder HTTP_RESPONSE) empty_buffer)"

lemma ssl_reply: "make_response SSL_REPLY = Inr ssl_reply" "headers_done ssl_reply" "completed ssl_reply"
  "msg_ok 100 ssl_reply" "enc_ok (new_encoder HTTP_RESPONSE) ssl_reply" "serialize ssl_reply = connect_reply"
  using ssl_reply_message[of 100] by (auto simp: ssl_reply_def SINK_LIMIT_def)

lemma connect_reply_length: "length connect_reply = 112"
  by (simp add: connect_reply_def CRLF_def)

lemma reply_out: "encode ssl_reply (new_encoder HTTP_RESPONSE) empty_buffer = Inr (fst reply_out, out_buffer reply_out, snd (snd reply_out))"
  "bytes (out_buffer reply_out) = connect_reply" "bb_size (out_buffer reply_out) = 112"
  using encoded[OF ssl_reply(2,5,4) _ _ reply_out_def] by (simp_all add: ssl_reply(6) connect_reply_length)

lemma reset_reply: "reset_encoder (fst reply_out) = new_encoder HTTP_RESPONSE"
  using encoded[OF ssl_reply(2,5,4) _ _ reply_out_def] by (simp add: ssl_reply(6) connect_reply_length reset_encoder_def new_encoder_def)

lemma reset_request: "reset_encoder (new_encoder t) = new_encoder t"
  by (simp add: reset_encoder_def new_encoder_def)

lemma cleared_buffer: "empty_buffer\<lparr>bb_size := 0\<rparr> = empty_buffer" "buffer_clear empty_buffer = empty_buffer"
  using empty_buffer_fits(1)[of 0] empty_buffer_fits(2) by (simp_all add: buffer_clear_def fits_def)

lemma host_certificate: "get_certificate lib ''www.google.com'' ready_manager = Inr (\<lparr>cert_key = 5, cert_x509 = 6\<rparr>, ready_manager)"
  "fst (run_state get_dh_parameters ready_manager) = 7"
  by (simp_all add: get_certificate_def parse_common_name_eq wildcard_name_def MAX_ALLOC_def certificate_for_cached
      ready_manager_def filled_manager_def get_dh_parameters_def get_state_def)

lemmas tunnel_defs = tunnel_def reading_def connect_calls_def connect_view_def cleared_buffer host_certificate ssl_reply(1) reply_out
  reset_message_def reset_reply reset_request client_on_handshake_def server_on_handshake_def
  client_handshake_def server_handshake_def switch_to_ssl_def async_handshake_def assert_that_def new_ssl_socket_def no_certificate_def

definition tunnelling :: "script_event list" where
  "tunnelling = [Completes (Accept_op 1) (Done ''10.0.0.1'' 5000), Runs, Completes (Read_op 1) (Done ''CONNECT'' 0), Runs, Runs,
     Runs, Completes (Write_op 1 connect_reply) (Done [] 112), Runs, Runs, Completes (Handshake_op 1) (Done [] 0), Runs, Runs,
     Completes (Read_op 1) (Done ''GET'' 0), Runs, Runs, Completes (Resolve_op 3) (Done [] 0), Runs,
     Completes (Connect_op 3) (Done [] 0), Runs, Runs, Completes (Handshake_op 3) (Done [] 0), Runs, Runs]"

lemma tunnel_run: "\<exists>w c. play tunnel tunnelling (first_world tunnel ready_manager) = Some (Inr w) \<and>
    w_conns w 3 = Some c \<and> c_kind c = Server \<and> https (w_contexts w (c_context c)) \<and> Write_op 3 req_text \<in> set (outstanding w)"
  by (simp add: tunnelling_def run_defs accept_defs server_defs decode_defs out_defs tunnel_defs connect_reply_length outstanding_def del: prod.collapse)

section \<open>Properties\<close>

text \<open>
  C7: One thing at a time. In every reachable state, each context has at most one activity: a read of a
  client or server, a write to a server, a look-up, a connection attempt, a handshake, an event other
  than WRITE, the acknowledgement of a completed exchange, or that of a CONNECT request. So of all the
  operations of a context, pending or with a queued handler, at most one is not a timer or a write to
  the client.
\<close>

theorem one_activity_at_a_time:
  assumes "reachable env cm w"
  shows "activities w k \<le> 1 \<and> length (filter (op_busy w k) (outstanding w)) \<le> 1"
proof -
  have a: "activities w k \<le> 1" using lawfulD(3)[OF reachable_lawful[OF assms], of k] by simp
  then show ?thesis using outstanding_busy[of w k] by (simp add: activities_def)
qed

theorem one_activity_at_a_time_witness:
  "\<exists>w c. play tunnel tunnelling (first_world tunnel ready_manager) = Some (Inr w) \<and> w_conns w 3 = Some c \<and>
     Write_op 3 req_text \<in> set (outstanding w) \<and> activities w (c_context c) \<le> 1"
  using tunnel_run one_activity_at_a_time[OF play_keeps[OF first_world_reachable]] by blast

text \<open>
  C6: Requests of an https context are encrypted. In every reachable state, when bytes are being written
  to the server of an https context, its socket uses TLS in the role of the client, and the
  handshake is neither under way nor waiting to be handled: no byte of a request goes over the plain
  socket or overtakes the handshake.
\<close>

theorem https_requests_use_tls:
  assumes "reachable env cm w" and c: "w_conns w s = Some c" and k: "c_kind c = Server"
    and "https (w_contexts w (c_context c))" and o: "Write_op s d \<in> set (outstanding w)"
  shows "\<exists>t. c_ssl c = Some t \<and> ssl_type t = Ssl_client \<and> Handshake_op s \<notin> set (outstanding w)"
proof -
  note l = reachable_lawful[OF assms(1)]
  have j: "Ready (Write_op s d) Aborted \<in># jobs w" using o by (simp add: job_outstanding)
  then obtain t where t: "c_ssl c = Some t" using guardedD(3)[OF lawfulD(2)[OF l] c k] assms(4) by blast
  have "typed w" using typing.always assms(1) unfolding reachable_def .
  then have "typed_conn c" using c by (simp add: typed_def)
  then have "ssl_type t = Ssl_client" using k t by (simp add: typed_conn_def)
  moreover have "Handshake_op s \<notin> set (outstanding w)"
  proof
    assume h: "Handshake_op s \<in> set (outstanding w)"
    have "op_busy w (c_context c) (Write_op s d)" "op_busy w (c_context c) (Handshake_op s)"
      using c k by (simp_all add: server_of_def belongs_def)
    moreover have "length (filter (op_busy w (c_context c)) (outstanding w)) \<le> 1"
      using outstanding_busy[of w "c_context c"] lawfulD(3)[OF l, of "c_context c"] by (simp add: activities_def)
    ultimately have "Write_op s d = Handshake_op s" using o h
      by (intro short_list[of _ "filter (op_busy w (c_context c)) (outstanding w)"]) simp_all
    then show False by simp
  qed
  ultimately show ?thesis using t by blast
qed

theorem https_requests_use_tls_witness:
  "\<exists>w c t. play tunnel tunnelling (first_world tunnel ready_manager) = Some (Inr w) \<and> w_conns w 3 = Some c \<and>
     Write_op 3 req_text \<in> set (outstanding w) \<and> c_ssl c = Some t \<and> ssl_type t = Ssl_client"
  using tunnel_run https_requests_use_tls[OF play_keeps[OF first_world_reachable]] by blast

end
