(* ===== verification/Shutdown.thy ===== *)
theory Shutdown
  imports Ownership Privacy
begin

text \<open>
  The end of the program. No connection is leaked, so a signal reaches all of them; and when it finds
  neither an event nor an accepted client in the queue, the program only winds down afterwards: the handlers of the operations that were
  pending find their connections stopped and start nothing, and when the last has run, the \<open>io_service\<close>
  has nothing left and \<open>run\<close> returns.
\<close>

section \<open>Winding down\<close>

text \<open>Handlers that start nothing when everything is stopped: no event, no accepted client, no signal.\<close>

fun calm :: "task \<Rightarrow> bool" where
  "calm (Ready (Accept_op i) r) = (r \<in> {Eof, Failed, Aborted})"
| "calm (Ready p r) = (p \<noteq> Signal_op)"
| "calm (Event_task ev i) = False"
| "calm (Stop_task i) = True"

definition winding :: "'p world \<Rightarrow> bool" where
  "winding w \<longleftrightarrow> world_tended w \<and> typed w \<and> w_client_mgr w = [] \<and> w_server_mgr w = [] \<and> \<not> w_thrown w \<and>
     list_all (\<lambda>p. \<not> is_accept p \<and> p \<noteq> Signal_op) (w_ops w) \<and> list_all calm (w_queue w)"

text \<open>The handlers that are still to run, those of pending operations included.\<close>

definition work :: "'p world \<Rightarrow> nat" where
  "work w = 2 * length (w_ops w) + length (w_queue w)"

lemma winding_stopped:
  assumes "winding w" and "i \<in> mentioned w" and "w_conns w i = Some c"
  shows "c_stopped c"
  using assms by (auto simp: winding_def world_tended_def tended_def cared_def managed_def)

lemma winding_ref:
  assumes "winding w" and "i \<in> set (shared_refs w)"
  shows "\<exists>c. w_conns w i = Some c"
  using assms by (auto simp: winding_def world_tended_def world_ok_def good_def)

text \<open>What a handler may do: mark a timer or a write as over.\<close>

definition only_marks :: "'p world \<Rightarrow> 'p world result \<Rightarrow> bool" where
  "only_marks w m \<longleftrightarrow> (\<exists>i f. m = Inr (modify i f w))"

lemma only_marks_same: "only_marks w (Inr w)"
  unfolding only_marks_def by (intro exI[of _ 0] exI[of _ "\<lambda>c. c"]) (simp add: modify_def option.map_id0[unfolded id_def])

lemma run_stopped:
  assumes c: "w_conns w i = Some c" "c_stopped c" and t: "typed v" "op_fits v p" "w_conns v i = Some c" and p: "op_refs p = [i]"
  shows "only_marks w (run_task env (Ready p r) w)"
proof (cases p)
  case (Write_op j d)
  then have "run_task env (Ready p r) w = Inr (modify i (\<lambda>c. c\<lparr>c_writing := False\<rparr>) w)"
    using c p by (simp add: on_written_def conn_def)
  then show ?thesis unfolding only_marks_def by blast
next
  case (Timer_op j s n)
  have "\<exists>f. on_timer i n r w = Inr (modify i f w)"
  proof (cases r)
    case (Done x y)
    have "on_timer i n r w = Inr (modify i (\<lambda>c. c\<lparr>c_timer := (c_timer c)\<lparr>triggered := True\<rparr>\<rparr>)
        (modify i (\<lambda>c. c\<lparr>c_timer := (c_timer c)\<lparr>running := False\<rparr>\<rparr>) w))"
      using c Done by (simp add: on_timer_def conn_def stop_def)
    then show ?thesis by (auto simp: modify_def option.map_comp o_def)
  qed (use c in \<open>auto simp: on_timer_def conn_def\<close>)
  then show ?thesis using Timer_op p unfolding only_marks_def by auto
next
  case (Connect_op j)
  then have "c_kind c = Server" using t p by (auto simp: fits_kind_def)
  then show ?thesis using c p Connect_op only_marks_same[of w] by (simp add: conn_def server_on_connect_def)
qed (use c p only_marks_same[of w] in \<open>auto simp: conn_def client_on_read_def server_on_read_def server_on_resolve_def
      client_on_handshake_def server_on_handshake_def split: conn_kind.split\<close>)

lemma winding_run:
  assumes w: "winding w" and q: "w_queue w = t # q"
  shows "only_marks (w\<lparr>w_queue := q, w_pinned := task_refs t\<rparr>) (run_task env t (w\<lparr>w_queue := q, w_pinned := task_refs t\<rparr>))"
    (is "only_marks ?p _")
proof -
  have t: "calm t" "typed w" "task_fits w t" using w q by (simp_all add: winding_def typed_def)
  have refs: "set (task_refs t) \<subseteq> set (shared_refs w)" using q by (auto simp: shared_refs_def)
  have stopped: "c_stopped c" if "i \<in> mentioned w" "w_conns w i = Some c" for i c
    using winding_stopped[OF w that] .
  show ?thesis
  proof (cases t)
    case (Ready p r)
    consider (conn) i where "op_refs p = [i]" | (accept) i where "p = Accept_op i" "r \<in> {Eof, Failed, Aborted}"
      using t(1) Ready by (cases p) auto
    then show ?thesis
    proof cases
      case conn
      have m: "i \<in> mentioned w" using q Ready conn by (auto simp: mentioned_def)
      obtain c where c: "w_conns w i = Some c" using winding_ref[OF w, of i] refs Ready conn by auto
      show ?thesis unfolding Ready
        by (rule run_stopped[OF _ stopped[OF m c] t(2) _ c conn]) (use t(3) Ready c in simp_all)
    next
      case accept
      then show ?thesis using Ready only_marks_same[of ?p] by (simp add: on_accept_def)
    qed
  next
    case (Stop_task i)
    obtain c where c: "w_conns w i = Some c" using winding_ref[OF w, of i] refs Stop_task by auto
    have "stop j False ?p = Inr ?p"
      if l: "lock ?p (client_conn (w_contexts w (c_context c))) = Some j \<or> lock ?p (server_conn (w_contexts w (c_context c))) = Some j" for j
    proof -
      have "j \<in> mentioned w" "j \<in> set (shared_refs w)" using l refs q
        by (auto simp: lock_def mentioned_def shared_refs_def split: option.splits if_splits)
      then obtain d where "w_conns w j = Some d" "c_stopped d" using winding_ref[OF w] stopped by blast
      then show ?thesis by (intro stop_stopped[of _ _ d]) simp_all
    qed
    then have "run_task env t ?p = Inr ?p"
      using c Stop_task by (auto simp: conn_def on_stop_def Let_def split: option.split)
    then show ?thesis using only_marks_same[of ?p] by simp
  qed (use t(1) in simp)
qed

lemma calm_pending: "\<not> is_accept p \<Longrightarrow> p \<noteq> Signal_op \<Longrightarrow> calm (Ready p r)"
  by (cases p) simp_all

lemma winding_kept:
  assumes "winding w" and s: "step env w w'" and "w_client_mgr w' = []" and "w_server_mgr w' = []" and "\<not> w_thrown w'"
    and "list_all (\<lambda>p. \<not> is_accept p \<and> p \<noteq> Signal_op) (w_ops w')" and "list_all calm (w_queue w')"
  shows "winding w'"
  using assms ownership.kept[OF _ s] typing.kept[OF _ s] by (simp add: winding_def)

lemma winding_dispatch:
  assumes w: "winding w" and q: "w_queue w = t # q"
  shows "\<exists>w'. dispatch env w = Some (Inr w') \<and> winding w' \<and> Suc (work w') = work w"
proof -
  let ?p = "w\<lparr>w_queue := q, w_pinned := task_refs t\<rparr>"
  obtain i f where r: "run_task env t ?p = Inr (modify i f ?p)"
    using winding_run[OF w q] unfolding only_marks_def by blast
  let ?w' = "release (release (modify i f ?p))"
  have d: "dispatch env w = Some (Inr ?w')"
    using r q w by (simp add: dispatch_def restart_def winding_def release_def)
  have "w_ops ?w' = w_ops w" "w_queue ?w' = q" by (simp_all add: release_def)
  moreover have "winding ?w'"
    by (rule winding_kept[OF w step.Dispatch[OF d]]) (use w q in \<open>simp_all add: release_def winding_def\<close>)
  ultimately show ?thesis using d q by (simp add: work_def)
qed

lemma winding_finish:
  assumes w: "winding w" and p: "p \<in> set (w_ops w)" "possible p r"
  shows "winding (finish p r w) \<and> Suc (work (finish p r w)) = work w"
proof -
  have "\<not> is_accept p \<and> p \<noteq> Signal_op" using w p by (auto simp: winding_def list_all_iff)
  then have "winding (finish p r w)"
    by (intro winding_kept[OF w step.Finish[OF p]])
       (use w set_remove1_subset[of p "w_ops w"] in \<open>auto simp: winding_def finish_def list_all_iff calm_pending\<close>)
  moreover obtain k where "length (w_ops w) = Suc k" using p(1) by (cases "w_ops w") auto
  ultimately show ?thesis using p(1) by (simp add: work_def finish_def length_remove1)
qed

lemma winding_step: "winding w \<Longrightarrow> step env w w' \<Longrightarrow> winding w' \<and> Suc (work w') = work w"
proof (erule step.cases)
  fix v v' assume "winding w" "w = v" "w' = v'" "dispatch env v = Some (Inr v')"
  then show "winding w' \<and> Suc (work w') = work w"
    using winding_dispatch[of v _ _ env] by (cases "w_queue v") (auto simp: dispatch_def)
qed (use winding_finish in blast)

lemma winding_steps: "(step env ^^ n) w w' \<Longrightarrow> winding w \<Longrightarrow> winding w' \<and> n + work w' = work w"
proof (induction n arbitrary: w')
  case (Suc n)
  then obtain v where "(step env ^^ n) w v" "step env v w'" by auto
  then show ?case using Suc.IH[of v] winding_step[of v env w'] Suc.prems(2) by auto
qed simp

lemma winding_progress:
  assumes "winding w"
  shows "\<not> crashes env w f" "(\<nexists>w'. step env w w') \<longleftrightarrow> work w = 0"
proof -
  show "\<not> crashes env w f"
    using winding_dispatch[OF assms, of _ _ env] by (cases "w_queue w") (auto simp: crashes_def dispatch_def)
  show "(\<nexists>w'. step env w w') \<longleftrightarrow> work w = 0"
  proof
    assume none: "\<nexists>w'. step env w w'"
    have "w_queue w = []"
      using winding_dispatch[OF assms, of _ _ env] none step.Dispatch by (cases "w_queue w") blast+
    moreover have "w_ops w = []"
    proof (cases "w_ops w")
      case (Cons p ps)
      have "possible p Aborted" by (cases p) simp_all
      then show ?thesis using none step.Finish[of p w Aborted env] Cons by auto
    qed
    ultimately show "work w = 0" by (simp add: work_def)
  qed (auto dest: winding_step[OF assms])
qed

section \<open>The signal\<close>

text \<open>What stopping does to the operations and the queue: it cancels timers.\<close>

definition cancels :: "'p world \<Rightarrow> 'p world \<Rightarrow> bool" where
  "cancels w w' \<longleftrightarrow> set (w_ops w') \<subseteq> set (w_ops w) \<and> w_current w' = w_current w \<and> w_thrown w' = w_thrown w \<and>
     (\<forall>t \<in> set (w_queue w'). t \<in> set (w_queue w) \<or> (\<exists>i s n. t = Ready (Timer_op i s n) Aborted))"

lemma cancels_refl: "cancels w w"
  by (simp add: cancels_def)

lemma cancels_trans: "cancels u v \<Longrightarrow> cancels v w \<Longrightarrow> cancels u w"
  unfolding cancels_def by auto

lemma cancels_waits: "cancels w (cancel_waits i w)"
  by (auto simp: cancels_def cancel_waits_def elim: is_timer_of.elims)

lemma cancels_stop_one: "whenever (stop_one i w) (cancels w)"
proof -
  have "cancels w (halt i False c (detach i w))" "cancels w (halt i False c (cancel_waits i (detach i w)))" for c
  proof -
    have "cancels w (detach i w)" "cancels (detach i w) (cancel_waits i (detach i w))"
      by (simp add: cancels_def detach_def) (rule cancels_waits)
    moreover have "cancels v (halt i False c v)" for v
      by (simp add: cancels_def halt_def Let_def mgr_erase_def split: conn_kind.split)
    ultimately show "cancels w (halt i False c (detach i w))" "cancels w (halt i False c (cancel_waits i (detach i w)))"
      by (blast intro: cancels_trans)+
  qed
  then show ?thesis by (auto simp: stop_one_def stop_def timer_cancel_def) (simp add: cancels_def detach_def)
qed

lemma cancels_stop_all: "whenever (stop_all kd w) (cancels w)"
proof -
  have "whenever (fold_res stop_one is w) (cancels w)" for "is"
  proof (rule whenever_fold_res[where I = "cancels w", OF _ cancels_refl])
    show "whenever (stop_one i v) (cancels w)" if "cancels w v" for i v
      using cancels_trans[OF that] by (rule whenever_mono[OF cancels_stop_one])
  qed
  then show ?thesis unfolding stop_all_def whenever_bind
    by (rule whenever_mono) (auto simp: cancels_def split: conn_kind.split)
qed

lemma reachable_not_thrown: "reachable env cm w \<Longrightarrow> \<not> w_thrown w"
proof -
  have same: "w_thrown (release v) = w_thrown v" for v by (simp add: release_def)
  have accept: "whenever (start_accept env v) (\<lambda>v'. w_thrown v' = w_thrown v)" for v
    unfolding start_accept_def make_connection_def Let_def
    by (auto simp: set_context_def initiate_def intro!: whenever_any)
  have b: "\<not> w_thrown v" if "boot env cm = Inr v" for v
    using accept[of "initial_world cm"] that by (simp add: boot_def initial_world_def)
  have d: "\<not> w_thrown v'" if disp: "dispatch env v = Some (Inr v')" for v v'
  proof -
    obtain t q where q: "w_queue v = t # q" using disp unfolding dispatch_def by (cases "w_queue v") auto
    obtain v1 v2 where "restart env v1 = Inr v2" "v' = release v2"
      using disp q by (auto simp: dispatch_def elim!: bind_res_InrE)
    then show ?thesis using accept[of "v1\<lparr>w_thrown := False\<rparr>"] by (auto simp: restart_def same split: if_splits)
  qed
  show "reachable env cm w \<Longrightarrow> \<not> w_thrown w"
    unfolding reachable_def
    by (induction rule: reach.induct) (auto simp: b finish_def elim!: step.cases dest: d)
qed

text \<open>What the handler of the signal leaves.\<close>

lemma signal_winds:
  assumes r: "reachable env cm w" and q: "w_queue w = Ready Signal_op r # q" and "list_all calm q"
  shows "\<exists>w1. dispatch env w = Some (Inr w1) \<and> winding w1"
proof -
  let ?p = "w\<lparr>w_queue := q, w_pinned := []\<rparr>"
  have "world_ok w" using reachable_ok[OF r] .
  then have "good {} ?p" using good_pop_other[of w "Ready Signal_op r" q] q by (simp add: world_ok_def)
  from signal_result[OF this] obtain v where v: "on_signal ?p = Inr v" "w_client_mgr v = []" "w_server_mgr v = []"
    "filter is_accept (w_ops v) = []"
    by blast
  obtain w1 w2 where 1: "stop_all Client ?p = Inr w1" "stop_all Server w1 = Inr w2" "v = close_acceptor w2"
    using v(1) by (auto simp: on_signal_def elim!: bind_res_InrE)
  have "cancels ?p w2"
    using cancels_stop_all[of Client ?p] cancels_stop_all[of Server w1] 1 by (auto intro: cancels_trans)
  then have c: "set (w_ops w2) \<subseteq> set (w_ops w)" "w_current w2 = w_current w" "w_thrown w2 = w_thrown w"
    "\<And>t. t \<in> set (w_queue w2) \<Longrightarrow> t \<in> set q \<or> (\<exists>i s n. t = Ready (Timer_op i s n) Aborted)"
    by (auto simp: cancels_def)
  have "signals w \<le> 1" using reachable_tended[OF r] by (simp add: tended_def)
  then have n: "Signal_op \<notin> set (w_ops w)" using q by (auto simp: signals_def outstanding_def filter_empty_conv)
  have t: "\<not> w_thrown v" using reachable_not_thrown[OF r] c(3) 1(3) by (simp add: close_acceptor_def)
  let ?w = "release (release v)"
  have d: "dispatch env w = Some (Inr ?w)"
    using q v(1) t by (simp add: dispatch_def restart_def release_def)
  have s: "step env w ?w" by (rule step.Dispatch[OF d])
  have "calm x" if x: "x \<in> set (w_queue v)" for x
  proof -
    consider "x \<in> set q" | i s n where "x = Ready (Timer_op i s n) Aborted" | p where "x = Ready p Aborted" "is_accept p" "p \<in> set (w_ops w2)"
      using x c(4)[of x] 1(3) by (auto simp: close_acceptor_def)
    then show ?thesis
    proof cases
      case 3
      then show ?thesis by (cases p) simp_all
    qed (use assms(3) in \<open>auto simp: list_all_iff\<close>)
  qed
  moreover have "\<not> is_accept p \<and> p \<noteq> Signal_op" if "p \<in> set (w_ops v)" for p
    using that v(4) n c(1) 1(3) by (auto simp: filter_empty_conv close_acceptor_def)
  moreover have "world_tended ?w" "typed ?w"
    using r ownership.kept[OF _ s] typing.kept[OF _ s] ownership.always typing.always unfolding reachable_def by blast+
  ultimately have "winding ?w"
    using v(2,3) t by (simp add: winding_def release_def list_all_iff)
  then show ?thesis using d by blast
qed

section \<open>Properties\<close>

text \<open>
  C9: No connection is leaked. In every reachable state, every connection that exists is stopped, or is
  held by one of the two managers, so that a signal stops it, or is the one that the acceptor waits with.
\<close>

theorem no_connection_is_leaked:
  assumes "reachable env cm w" and "w_conns w i = Some c"
  shows "c_stopped c \<or> i \<in> set (w_client_mgr w) \<union> set (w_server_mgr w) \<or> w_current w = Some i"
proof -
  have "settled w" using privacy.always[of env cm w] assms(1) by (simp add: reachable_def)
  then have "i \<in> set (shared_refs w)" using assms(2) by (auto simp: settled_def)
  then have "managed w i \<or> w_current w = Some i \<or> i \<in> mentioned w"
    by (auto simp: shared_refs_def managed_def mentioned_def split: option.splits)
       (metis subjects.simps(2,3) task_refs.cases task_refs.simps(2) list.set(1) empty_iff)
  then show ?thesis
    using reachable_tended[OF assms(1)] assms(2) by (auto simp: tended_def cared_def managed_def)
qed

theorem no_connection_is_leaked_witness:
  "\<exists>w c. play tunnel tunnelling (first_world tunnel ready_manager) = Some (Inr w) \<and> w_conns w 3 = Some c \<and>
     (c_stopped c \<or> 3 \<in> set (w_client_mgr w) \<union> set (w_server_mgr w) \<or> w_current w = Some 3)"
  using tunnel_run no_connection_is_leaked[OF play_keeps[OF first_world_reachable]] by blast

text \<open>
  C8: The program ends. Let the handler of the signal be next, with neither an event nor a client that was
  accepted already in the queue behind it (what is there are completions of operations, timers and stop
  requests). Then it does not fault, and it is followed by exactly as many steps as there is work left, two for a pending
  operation and one for a queued handler, in whatever order and with whatever outcomes the operations
  complete: no run goes on for longer or gets stuck before, none ends in a fault, and at the end no
  operation is pending and the queue is empty, so that the \<open>io_service\<close> returns to \<open>main\<close>.
\<close>

theorem clean_shutdown_ends:
  assumes "reachable env cm w" and "w_queue w = Ready Signal_op r # q" and "list_all calm q"
  shows "\<exists>w1. dispatch env w = Some (Inr w1) \<and>
    (\<forall>n w'. (step env ^^ n) w1 w' \<longrightarrow>
       n \<le> work w1 \<and> (\<forall>f. \<not> crashes env w' f) \<and> ((\<nexists>w''. step env w' w'') \<longleftrightarrow> n = work w1) \<and>
       (n = work w1 \<longrightarrow> w_ops w' = [] \<and> w_queue w' = []))"
proof -
  obtain w1 where 1: "dispatch env w = Some (Inr w1)" "winding w1" using signal_winds[OF assms] by blast
  have "n \<le> work w1 \<and> (\<forall>f. \<not> crashes env w' f) \<and> ((\<nexists>w''. step env w' w'') \<longleftrightarrow> n = work w1) \<and>
       (n = work w1 \<longrightarrow> w_ops w' = [] \<and> w_queue w' = [])" if "(step env ^^ n) w1 w'" for n w'
  proof -
    have w: "winding w'" "n + work w' = work w1" using winding_steps[OF that 1(2)] by simp_all
    have "work w' = 0 \<longleftrightarrow> w_ops w' = [] \<and> w_queue w' = []" by (simp add: work_def)
    then show ?thesis using winding_progress[OF w(1)] w(2) by auto
  qed
  with 1(1) show ?thesis by blast
qed

theorem clean_shutdown_ends_witness:
  "\<exists>w1. dispatch sample_setting (finish Signal_op (Done [] 0) (first_world sample_setting new_manager)) = Some (Inr w1) \<and>
     (\<forall>n w'. (step sample_setting ^^ n) w1 w' \<longrightarrow>
       n \<le> work w1 \<and> (\<forall>f. \<not> crashes sample_setting w' f) \<and> ((\<nexists>w''. step sample_setting w' w'') \<longleftrightarrow> n = work w1) \<and>
       (n = work w1 \<longrightarrow> w_ops w' = [] \<and> w_queue w' = []))"
proof -
  let ?w = "finish Signal_op (Done [] 0) (first_world sample_setting new_manager)"
  have b: "w_current (first_world sample_setting new_manager) = Some 1" "w_ops (first_world sample_setting new_manager) = [Signal_op, Accept_op 1]"
    "w_queue (first_world sample_setting new_manager) = []"
    using boot_some[of sample_setting new_manager] by (auto simp: first_world_def)
  have "reachable sample_setting new_manager ?w"
    using first_world_reachable[of sample_setting new_manager] step.Finish[of Signal_op "first_world sample_setting new_manager" "Done [] 0" sample_setting] b
    unfolding reachable_def by (auto intro: reach.Next)
  from clean_shutdown_ends[OF this, of "Done [] 0" "[]"] show ?thesis
    using b by (auto simp: finish_def)
qed

end
