(* ===== verification/Lifetimes.thy ===== *)
theory Lifetimes
  imports Failures
begin

text \<open>
  Which handlers can use a destroyed connection. The shared pointers and the checked weak pointers of the
  program keep alive what a handler works on; a bare \<open>this\<close> and the reference to the socket that is being
  accepted into do not. The lemmas go through the operations and show that none of them looks at a
  connection that does not exist when the one it is called for does.
\<close>

section \<open>Results that used no destroyed object\<close>

definition sound :: "'a result \<Rightarrow> bool" where
  "sound r \<longleftrightarrow> r \<noteq> Inl Use_After_Free"

lemma sound_simps [simp]:
  "sound (Inr x)" "sound (Inl f) = (f \<noteq> Use_After_Free)"
  "sound (bind_res r g) = (sound r \<and> whenever r (\<lambda>x. sound (g x)))"
  "sound (assert_that b)"
  by (cases r; simp add: sound_def assert_that_def)+

lemma sound_conn [simp]: "sound (conn w i) = (i \<in> dom (w_conns w))"
  by (auto simp: conn_def sound_def split: option.split)

lemma sound_fold:
  assumes "\<And>x s. x \<in> set xs \<Longrightarrow> I s \<Longrightarrow> sound (f x s) \<and> whenever (f x s) I" and "I s"
  shows "sound (fold_res f xs s)"
  using assms
proof (induction xs arbitrary: s)
  case (Cons x xs)
  then have "sound (f x s)" "whenever (f x s) I" by simp_all
  then show ?case using Cons by (auto intro: whenever_mono)
qed simp

lemma sound_fold_any: "(\<And>x s. sound (f x s)) \<Longrightarrow> sound (fold_res f xs s)"
  by (rule sound_fold[where I = "\<lambda>_. True"]) simp_all

section \<open>Messages and certificates\<close>

text \<open>The code that works on values has no connection to look at; its faults are of other kinds.\<close>

named_theorems sound_values

lemma sound_memory [sound_values]:
  "sound (new_char n)" "sound (mem_copy d i s j n)" "sound (store_char p i c)" "sound (new_buffer n)"
  by (auto simp: new_char_def mem_copy_def store_char_def new_buffer_def Let_def split: option.split)

lemma sound_buffer [sound_values]:
  "sound (ensure_size n b)" "sound (put_char c b)" "sound (buffer_erase i j b)"
  by (simp_all add: ensure_size_def put_char_def buffer_erase_def Let_def sound_values whenever_any)

lemma sound_append [sound_values]:
  "sound (append_string s b)" "sound (append_cstr s b)" "sound (append_memory p n b)"
  "sound (append_wrapper x b)"
  by (auto simp: append_string_def append_cstr_def append_memory_def append_wrapper_def
      intro!: sound_fold_any whenever_any sound_values)

lemma sound_encode [sound_values]: "sound (encode m e b)"
proof -
  have h: "sound (put_header h b)" for h b
    by (simp add: put_header_def sound_values whenever_any)
  have "sound (first_line_text t m)" for t by (simp add: first_line_text_def split: derived_part.split)
  then have l: "sound (encode_first_line m e b)" for e b
    by (simp add: encode_first_line_def sound_values whenever_any)
  have hs: "sound (encode_headers m e b)" for e b
    by (simp add: encode_headers_def sound_values whenever_any sound_fold_any h)
  have "sound (encode_body m e b)" for e b
    by (simp add: encode_body_def Let_def sound_values whenever_any)
  then show ?thesis
    using l hs by (auto simp: encode_def split: encode_state.split intro!: whenever_any)
qed

lemma sound_message [sound_values]:
  "sound (set_method_uri a u m)" "sound (set_status_message n t m)" "sound (append_body_string s m)"
  "sound (append_body_data p n m)" "sound new_request" "sound new_response" "sound (make_response SSL_REPLY)"
  by (auto simp: set_method_uri_def set_status_message_def append_body_string_def append_body_data_def
      new_request_def new_response_def new_message_def make_response_def
      split: derived_part.split response_type.split intro!: whenever_any sound_values)

lemma sound_callback [sound_values]: "sound (run_callback vc s)"
proof (cases "(vc, s)" rule: run_callback.cases)
qed (auto simp: on_message_begin_def on_url_def on_status_def on_header_field_def on_header_value_def
    on_headers_complete_def on_body_def on_message_complete_def Let_def split: prod.split
    intro!: whenever_any sound_values)

lemma sound_decode [sound_values]: "sound (decode api data d m)"
  by (auto simp: decode_def Let_def split: prod.split intro!: whenever_any sound_fold_any sound_values)

lemma sound_get_certificate [sound_values]: "sound (get_certificate env h s)"
  by (auto simp: get_certificate_def parse_common_name_def set_char_at_def Let_def intro!: whenever_any)

lemma sound_parse_destination [sound_values]: "sound (parse_destination cast m h)"
  by (auto simp: parse_destination_def substr_from_def substr_len_def Let_def
      split: derived_part.split option.split prod.split intro!: whenever_any)

section \<open>Operations of a connection\<close>

text \<open>An operation of a connection that exists; \<open>kept\<close> says that it destroys none.\<close>

definition kept :: "'p world \<Rightarrow> 'p world \<Rightarrow> bool" where
  "kept w w' \<longleftrightarrow> dom (w_conns w) \<subseteq> dom (w_conns w')"

lemma dom_modify [simp]: "dom (w_conns (modify i f w)) = dom (w_conns w)"
  by (auto simp: modify_def)

lemma sound_timers:
  assumes "i \<in> dom (w_conns w)"
  shows "sound (timer_cancel i w)" and "sound (timer_start i t n w)"
    and "whenever (timer_cancel i w) (\<lambda>w'. w_conns w' = w_conns w)" and "whenever (timer_start i t n w) (kept w)"
  using assms by (auto simp: timer_cancel_def timer_start_def kept_def whenever_any)

lemma sound_read: "i \<in> dom (w_conns w) \<Longrightarrow> sound (read i w)"
  by (simp add: read_def whenever_any)

lemma sound_start: "i \<in> dom (w_conns w) \<Longrightarrow> sound (start i w)"
  by (auto simp: start_def client_start_def server_start_def server_connect_def Let_def whenever_any
      split: conn_kind.split intro!: sound_read)

lemma sound_stop: "i \<in> dom (w_conns w) \<Longrightarrow> sound (stop i n w)"
  by (auto simp: stop_def whenever_any sound_timers domI)

lemma sound_on_timer: "i \<in> dom (w_conns w) \<Longrightarrow> sound (on_timer i n r w)"
  by (auto simp: on_timer_def Let_def split: outcome.split intro!: sound_stop)

lemma sound_do_write: "i \<in> dom (w_conns w) \<Longrightarrow> sound (do_write i w)"
  by (auto simp: do_write_def split: list.split intro!: sound_start)

text \<open>Rules for the statements of a handler, one after the other.\<close>

lemma sound_conn_bind:
  "i \<in> dom (w_conns w) \<Longrightarrow> (\<And>c. w_conns w i = Some c \<Longrightarrow> sound (f c)) \<Longrightarrow> sound (bind_res (conn w i) f)"
  by auto

lemma sound_assert_bind: "(b \<Longrightarrow> sound (f ())) \<Longrightarrow> sound (bind_res (assert_that b) f)"
  by (cases b) simp_all

lemma sound_any: "sound r \<Longrightarrow> (\<And>x. sound (f x)) \<Longrightarrow> sound (bind_res r f)"
  by (simp add: whenever_any)

lemma sound_then: "sound r \<Longrightarrow> whenever r P \<Longrightarrow> (\<And>x. P x \<Longrightarrow> sound (f x)) \<Longrightarrow> sound (bind_res r f)"
  by (auto intro: whenever_mono)

lemma sound_after_cancel:
  assumes "i \<in> dom (w_conns w)" and "\<And>w'. w_conns w' = w_conns w \<Longrightarrow> sound (f w')"
  shows "sound (bind_res (if b then cancel_timer i w else Inr w) f)"
  using assms sound_timers[OF assms(1)] by (auto intro: whenever_mono)

lemma sound_if: "(b \<Longrightarrow> sound x) \<Longrightarrow> (\<not> b \<Longrightarrow> sound y) \<Longrightarrow> sound (if b then x else y)"
  by simp

lemmas sound_steps = sound_conn_bind sound_assert_bind sound_after_cancel

lemma sound_write_out: "i \<in> dom (w_conns w) \<Longrightarrow> sound (write_out i w)"
  unfolding write_out_def by (intro sound_steps sound_do_write) simp_all

lemma sound_write_message: "i \<in> dom (w_conns w) \<Longrightarrow> sound (write_message i m w)"
  unfolding write_message_def
  by (intro sound_steps sound_any)
     (auto simp: sound_values push_encoded_def split: prod.split intro!: sound_do_write)

lemma sound_on_write: "i \<in> dom (w_conns w) \<Longrightarrow> sound (on_write i w)"
  by (auto simp: on_write_def client_on_write_def server_on_write_def split: conn_kind.split intro!: sound_read)

lemma sound_on_written: "i \<in> dom (w_conns w) \<Longrightarrow> sound (on_written i r w)"
  unfolding on_written_def Let_def
  by (rule sound_conn_bind)
     (auto split: outcome.split list.split simp del: sound_simps(3) simp: sound_values
       intro!: sound_any sound_stop sound_on_write sound_do_write)

lemma sound_resets:
  assumes "i \<in> dom (w_conns w)"
  shows "sound (server_reset api i w)" and "sound (client_reset api i w)" and "sound (conn_keep_alive api i w)"
proof -
  let ?w = "reset_codec api i (connection_reset i w)"
  have d: "i \<in> dom (w_conns ?w)" using assms by (simp add: reset_codec_def connection_reset_def)
  show "sound (server_reset api i w)" "sound (conn_keep_alive api i w)"
    using assms sound_timers(2)[OF d] by (auto simp: server_reset_def conn_keep_alive_def)
  show "sound (client_reset api i w)"
    unfolding client_reset_def
    by (intro sound_conn_bind assms sound_then[OF sound_timers(2)[OF d] sound_timers(4)[OF d]] sound_read)
       (use d in \<open>auto simp: kept_def\<close>)
qed

lemma sound_handshakes:
  assumes "i \<in> dom (w_conns w)"
  shows "sound (client_handshake ca d i w)" and "sound (server_handshake i w)"
  using assms
  by (auto simp: client_handshake_def server_handshake_def switch_to_ssl_def async_handshake_def)

section \<open>Completion handlers\<close>

lemma sound_decoded:
  assumes "i \<in> dom (w_conns w)"
  shows "sound (client_decoded i len d m n w)" and "sound (server_decoded i len d m n w)"
  using assms sound_timers(2)
  by (auto simp: client_decoded_def server_decoded_def Let_def intro!: sound_stop sound_read sound_timers(2))

lemma sound_on_read:
  assumes "i \<in> dom (w_conns w)"
  shows "sound (client_on_read api i r w)" and "sound (server_on_read api i r w)"
proof -
  have 1: "sound (bind_res (if b then cancel_timer i w else Inr w) (\<lambda>w1.
           bind_res (decode api data d m) (\<lambda>(d, m, n). client_decoded i len d m n w1)))" for b data d m len
    by (intro sound_after_cancel assms sound_any) (use assms in \<open>auto simp: sound_values intro!: sound_decoded\<close>)
  have 2: "sound (bind_res (if b then cancel_timer i w else Inr w) (\<lambda>w1.
           bind_res (decode api data d m) (\<lambda>(d, m, n). server_decoded i len d m n w1)))" for b data d m len
    by (intro sound_after_cancel assms sound_any) (use assms in \<open>auto simp: sound_values intro!: sound_decoded\<close>)
  show "sound (client_on_read api i r w)"
    unfolding client_on_read_def
    by (rule sound_conn_bind[OF assms], cases r)
       (auto split del: if_split simp del: sound_simps(3) cancel_timer_def intro!: sound_if 1 sound_stop assms)
  show "sound (server_on_read api i r w)"
    unfolding server_on_read_def
    by (rule sound_conn_bind[OF assms], cases r)
       (auto split del: if_split simp del: sound_simps(3) cancel_timer_def intro!: sound_if 2 sound_stop assms)
qed

lemma sound_other_handlers:
  assumes "i \<in> dom (w_conns w)"
  shows "sound (client_on_handshake api i r w)" and "sound (server_on_handshake i r w)"
    and "sound (server_on_resolve i r w)" and "sound (server_on_connect i r w)"
  using assms
  by (auto simp: client_on_handshake_def server_on_handshake_def server_on_resolve_def server_on_connect_def
      split: outcome.split intro!: sound_stop)

section \<open>Contexts\<close>

lemma lock_dom: "good D w \<Longrightarrow> lock w r = Some i \<Longrightarrow> i \<in> dom (w_conns w)"
  using good_dom[OF good_lock] by blast

lemma sound_new_connection: "sound (make_connection api k ctx w)"
  by (auto simp: make_connection_def new_connection_def Let_def sound_values split: conn_kind.split intro!: whenever_any)

lemma sound_open_server:
  assumes "good D w"
  shows "sound (open_server env k m b dest w)"
proof -
  let ?w = "set_context k (\<lambda>x. x\<lparr>https := b\<rparr>) w"
  have "good D ?w" using assms by simp
  note made = good_make_connection[OF this, of "parser env" Server k]
  have out: "sound (case lock v r of None \<Rightarrow> Inl Assertion_Failed
      | Some c \<Rightarrow> if q then bind_res (make_response SSL_REPLY) (\<lambda>resp. write_message c resp v) else write_message s m v)"
    if "good (insert s D) v" for s v q r
    using lock_dom[OF that] good_dom[OF that, of s]
    by (auto split: option.split simp del: sound_simps(3) intro!: sound_any sound_message sound_write_message)
  show ?thesis
    unfolding open_server_def Let_def
  proof (rule sound_then[OF sound_new_connection made], goal_cases)
    case (1 x)
    obtain s w2 where x: "x = (s, w2)" by (cases x)
    with 1 have "good (insert s D) w2" by simp
    then show ?case unfolding x prod.case by (intro out) (simp add: good_mgr_add good_address)
  qed
qed

lemma sound_on_client_message:
  assumes "good D w"
  shows "sound (on_client_message env k m w)"
  unfolding on_client_message_def Let_def
  by (intro sound_assert_bind)
     (auto split: option.split prod.split simp del: sound_simps(3) simp: sound_values
       intro!: sound_any sound_write_message sound_assert_bind sound_open_server assms lock_dom[OF assms])

lemma sound_on_server_message:
  assumes "good D w"
  shows "sound (on_server_message env k m w)"
proof -
  have "sound (bind_res (write_message c m w) (\<lambda>w1.
          if \<not> completed m then read s w1
          else bind_res (conn_keep_alive (parser env) s (set_context k f w1)) (\<lambda>keep.
            if keep then server_reset (parser env) s (set_context k f w1)
            else stop s False (set_context k f w1))))"
    if c: "lock w r = Some c" and s: "lock w r' = Some s" for c s r r' f
  proof (rule sound_then)
    let ?D = "insert s (insert c D)"
    have g: "good ?D w" using good_lock[OF assms c] good_lock[OF _ s] by blast
    show "sound (write_message c m w)" using lock_dom[OF assms c] by (rule sound_write_message)
    show "whenever (write_message c m w) (good ?D)" by (rule good_write_message[OF g]) simp
    fix w1 :: "'a world" assume "good ?D w1"
    then have d: "s \<in> dom (w_conns w1)" by (rule good_dom) simp
    then have "s \<in> dom (w_conns (set_context k f w1))" by simp
    with d show "sound (if \<not> completed m then read s w1
          else bind_res (conn_keep_alive (parser env) s (set_context k f w1)) (\<lambda>keep.
            if keep then server_reset (parser env) s (set_context k f w1)
            else stop s False (set_context k f w1)))"
      by (auto simp del: sound_simps(3) set_context_simps intro!: sound_any sound_read sound_resets sound_stop)
  qed
  then show ?thesis
    unfolding on_server_message_def Let_def by (auto split: option.split simp del: sound_simps(3))
qed

lemma sound_on_stop: "good D w \<Longrightarrow> sound (on_stop k i w)"
  by (auto simp: on_stop_def Let_def split: option.split intro!: sound_stop dest: lock_dom)

lemma sound_on_client_event:
  assumes "good D w" and "i \<in> dom (w_conns w)"
  shows "sound (on_client_event env ev i w)"
  unfolding on_client_event_def Let_def
proof (rule sound_conn_bind[OF assms(2)])
  fix c
  let ?x = "w_contexts w (c_context c)"
  have event: "sound (bind_res (conn w s) (\<lambda>sc. bind_res (get_certificate (library env) (c_host sc) (w_certs w))
      (\<lambda>(cert, mgr). client_handshake cert (fst (run_state get_dh_parameters mgr)) i (w\<lparr>w_certs := mgr\<rparr>))))"
    if "lock w (server_conn ?x) = Some s" for s
    by (intro sound_conn_bind sound_any lock_dom[OF assms(1) that] sound_values)
       (use assms(2) in \<open>auto split: prod.split intro!: sound_handshakes\<close>)
  show "sound (case ev of READ \<Rightarrow> on_client_message env (c_context c) (c_message c) w
     | WRITE \<Rightarrow> if https ?x \<and> \<not> ssl_setup ?x then
           (case lock w (server_conn ?x) of None \<Rightarrow> Inl Assertion_Failed
            | Some s \<Rightarrow> bind_res (conn w s) (\<lambda>sc. bind_res (get_certificate (library env) (c_host sc) (w_certs w)) (\<lambda>(cert, mgr).
                client_handshake cert (fst (run_state get_dh_parameters mgr)) i (w\<lparr>w_certs := mgr\<rparr>))))
         else if exchange_completed ?x then
           bind_res (conn_keep_alive (parser env) i w) (\<lambda>keep.
           if keep then bind_res (client_reset (parser env) i w) (\<lambda>w1. Inr (context_reset (c_context c) w1)) else stop i False w)
         else Inr w
     | HANDSHAKE \<Rightarrow> read i (set_context (c_context c) (\<lambda>x. x\<lparr>ssl_setup := True\<rparr>) w)
     | CONNECT \<Rightarrow> Inl Assertion_Failed)"
    using event assms(2)
    by (auto split: connection_event.split option.split simp del: sound_simps(3)
        intro!: sound_any sound_on_client_message[OF assms(1)] sound_read sound_resets sound_stop)
qed

lemma sound_on_server_event:
  assumes "good D w" and "i \<in> dom (w_conns w)"
  shows "sound (on_server_event env ev i w)"
  unfolding on_server_event_def Let_def
  by (rule sound_conn_bind[OF assms(2)], cases ev)
     (auto intro!: sound_on_server_message[OF assms(1)] sound_handshakes sound_write_out assms(2))

section \<open>The event loop\<close>

lemma sound_start_accept: "sound (start_accept env w)"
  unfolding start_accept_def Let_def by (rule sound_any[OF sound_new_connection]) (auto split: prod.split)

lemma sound_on_accept:
  assumes "good D w" and "r \<in> {Eof, Failed, Aborted} \<or> i \<in> dom (w_conns w)"
  shows "sound (on_accept env i r w)"
proof -
  have "sound (bind_res (start j (mgr_add Client j (modify j f w))) (start_accept env))"
    if "w_current w = Some j" for j f
  proof (intro sound_any sound_start sound_start_accept)
    have "j \<in> set (shared_refs w @ w_pinned w)" using that by (simp add: shared_refs_def)
    then show "j \<in> dom (w_conns (mgr_add Client j (modify j f w)))"
      using assms(1) by (auto simp: good_def mgr_add_def)
  qed
  then show ?thesis
    using assms(2) unfolding on_accept_def Let_def
    by (auto split: option.split outcome.split simp del: sound_simps(3) intro!: sound_conn_bind)
qed

lemma sound_on_signal:
  assumes "good D w"
  shows "sound (on_signal w)"
proof -
  have all: "sound (stop_all k w)" if g: "good D w" for k w
  proof -
    let ?is = "case k of Client \<Rightarrow> w_client_mgr w | Server \<Rightarrow> w_server_mgr w"
    have "set ?is \<subseteq> set (shared_refs w)" by (cases k) (auto simp: shared_refs_def)
    then have "good (set ?is \<union> D) w" by (rule good_union_refs[OF g])
    moreover have "sound (stop_one x v) \<and> whenever (stop_one x v) (good (set ?is \<union> D))"
      if "x \<in> set ?is" and "good (set ?is \<union> D) v" for x v
      using good_stop_one[OF that(2), of x] good_dom[OF that(2), of x] that(1)
      by (auto simp: stop_one_def detach_def intro!: sound_stop)
    ultimately have "sound (fold_res stop_one ?is w)" by (intro sound_fold)
    then show ?thesis unfolding stop_all_def by (simp add: whenever_any)
  qed
  show ?thesis
    unfolding on_signal_def
    by (rule sound_then[OF all[OF assms] good_stop_all[OF assms]], rule sound_then[OF all good_stop_all]) simp_all
qed

text \<open>What a handler refers to without holding it: its bare \<open>this\<close>, or the socket that was accepted into.\<close>

fun bare_pointer :: "task \<Rightarrow> nat option" where
  "bare_pointer (Event_task ev i) = Some i"
| "bare_pointer (Ready (Accept_op i) r) = (if r \<in> {Eof, Failed, Aborted} then None else Some i)"
| "bare_pointer _ = None"

lemma sound_run_task:
  assumes g: "good {} w" and q: "w_queue w = t # q" and p: "w_pinned w = []"
    and bare: "\<And>i. bare_pointer t = Some i \<Longrightarrow> i \<in> dom (w_conns w)"
  shows "sound (run_task env t (w\<lparr>w_queue := q, w_pinned := task_refs t\<rparr>))"
proof -
  let ?w = "w\<lparr>w_queue := q, w_pinned := task_refs t\<rparr>"
  have refs: "i \<in> dom (w_conns ?w)" if "i \<in> set (task_refs t)" for i
    using pop_conns[OF g q p] that by auto
  have other: "good {} ?w" if "\<And>i p. p \<in> set (task_op t) \<Longrightarrow> \<not> is_timer_of i p \<and> \<not> is_write_of i p"
    using good_mono[OF good_pop_other[OF g q p that]] by simp
  show ?thesis
  proof (cases t)
    case (Ready op r)
    show ?thesis
    proof (cases op)
      case (Accept_op i)
      with other have "good {} ?w" by (simp add: Ready)
      moreover have "r \<in> {Eof, Failed, Aborted} \<or> i \<in> dom (w_conns ?w)" using bare Ready Accept_op by auto
      ultimately show ?thesis unfolding Ready Accept_op run_task.simps by (rule sound_on_accept)
    next
      case Signal_op
      with other have "good {} ?w" by (simp add: Ready)
      then show ?thesis unfolding Ready Signal_op run_task.simps by (rule sound_on_signal)
    qed (use refs Ready in \<open>auto split: conn_kind.split simp: client_on_connect_def simp del: sound_simps(3)
      intro!: sound_conn_bind sound_on_read sound_on_written sound_other_handlers sound_on_timer\<close>)
  next
    case (Event_task ev i)
    then have "i \<in> dom (w_conns ?w)" "good {} ?w" using bare other by simp_all
    then show ?thesis unfolding Event_task run_task.simps
      by (intro sound_conn_bind) (auto split: conn_kind.split intro: sound_on_client_event sound_on_server_event)
  next
    case (Stop_task i)
    then have "i \<in> dom (w_conns ?w)" "good {} ?w" using refs other by simp_all
    then show ?thesis unfolding Stop_task run_task.simps by (intro sound_conn_bind sound_on_stop)
  qed
qed

lemma dangling_run_task:
  assumes "bare_pointer t = Some i" and "w_conns w i = None"
  shows "run_task env t (w\<lparr>w_queue := q, w_pinned := ps\<rparr>) = Inl Use_After_Free"
  using assms by (cases t rule: bare_pointer.cases) (auto simp: conn_def on_accept_def split: if_splits)

lemma sound_dispatch:
  assumes "world_ok w" and "w_queue w = t # q" and "\<And>i. bare_pointer t = Some i \<Longrightarrow> i \<in> dom (w_conns w)"
  shows "\<not> crashes env w Use_After_Free"
proof -
  have "sound (restart env v)" for v by (simp add: restart_def sound_start_accept)
  moreover have "sound (run_task env t (w\<lparr>w_queue := q, w_pinned := task_refs t\<rparr>))"
    using assms by (intro sound_run_task) (auto simp: world_ok_def)
  ultimately have "sound (bind_res (run_task env t (w\<lparr>w_queue := q, w_pinned := task_refs t\<rparr>)) (\<lambda>w1.
       bind_res (restart env (release w1)) (\<lambda>w2. Inr (release w2))))"
    by (intro sound_any) simp_all
  then show ?thesis by (simp add: crashes_def dispatch_def assms(2) sound_def)
qed

section \<open>Properties\<close>

text \<open>
  C5: Destroyed connections. In a reachable state the next handler uses a destroyed connection if and
  only if it is an event, which captured a bare \<open>this\<close>, of a connection that is already destroyed when
  it starts, or the completion of an accept that did not fail, into the socket of such a connection. So
  nothing else in the program, with the shared pointers that the other handlers and the managers hold
  and the weak pointers that the contexts lock, ever does, even when a handler stops connections itself.
\<close>

theorem only_bare_pointers_dangle:
  assumes "reachable env cm w"
  shows "crashes env w Use_After_Free \<longleftrightarrow>
           (\<exists>t q i. w_queue w = t # q \<and> bare_pointer t = Some i \<and> w_conns w i = None)"
proof
  assume c: "crashes env w Use_After_Free"
  then obtain t q where q: "w_queue w = t # q" by (auto simp: crashes_def dispatch_def split: list.splits)
  from sound_dispatch[OF reachable_ok[OF assms] q, of env] c
  obtain i where "bare_pointer t = Some i" "i \<notin> dom (w_conns w)" by blast
  with q show "\<exists>t q i. w_queue w = t # q \<and> bare_pointer t = Some i \<and> w_conns w i = None" by (auto simp: domIff)
next
  assume "\<exists>t q i. w_queue w = t # q \<and> bare_pointer t = Some i \<and> w_conns w i = None"
  then show "crashes env w Use_After_Free" by (auto simp: crashes_def dispatch_def dangling_run_task)
qed

theorem only_bare_pointers_dangle_witness:
  "\<exists>w. reachable (demo (get_calls ''Host'' ''h.com'') []) new_manager w \<and>
     crashes (demo (get_calls ''Host'' ''h.com'') []) w Use_After_Free \<and>
     \<not> crashes (demo (get_calls ''Host'' ''h.com'') []) (first_world (demo (get_calls ''Host'' ''h.com'') []) new_manager) Use_After_Free"
proof -
  let ?env = "demo (get_calls ''Host'' ''h.com'') []"
  obtain w w1 q where r: "reachable ?env new_manager w" "dispatch ?env w = Some (Inr w1)"
    and w1: "w_queue w1 = Event_task CONNECT 3 # q" "w_conns w1 3 = None"
    using dangling_run play_keeps[OF first_world_reachable] by blast
  have "reachable ?env new_manager w1"
    using r unfolding reachable_def by (blast intro: reach.Next step.Dispatch)
  moreover from this have "crashes ?env w1 Use_After_Free"
    using only_bare_pointers_dangle[of ?env new_manager w1] w1 by simp
  moreover have "w_queue (first_world ?env new_manager) = []"
    using boot_some[of ?env new_manager] by (auto simp: first_world_def)
  ultimately show ?thesis
    using only_bare_pointers_dangle[OF first_world_reachable, of ?env new_manager] by auto
qed

end
