(* ===== verification/Chunks.thy ===== *)
theory Chunks
  imports HttpDecoder
begin

text \<open>
  Chunked bodies. The parser removes the chunked transfer encoding and the decoder puts it back, chunk
  by chunk, into the body that is forwarded (\<open>on_body\<close> and \<open>on_message_complete\<close> of
  \<open>src/http_decoder.cpp\<close>). A reference reader of the encoding shows that a recipient gets the data.
\<close>

section \<open>A reader of chunked bodies\<close>

definition digit_value :: "char \<Rightarrow> nat option" where
  "digit_value c = (let i = length (takeWhile (\<lambda>x. x \<noteq> c) ''0123456789abcdef'') in if i < 16 then Some i else None)"

fun read_digits :: "nat \<Rightarrow> string \<Rightarrow> nat option" where
  "read_digits acc [] = Some acc"
| "read_digits acc (c # cs) =
     (case digit_value c of None \<Rightarrow> None | Some d \<Rightarrow> read_digits (16 * acc + d) cs)"

definition read_hex :: "string \<Rightarrow> nat option" where
  "read_hex s = (if s = [] then None else read_digits 0 s)"

fun break_line :: "string \<Rightarrow> (string \<times> string) option" where
  "break_line (c # d # s) =
     (if c = CHR 0x0D \<and> d = CHR 0x0A then Some ([], s) else map_option (apfst (Cons c)) (break_line (d # s)))"
| "break_line _ = None"

lemma break_line_shorter: "break_line s = Some (l, r) \<Longrightarrow> length r < length s"
  by (induction s arbitrary: l r rule: break_line.induct) (fastforce split: if_splits)+

text \<open>The sizes and data of the chunks, up to the chunk of size 0 and the empty line after it.\<close>

function dechunk :: "string \<Rightarrow> string option" where
  "dechunk s =
     (case break_line s of
        None \<Rightarrow> None
      | Some (l, r) \<Rightarrow>
          (case read_hex l of
             None \<Rightarrow> None
           | Some n \<Rightarrow>
               if n = 0 then if r = CRLF then Some [] else None
               else if take 2 (drop n r) \<noteq> CRLF then None
               else map_option ((@) (take n r)) (dechunk (drop (n + 2) r))))"
  by pat_completeness auto

termination
proof (relation "measure length", goal_cases)
  case (2 s p l r n)
  then have "length r < length s" by (auto intro: break_line_shorter)
  then show ?case by auto
qed simp

declare dechunk.simps [simp del]

section \<open>Reading what was written\<close>

lemma digit_value_char: "d < 16 \<Longrightarrow> digit_value (digit_char d) = Some d"
proof -
  assume "d < 16"
  then have "d \<in> {0..<16}" by simp
  moreover have "\<forall>d \<in> {0..<16}. digit_value (digit_char d) = Some d" by code_simp
  ultimately show ?thesis by blast
qed

lemma digit_char_plain: "d < 16 \<Longrightarrow> digit_char d \<noteq> CHR 0x0D"
proof -
  assume "d < 16"
  then have "d \<in> {0..<16}" by simp
  moreover have "\<forall>d \<in> {0..<16}. digit_char d \<noteq> CHR 0x0D" by code_simp
  ultimately show ?thesis by blast
qed

lemma read_digits_append:
  "read_digits acc (s @ t) = (case read_digits acc s of None \<Rightarrow> None | Some a \<Rightarrow> read_digits a t)"
  by (induction acc s rule: read_digits.induct) (auto split: option.split)

lemma read_digits_hex: "read_digits 0 (digits_in 16 n) = Some n"
proof (induction n rule: less_induct)
  case (less n)
  show ?case
  proof (cases "n < 16")
    case True
    then show ?thesis by (simp add: digits_in.simps[of 16 n] digit_value_char)
  next
    case False
    then have "digits_in 16 n = digits_in 16 (n div 16) @ [digit_char (n mod 16)]" by (simp add: digits_in.simps[of 16 n])
    then show ?thesis using less.IH[of "n div 16"] False by (simp add: read_digits_append digit_value_char)
  qed
qed

lemma hex_no_cr: "CHR 0x0D \<notin> set (digits_in 16 n)"
proof (induction n rule: less_induct)
  case (less n)
  then show ?case
    using digit_char_plain[of n] digit_char_plain[of "n mod 16"] by (cases "n < 16") (auto simp: digits_in.simps[of 16 n])
qed

lemma hex_not_Nil: "digits_in 16 n \<noteq> []"
  by (simp add: digits_in.simps[of 16 n])

lemma read_hex_string: "read_hex (hex_string n) = Some n"
  by (simp add: read_hex_def hex_string_def read_digits_hex hex_not_Nil)

lemma break_line_here: "CHR 0x0D \<notin> set l \<Longrightarrow> break_line (l @ CRLF @ r) = Some (l, r)"
proof (induction l)
  case Nil
  show ?case by (simp add: CRLF_def)
next
  case (Cons c l)
  then have IH: "break_line (l @ CRLF @ r) = Some (l, r)" by simp
  obtain d s where "l @ CRLF @ r = d # s" by (cases l) (auto simp: CRLF_def)
  then show ?case using Cons.prems IH by auto
qed

lemma dechunk_chunk:
  assumes "x \<noteq> []"
  shows "dechunk (framed True x @ s) = map_option ((@) x) (dechunk s)"
proof -
  have "break_line (framed True x @ s) = Some (hex_string (length x), x @ CRLF @ s)"
    using break_line_here[of "hex_string (length x)" "x @ CRLF @ s"] hex_no_cr by (simp add: framed_def hex_string_def)
  then show ?thesis
    using assms by (subst dechunk.simps) (simp add: read_hex_string CRLF_def)
qed

lemma dechunk_end: "dechunk END_CHUNK = Some []"
  by (subst dechunk.simps) (simp add: END_CHUNK_def read_hex_def digit_value_def CRLF_def)

lemma dechunk_framed: "list_all (\<lambda>x. x \<noteq> []) ps \<Longrightarrow> dechunk (concat (map (framed True) ps) @ END_CHUNK) = Some (concat ps)"
  by (induction ps) (simp_all add: dechunk_chunk dechunk_end)

text \<open>
  C22: Round trip of a body. When the parser hands over the pieces of a body and reports the end of the
  message, the decoder's callbacks succeed and the body they have put together is the data itself for a
  message that is not chunked; for a chunked one it is an encoding of the data in chunks, which the
  reference reader reads back to exactly the data.
\<close>

theorem body_round_trip:
  assumes "dec_has_message p" and "msg_ok N m" and "body_text m = []" and "list_all (\<lambda>x. x \<noteq> []) ps"
    and "length (concat (map (framed (dec_chunked p)) ps) @ closing (dec_chunked p)) \<le> N"
  shows "\<exists>p' m'. fold_res run_callback (map (\<lambda>x. (v, On_body x)) ps @ [(v, On_message_complete)]) (p, m) = Inr (p', m') \<and>
           message_done m' \<and> (if dec_chunked p then dechunk (body_text m') else Some (body_text m')) = Some (concat ps)"
proof -
  obtain m1 where 1: "fold_res run_callback (map (\<lambda>x. (v, On_body x)) ps) (p, m) = Inr (p, m1)" "msg_ok N m1"
    "body_text m1 = concat (map (framed (dec_chunked p)) ps)"
    using body_calls[OF assms(1,2), of ps v] assms(3,5) by auto
  obtain m2 where 2: "run_callback (v, On_message_complete) (p, m1) =
      Inr (p\<lparr>dec_message_done := True\<rparr>, m2\<lparr>message_done := True\<rparr>)" "body_text m2 = body_text m1 @ closing (dec_chunked p)"
    using message_complete_call[OF assms(1) 1(2)] 1(3) assms(5) by auto
  have "map (framed False) ps = ps" by (simp add: framed_def map_idI)
  then have "(if dec_chunked p then dechunk (body_text m2) else Some (body_text m2)) = Some (concat ps)"
    using 1(3) 2(2) dechunk_framed[OF assms(4)] by (auto simp: closing_def)
  then show ?thesis using 1(1) 2(1) by (simp add: fold_res_append body_text_def split: if_splits)
qed

theorem body_round_trip_witness:
  "\<exists>p' m'. fold_res run_callback [(sample_view True, On_body ''hello ''), (sample_view True, On_body ''world''),
       (sample_view True, On_message_complete)]
     ((new_decoder (scripted []) HTTP_REQUEST)\<lparr>dec_has_message := True, dec_chunked := True\<rparr>, sample_request) = Inr (p', m') \<and>
     dechunk (body_text m') = Some ''hello world''"
  using body_round_trip[of "(new_decoder (scripted []) HTTP_REQUEST)\<lparr>dec_has_message := True, dec_chunked := True\<rparr>"
      100 sample_request "[''hello '', ''world'']" "sample_view True"] sample_request_ok
  by (simp add: new_decoder_def body_text_def sample_request_def framed_def closing_def hex_string_def digits_in.simps
      CRLF_def END_CHUNK_def del: run_callback.simps) blast

end
