(* ===== verification/Growth.thy ===== *)
theory Growth
  imports ByteBuffer
begin

text \<open>
  The cost of the buffer's growth policy (\<open>ensure_size\<close> of \<open>include/x/memory/byte_buffer.hpp\<close>): every
  reallocation at least doubles the capacity, so filling a buffer with \<open>N\<close> bytes, by whatever
  operations, reallocates and copies only a logarithmic number of times.
\<close>

section \<open>One operation reallocates at most once\<close>

definition doubles :: "byte_buffer \<Rightarrow> byte_buffer \<Rightarrow> bool" where
  "doubles b b' \<longleftrightarrow> bb_capacity b' = bb_capacity b \<or> 2 * bb_capacity b \<le> bb_capacity b'"

lemma doubles_refl [simp]: "doubles b b"
  by (simp add: doubles_def)

lemma ensure_size_doubles:
  assumes "fits N b" and "bb_size b + n \<le> N"
  shows "whenever (ensure_size n b) (doubles b)"
proof -
  have "succeeds (ensure_size n b) (\<lambda>b'. bb_capacity b' = grown n b)"
    using assms by (intro succeeds_mono[OF ensure_size_spec] fits_room) (simp_all add: fits_def)
  then show ?thesis by (auto simp: succeeds_iff doubles_def grown_def)
qed

lemma put_chars_capacity: "whenever (fold_res put_char s b) (\<lambda>b'. bb_capacity b' = bb_capacity b)"
  by (rule whenever_fold_res) (auto simp: put_char_def intro!: whenever_any)

lemma append_string_doubles:
  assumes "fits N b" and "bb_size b + length s \<le> N"
  shows "whenever (append_string s b) (doubles b)"
  unfolding append_string_def whenever_bind
  by (rule whenever_mono[OF ensure_size_doubles[OF assms]], rule whenever_mono[OF put_chars_capacity])
     (simp add: doubles_def)

lemma append_memory_doubles:
  assumes "fits N b" and "bb_size b + n \<le> N"
  shows "whenever (append_memory p n b) (doubles b)"
  unfolding append_memory_def whenever_bind
  by (rule whenever_mono[OF ensure_size_doubles[OF assms]]) (auto simp: doubles_def intro!: whenever_any)

lemma append_self_doubles:
  assumes "fits N b" and "bb_size b + bb_size b \<le> N"
  shows "whenever (append_self b) (doubles b)"
  unfolding append_self_def whenever_bind
  by (rule whenever_mono[OF ensure_size_doubles[OF assms]]) (auto simp: doubles_def intro!: whenever_any)

lemma run_op_doubles:
  assumes "fits N b" and "op_arg_ok p" and "length (spec_op p (bytes b)) \<le> N"
  shows "whenever (run_op p b) (doubles b)"
proof (cases p)
  case (Erase i j)
  have "bb_ok b" using assms(1) by (simp add: fits_def)
  from buffer_erase_spec[OF this, of i j] show ?thesis
    using Erase by (auto simp: succeeds_iff doubles_def)
qed (use assms fits_size[OF assms(1)] in \<open>auto simp: append_char_eq append_cstr_def append_int_def append_buffer_def
       buffer_clear_def doubles_def[where b' = "b\<lparr>bb_size := 0\<rparr>"]
       intro!: append_string_doubles append_memory_doubles append_self_doubles\<close>)

section \<open>How often a sequence of operations reallocates\<close>

fun reallocations :: "buffer_op list \<Rightarrow> byte_buffer \<Rightarrow> nat" where
  "reallocations [] b = 0"
| "reallocations (p # ps) b = (case run_op p b of
     Inl f \<Rightarrow> 0
   | Inr b' \<Rightarrow> of_bool (bb_capacity b' \<noteq> bb_capacity b) + reallocations ps b')"

lemma reallocations_bound:
  "fits N b \<Longrightarrow> within N ps (bytes b) \<Longrightarrow> bb_capacity b * 2 ^ reallocations ps b \<le> 3 * N + DEFAULT_SIZE"
proof (induction ps arbitrary: b)
  case Nil
  then show ?case by (simp add: fits_def)
next
  case (Cons p ps)
  obtain b' where b': "run_op p b = Inr b'" "fits N b'" "bytes b' = spec_op p (bytes b)"
    using run_op_refines[of N b p] Cons.prems by (auto simp: succeeds_iff)
  have "doubles b b'" using run_op_doubles[of N b p] Cons.prems b'(1) by simp
  then have "bb_capacity b * 2 ^ reallocations (p # ps) b \<le> bb_capacity b' * 2 ^ reallocations ps b'"
    using b'(1) by (auto simp: doubles_def)
  moreover have "bb_capacity b' * 2 ^ reallocations ps b' \<le> 3 * N + DEFAULT_SIZE"
    using Cons b' by simp
  ultimately show ?case by linarith
qed

text \<open>
  C23: The growth of a buffer is logarithmic. Whatever sequence of appends, clears and erasures is run on
  a new buffer without its content ever exceeding \<open>N\<close> bytes, the number \<open>k\<close> of reallocations it causes
  satisfies 1024 * 2^k <= 3 N + 1024.
\<close>

theorem growth_is_logarithmic:
  assumes "N \<le> SINK_LIMIT" and "within N ps []"
  shows "\<exists>b. new_buffer 0 = Inr b \<and> DEFAULT_SIZE * 2 ^ reallocations ps b \<le> 3 * N + DEFAULT_SIZE"
proof -
  obtain b where b: "new_buffer 0 = Inr b" "fits N b" "bytes b = []"
    using fits_new[OF assms(1)] by (auto simp: succeeds_iff)
  then have "bb_capacity b = DEFAULT_SIZE"
    by (auto simp: new_buffer_def new_char_def DEFAULT_SIZE_def MAX_ALLOC_def)
  then show ?thesis using reallocations_bound[OF b(2)] assms(2) b by auto
qed

theorem growth_is_logarithmic_witness:
  "\<exists>b. new_buffer 0 = Inr b \<and> reallocations [Put_string ''abc'', Put_self, Clear, Put_int 7] b = 0"
proof -
  have "to_string_int 7 = ''7''"
    by (simp add: to_string_int_def to_string_nat_def digits_in.simps digit_char_def)
  then obtain b where b: "new_buffer 0 = Inr b"
    "DEFAULT_SIZE * 2 ^ reallocations [Put_string ''abc'', Put_self, Clear, Put_int 7] b \<le> 3 * 6 + DEFAULT_SIZE"
    using growth_is_logarithmic[of 6 "[Put_string ''abc'', Put_self, Clear, Put_int 7]"] by (auto simp: SINK_LIMIT_def)
  have "(2::nat) ^ reallocations [Put_string ''abc'', Put_self, Clear, Put_int 7] b < 2 ^ 1"
    using b(2) by (simp add: DEFAULT_SIZE_def)
  then have "reallocations [Put_string ''abc'', Put_self, Clear, Put_int 7] b < 1"
    by (rule power_less_imp_less_exp[rotated]) simp
  then show ?thesis using b(1) by auto
qed

end
