(* ===== verification/SocketWrapper.thy ===== *)
theory SocketWrapper
  imports NetworkProperties
begin

text \<open>
  The class \<open>socket_wrapper\<close> (\<open>include/x/net/socket_wrapper.hpp\<close>): a TCP socket of \<open>asio\<close>, on top of
  which a TLS stream is put by \<open>switch_to_ssl\<close>. The sockets of \<open>asio\<close> are a parameter. The lemmas show
  that the members fit together after any operations, that a wrapper that was switched moves no data
  over the plain socket, and that the connections of \<open>Network\<close>, which keep of it only what TLS was set
  up with, are an abstraction of it.
\<close>

section \<open>The sockets of asio\<close>

text \<open>
  A TCP socket has some state \<open>'s\<close>. The operations that report errors by exceptions return whether
  they threw.
\<close>

record 's tcp_api =
  tcp_new :: 's
  tcp_is_open :: "'s \<Rightarrow> bool"
  tcp_shutdown :: "'s \<Rightarrow> 's \<times> bool"
  tcp_close :: "'s \<Rightarrow> 's \<times> bool"
  tcp_set_option :: "string \<Rightarrow> 's \<Rightarrow> 's \<times> bool"

text \<open>What a TLS context was given, and a TLS stream: the socket it refers to by address, and its verification.\<close>

record tls_context =
  ctx_options :: "ssl_option list"
  ctx_certificate :: int
  ctx_key :: int
  ctx_dh :: int

definition new_tls_context :: tls_context where
  "new_tls_context = \<lparr>ctx_options = [], ctx_certificate = 0, ctx_key = 0, ctx_dh = 0\<rparr>"

record tls_stream =
  next_layer :: nat
  verify_peer :: bool
  verify_callback :: bool

section \<open>The wrapper\<close>

text \<open>\<open>sw_address\<close> is the address of the socket; \<open>sw_role\<close> is indeterminate until it is assigned.\<close>

record 's socket_wrapper =
  use_ssl :: bool
  sw_role :: "handshake_type option"
  sw_address :: nat
  sw_tcp :: 's
  sw_context :: "tls_context option"
  sw_stream :: "tls_stream option"

definition new_socket_wrapper :: "'s tcp_api \<Rightarrow> nat \<Rightarrow> 's socket_wrapper" where
  "new_socket_wrapper api a = \<lparr>use_ssl = False, sw_role = None, sw_address = a, sw_tcp = tcp_new api,
     sw_context = None, sw_stream = None\<rparr>"

text \<open>The TLS stream, which a null pointer may stand for.\<close>

definition the_stream :: "'s socket_wrapper \<Rightarrow> tls_stream result" where
  "the_stream w = (case sw_stream w of None \<Rightarrow> Inl Null_Dereference | Some st \<Rightarrow> Inr st)"

definition plain_socket :: "'s socket_wrapper \<Rightarrow> 's result" where
  "plain_socket w = bind_res
     (if use_ssl w then bind_res (the_stream w) (\<lambda>st. assert_that (next_layer st = sw_address w)) else Inr ())
     (\<lambda>_. Inr (sw_tcp w))"

definition is_open :: "'s tcp_api \<Rightarrow> 's socket_wrapper \<Rightarrow> bool" where
  "is_open api w = tcp_is_open api (sw_tcp w)"

text \<open>An exception of \<open>shutdown\<close> skips \<open>close\<close>; every exception is caught.\<close>

definition close :: "'s tcp_api \<Rightarrow> 's socket_wrapper \<Rightarrow> 's socket_wrapper" where
  "close api w =
     (if is_open api w then
        let (s1, raised) = tcp_shutdown api (sw_tcp w) in
        if raised then w\<lparr>sw_tcp := s1\<rparr> else w\<lparr>sw_tcp := fst (tcp_close api s1)\<rparr>
      else w)"

definition set_socket_option :: "'s tcp_api \<Rightarrow> string \<Rightarrow> 's socket_wrapper \<Rightarrow> 's socket_wrapper result" where
  "set_socket_option api opt w =
     (let (s1, raised) = tcp_set_option api opt (sw_tcp w) in
      if raised then Inl Uncaught_Exception else Inr (w\<lparr>sw_tcp := s1\<rparr>))"

definition wrapper_switch :: "handshake_type \<Rightarrow> certificate \<Rightarrow> int \<Rightarrow> 's socket_wrapper \<Rightarrow> 's socket_wrapper result" where
  "wrapper_switch t ca d w = bind_res (assert_that (\<not> use_ssl w)) (\<lambda>_.
     bind_res
       (if t = Ssl_server then
          bind_res (assert_that (cert_key ca \<noteq> 0 \<and> cert_x509 ca \<noteq> 0 \<and> d \<noteq> 0)) (\<lambda>_.
          Inr (new_tls_context\<lparr>ctx_options := [Default_workarounds, No_sslv2, Single_dh_use],
             ctx_certificate := cert_x509 ca, ctx_key := cert_key ca, ctx_dh := d\<rparr>))
        else Inr new_tls_context) (\<lambda>ctx.
     Inr (w\<lparr>sw_context := Some ctx,
        sw_stream := Some \<lparr>next_layer = sw_address w, verify_peer = (t = Ssl_client), verify_callback = (t = Ssl_client)\<rparr>,
        use_ssl := True, sw_role := Some t\<rparr>)))"

text \<open>The callback for the certificate of the peer: what OpenSSL found, and the subject, which is only logged.\<close>

definition verify_server :: "bool \<Rightarrow> string \<Rightarrow> bool" where
  "verify_server preverified subject = True"

section \<open>Asynchronous operations\<close>

text \<open>The layer that an operation is given to, and what it is to do.\<close>

datatype layer = Plain | Tls

datatype transfer =
    Connect_to string
  | Shake handshake_type
  | Read_some nat
  | Write_full string
  | Write_some string

definition data_layer :: "'s socket_wrapper \<Rightarrow> layer result" where
  "data_layer w = (if use_ssl w then bind_res (the_stream w) (\<lambda>_. Inr Tls) else Inr Plain)"

definition shake_hands :: "'s socket_wrapper \<Rightarrow> (layer \<times> transfer) result" where
  "shake_hands w = bind_res (assert_that (use_ssl w)) (\<lambda>_. bind_res (the_stream w) (\<lambda>_.
     case sw_role w of None \<Rightarrow> Inl Indeterminate_Value | Some t \<Rightarrow> Inr (Tls, Shake t)))"

definition async_connect :: "string \<Rightarrow> 's socket_wrapper \<Rightarrow> (layer \<times> transfer) result" where
  "async_connect endpoints w = Inr (Plain, Connect_to endpoints)"

definition async_read_some :: "nat \<Rightarrow> 's socket_wrapper \<Rightarrow> (layer \<times> transfer) result" where
  "async_read_some n w = bind_res (data_layer w) (\<lambda>l. Inr (l, Read_some n))"

definition async_write :: "string \<Rightarrow> 's socket_wrapper \<Rightarrow> (layer \<times> transfer) result" where
  "async_write x w = bind_res (data_layer w) (\<lambda>l. Inr (l, Write_full x))"

definition async_write_some :: "string \<Rightarrow> 's socket_wrapper \<Rightarrow> (layer \<times> transfer) result" where
  "async_write_some x w = bind_res (data_layer w) (\<lambda>l. Inr (l, Write_some x))"

section \<open>Sequences of calls\<close>

datatype wrapper_call =
    Close
  | Set_option string
  | Switch handshake_type certificate int
  | Handshake
  | Connect string
  | Read nat
  | Write string
  | Write_part string

type_synonym 's wrapper_run = "'s socket_wrapper \<times> (layer \<times> transfer) list"

definition log_transfer :: "('s socket_wrapper \<Rightarrow> (layer \<times> transfer) result) \<Rightarrow> 's wrapper_run \<Rightarrow> 's wrapper_run result" where
  "log_transfer f r = bind_res (f (fst r)) (\<lambda>x. Inr (fst r, snd r @ [x]))"

fun run_call :: "'s tcp_api \<Rightarrow> wrapper_call \<Rightarrow> 's wrapper_run \<Rightarrow> 's wrapper_run result" where
  "run_call api Close (w, l) = Inr (close api w, l)"
| "run_call api (Set_option x) (w, l) = bind_res (set_socket_option api x w) (\<lambda>w'. Inr (w', l))"
| "run_call api (Switch t ca d) (w, l) = bind_res (wrapper_switch t ca d w) (\<lambda>w'. Inr (w', l))"
| "run_call api Handshake r = log_transfer shake_hands r"
| "run_call api (Connect e) r = log_transfer (async_connect e) r"
| "run_call api (Read n) r = log_transfer (async_read_some n) r"
| "run_call api (Write x) r = log_transfer (async_write x) r"
| "run_call api (Write_part x) r = log_transfer (async_write_some x) r"

section \<open>The members fit together\<close>

definition wrapper_ok :: "'s socket_wrapper \<Rightarrow> bool" where
  "wrapper_ok w \<longleftrightarrow>
     (use_ssl w \<longleftrightarrow> sw_role w \<noteq> None) \<and> (use_ssl w \<longleftrightarrow> sw_context w \<noteq> None) \<and> (use_ssl w \<longleftrightarrow> sw_stream w \<noteq> None) \<and>
     (\<forall>st. sw_stream w = Some st \<longrightarrow> next_layer st = sw_address w \<and>
        (verify_peer st \<longleftrightarrow> sw_role w = Some Ssl_client) \<and> (verify_callback st \<longleftrightarrow> verify_peer st)) \<and>
     (\<forall>x. sw_context w = Some x \<longrightarrow>
        (if sw_role w = Some Ssl_server
         then ctx_certificate x \<noteq> 0 \<and> ctx_key x \<noteq> 0 \<and> ctx_dh x \<noteq> 0 \<and> No_sslv2 \<in> set (ctx_options x)
         else x = new_tls_context))"

lemma new_wrapper_ok [simp]: "wrapper_ok (new_socket_wrapper api a)" "use_ssl (new_socket_wrapper api a) = False"
  by (simp_all add: wrapper_ok_def new_socket_wrapper_def)

lemma wrapper_close_simps [simp]:
  "use_ssl (close api w) = use_ssl w" "sw_role (close api w) = sw_role w" "sw_context (close api w) = sw_context w"
  "sw_stream (close api w) = sw_stream w" "sw_address (close api w) = sw_address w"
  by (simp_all add: close_def Let_def split: prod.split)

lemma close_ok [simp]: "wrapper_ok (close api w) = wrapper_ok w"
  by (simp add: wrapper_ok_def)

lemma set_option_ok:
  "whenever (set_socket_option api x w) (\<lambda>w'. (wrapper_ok w \<longrightarrow> wrapper_ok w') \<and> use_ssl w' = use_ssl w)"
  by (auto simp: set_socket_option_def wrapper_ok_def Let_def split: prod.split)

lemma wrapper_switch_eq:
  "wrapper_switch t ca d w =
     (if use_ssl w \<or> t = Ssl_server \<and> (cert_key ca = 0 \<or> cert_x509 ca = 0 \<or> d = 0) then Inl Assertion_Failed
      else Inr (w\<lparr>sw_context := Some (case t of
            Ssl_server \<Rightarrow> \<lparr>ctx_options = [Default_workarounds, No_sslv2, Single_dh_use],
              ctx_certificate = cert_x509 ca, ctx_key = cert_key ca, ctx_dh = d\<rparr>
          | Ssl_client \<Rightarrow> new_tls_context),
        sw_stream := Some \<lparr>next_layer = sw_address w, verify_peer = (t = Ssl_client), verify_callback = (t = Ssl_client)\<rparr>,
        use_ssl := True, sw_role := Some t\<rparr>))"
  by (cases t) (auto simp: wrapper_switch_def new_tls_context_def assert_that_def)

lemma wrapper_switch_ok: "whenever (wrapper_switch t ca d w) (\<lambda>w'. wrapper_ok w' \<and> use_ssl w' \<and> \<not> use_ssl w)"
  by (cases t) (auto simp: wrapper_switch_eq wrapper_ok_def)

lemma role_iff: "wrapper_ok w \<Longrightarrow> sw_role w = None \<longleftrightarrow> \<not> use_ssl w"
  by (auto simp: wrapper_ok_def)

lemma data_layer_ok: "wrapper_ok w \<Longrightarrow> data_layer w = Inr (if use_ssl w then Tls else Plain)"
  by (auto simp: data_layer_def the_stream_def wrapper_ok_def)

lemma shake_hands_ok:
  "wrapper_ok w \<Longrightarrow> shake_hands w = (case sw_role w of None \<Rightarrow> Inl Assertion_Failed | Some t \<Rightarrow> Inr (Tls, Shake t))"
  by (auto simp: shake_hands_def the_stream_def wrapper_ok_def)

lemma plain_socket_ok: "wrapper_ok w \<Longrightarrow> plain_socket w = Inr (sw_tcp w)"
  by (auto simp: plain_socket_def the_stream_def wrapper_ok_def)

section \<open>The interface of a transport that can be secured\<close>

text \<open>
  What a connection relies on: a transport is secured at most once, in one of the two roles, and shakes
  hands exactly when it is secured. \<open>sound\<close> says which states the laws are for.
\<close>

locale transport =
  fixes sound :: "'t \<Rightarrow> bool"
    and role :: "'t \<Rightarrow> handshake_type option"
    and secure :: "handshake_type \<Rightarrow> certificate \<Rightarrow> int \<Rightarrow> 't \<Rightarrow> 't result"
    and shake :: "'t \<Rightarrow> 'r result"
  assumes secured: "sound w \<Longrightarrow> secure t ca d w = Inr w' \<Longrightarrow> role w = None \<and> role w' = Some t \<and> sound w'"
    and refused: "sound w \<Longrightarrow> secure t ca d w = Inl f \<Longrightarrow> f = Assertion_Failed \<and>
          (role w \<noteq> None \<or> t = Ssl_server \<and> (cert_key ca = 0 \<or> cert_x509 ca = 0 \<or> d = 0))"
    and shaken: "sound w \<Longrightarrow> (\<exists>r. shake w = Inr r) \<longleftrightarrow> role w \<noteq> None"
begin

lemma secure_cases:
  assumes "sound w"
  shows "secure t ca d w = Inl Assertion_Failed \<and> (role w \<noteq> None \<or> t = Ssl_server) \<or>
     (\<exists>w'. secure t ca d w = Inr w' \<and> role w = None \<and> role w' = Some t \<and> sound w')"
  using secured[OF assms, of t ca d] refused[OF assms, of t ca d] by (cases "secure t ca d w") auto

lemma secured_once: "sound w \<Longrightarrow> secure t ca d w = Inr w' \<Longrightarrow> secure t' ca' d' w' = Inl Assertion_Failed"
  using secured[of w t ca d w'] secure_cases[of w' t' ca' d'] by auto

lemma shake_secured: "sound w \<Longrightarrow> secure t ca d w = Inr w' \<Longrightarrow> \<exists>r. shake w' = Inr r"
  using secured[of w t ca d w'] shaken[of w'] by auto

lemma client_always: "sound w \<Longrightarrow> role w = None \<Longrightarrow> \<exists>w'. secure Ssl_client ca d w = Inr w'"
  using secure_cases[of w Ssl_client ca d] by auto

end

interpretation wrapper: transport wrapper_ok sw_role wrapper_switch shake_hands
proof
  show "sw_role w = None \<and> sw_role w' = Some t \<and> wrapper_ok w'"
    if "wrapper_ok w" and "wrapper_switch t ca d w = Inr w'" for w w' :: "'s socket_wrapper" and t ca d
    using that wrapper_switch_ok[of t ca d w] role_iff[of w] by (auto simp: wrapper_switch_eq split: if_splits)
  show "f = Assertion_Failed \<and> (sw_role w \<noteq> None \<or> t = Ssl_server \<and> (cert_key ca = 0 \<or> cert_x509 ca = 0 \<or> d = 0))"
    if "wrapper_ok w" and "wrapper_switch t ca d w = Inl f" for w :: "'s socket_wrapper" and t ca d f
    using that role_iff[of w] by (auto simp: wrapper_switch_eq split: if_splits)
  show "(\<exists>r. shake_hands w = Inr r) \<longleftrightarrow> sw_role w \<noteq> None" if "wrapper_ok w" for w :: "'s socket_wrapper"
    using shake_hands_ok[OF that] by (auto split: option.split)
qed

text \<open>A connection of the network model, whose socket is \<open>c_ssl\<close>.\<close>

definition conn_role :: "nat \<Rightarrow> 'p world \<Rightarrow> handshake_type option" where
  "conn_role i w = Option.bind (w_conns w i) (\<lambda>c. map_option ssl_type (c_ssl c))"

lemma switch_to_ssl_eq:
  "w_conns w i = Some c \<Longrightarrow> switch_to_ssl t ca d i w =
     (if c_ssl c \<noteq> None \<or> t = Ssl_server \<and> (cert_key ca = 0 \<or> cert_x509 ca = 0 \<or> d = 0) then Inl Assertion_Failed
      else Inr (w\<lparr>w_conns := (w_conns w)(i \<mapsto> c\<lparr>c_ssl := Some (new_ssl_socket t ca d)\<rparr>)\<rparr>))"
  by (auto simp: switch_to_ssl_def conn_def modify_def assert_that_def)

interpretation conn_transport: transport "\<lambda>w. w_conns w i \<noteq> None" "conn_role i" "\<lambda>t ca d. switch_to_ssl t ca d i" "async_handshake i" for i
proof
  fix w w' :: "'p world" and t ca d f
  assume "w_conns w i \<noteq> None"
  then obtain c where c: "w_conns w i = Some c" by blast
  show "conn_role i w = None \<and> conn_role i w' = Some t \<and> w_conns w' i \<noteq> None" if "switch_to_ssl t ca d i w = Inr w'"
    using that by (cases t) (auto simp: switch_to_ssl_eq[OF c] conn_role_def c new_ssl_socket_def split: if_splits)
  show "f = Assertion_Failed \<and> (conn_role i w \<noteq> None \<or> t = Ssl_server \<and> (cert_key ca = 0 \<or> cert_x509 ca = 0 \<or> d = 0))"
    if "switch_to_ssl t ca d i w = Inl f"
    using that by (auto simp: switch_to_ssl_eq[OF c] conn_role_def c split: if_splits)
  show "(\<exists>r. async_handshake i w = Inr r) \<longleftrightarrow> conn_role i w \<noteq> None"
    by (auto simp: async_handshake_def conn_role_def c conn_def assert_that_def)
qed

text \<open>Both are switched at most once, and can shake hands from then on.\<close>

lemma wrapper_switched_once:
  assumes "wrapper_ok w" and "wrapper_switch t ca d w = Inr w'"
  shows "wrapper_switch t' ca' d' w' = Inl Assertion_Failed \<and> (\<exists>r. shake_hands w' = Inr r)"
  using wrapper.secured_once[OF assms] wrapper.shake_secured[OF assms] by blast

lemma connection_switched_once:
  assumes "switch_to_ssl t ca d i w = Inr w'"
  shows "switch_to_ssl t' ca' d' i w' = Inl Assertion_Failed \<and> (\<exists>r. async_handshake i w' = Inr r)"
proof -
  have "w_conns w i \<noteq> None" using assms by (cases "w_conns w i") (simp_all add: switch_to_ssl_def conn_def)
  then show ?thesis
    using conn_transport.secured_once[OF _ assms] conn_transport.shake_secured[OF _ assms] by blast
qed

section \<open>The layers that the operations are given to\<close>

fun on_plain :: "layer \<times> transfer \<Rightarrow> bool" where
  "on_plain (l, x) = (l = Plain)"

fun moves_no_plain_data :: "layer \<times> transfer \<Rightarrow> bool" where
  "moves_no_plain_data (l, x) = (l = Tls \<or> (case x of Connect_to e \<Rightarrow> True | _ \<Rightarrow> False))"

text \<open>
  What a call hands to which layer, when the wrapper is switched in a role or not, and the calls that fail no
  assertion then.
\<close>

fun handed :: "handshake_type option \<Rightarrow> wrapper_call \<Rightarrow> (layer \<times> transfer) list" where
  "handed r (Connect e) = [(Plain, Connect_to e)]"
| "handed r Handshake = (case r of None \<Rightarrow> [] | Some t \<Rightarrow> [(Tls, Shake t)])"
| "handed r (Read n) = [(if r = None then Plain else Tls, Read_some n)]"
| "handed r (Write x) = [(if r = None then Plain else Tls, Write_full x)]"
| "handed r (Write_part x) = [(if r = None then Plain else Tls, Write_some x)]"
| "handed r _ = []"

fun allowed :: "handshake_type option \<Rightarrow> wrapper_call \<Rightarrow> bool" where
  "allowed r (Switch t ca d) = False"
| "allowed r Handshake = (r \<noteq> None)"
| "allowed r _ = True"

lemma run_call_result:
  assumes "wrapper_ok w"
  shows "case run_call api c (w, l) of
      Inl f \<Rightarrow> f = Uncaught_Exception \<or> f = Assertion_Failed \<and> \<not> allowed (sw_role w) c
    | Inr (w', l') \<Rightarrow> wrapper_ok w' \<and>
        (case c of Switch t ca d \<Rightarrow> sw_role w = None \<and> sw_role w' = Some t \<and> l' = l
         | _ \<Rightarrow> allowed (sw_role w) c \<and> sw_role w' = sw_role w \<and> l' = l @ handed (sw_role w) c)"
proof (cases c)
  case (Set_option x)
  have "sw_role w' = sw_role w" if "set_socket_option api x w = Inr w'" for w'
    using that by (auto simp: set_socket_option_def Let_def split: prod.splits if_splits)
  moreover have "f = Uncaught_Exception" if "set_socket_option api x w = Inl f" for f
    using that by (auto simp: set_socket_option_def Let_def split: prod.splits if_splits)
  ultimately show ?thesis using set_option_ok[of api x w] assms Set_option
    by (cases "set_socket_option api x w") auto
next
  case (Switch t ca d)
  then show ?thesis using wrapper.secured[OF assms, of t ca d] wrapper.refused[OF assms, of t ca d]
    by (cases "wrapper_switch t ca d w") auto
qed (use assms data_layer_ok[OF assms] shake_hands_ok[OF assms] role_iff[OF assms] in
    \<open>auto simp: log_transfer_def async_connect_def async_read_some_def async_write_def async_write_some_def split: option.splits\<close>)

lemma run_calls_result:
  "wrapper_ok w \<Longrightarrow> case fold_res (run_call api) cs (w, l) of
      Inl f \<Rightarrow> f = Uncaught_Exception \<or> f = Assertion_Failed \<and> list_ex (\<lambda>c. \<not> allowed (sw_role w) c) cs
    | Inr (w', l') \<Rightarrow> wrapper_ok w' \<and> (sw_role w' \<noteq> sw_role w \<longrightarrow> list_ex (\<lambda>c. \<not> allowed (sw_role w) c) cs) \<and>
        (sw_role w \<noteq> None \<or> sw_role w' = None \<longrightarrow>
        sw_role w' = sw_role w \<and> list_all (allowed (sw_role w)) cs \<and> l' = l @ concat (map (handed (sw_role w)) cs))"
proof (induction cs arbitrary: w l)
  case (Cons c cs)
  show ?case
  proof (cases "run_call api c (w, l)")
    case (Inl f)
    then show ?thesis using run_call_result[OF Cons.prems, where api = api and c = c and l = l] by auto
  next
    case (Inr r)
    obtain w1 l1 where r: "r = (w1, l1)" by (cases r)
    have 1: "wrapper_ok w1" "case c of Switch t ca d \<Rightarrow> sw_role w = None \<and> sw_role w1 = Some t \<and> l1 = l
         | _ \<Rightarrow> allowed (sw_role w) c \<and> sw_role w1 = sw_role w \<and> l1 = l @ handed (sw_role w) c"
      using run_call_result[OF Cons.prems, where api = api and c = c and l = l] Inr r by simp_all
    show ?thesis using Cons.IH[OF 1(1), where l = l1] 1(2) Inr r
      by (cases "fold_res (run_call api) cs (w1, l1)"; cases c) auto
  qed
qed simp

section \<open>Properties\<close>

text \<open>What the network model keeps of a wrapper.\<close>

definition kept_ssl :: "'s socket_wrapper \<Rightarrow> ssl_socket option" where
  "kept_ssl w = (case (sw_role w, sw_context w, sw_stream w) of
     (Some t, Some x, Some st) \<Rightarrow> Some \<lparr>ssl_type = t, ssl_options = ctx_options x, ssl_certificate = ctx_certificate x,
        ssl_key = ctx_key x, ssl_dh = ctx_dh x, ssl_verify_peer = verify_peer st\<rparr>
   | _ \<Rightarrow> None)"


definition demo_tcp :: "bool tcp_api" where
  "demo_tcp = \<lparr>tcp_new = True, tcp_is_open = id, tcp_shutdown = (\<lambda>s. (s, True)), tcp_close = (\<lambda>s. (False, False)),
     tcp_set_option = (\<lambda>x s. (s, False))\<rparr>"

text \<open>
  C16: A switched socket is private from the moment of the switch. Let any operations be called on a new wrapper,
  then the switch to TLS in some role, and then any operations. The only failures are an exception of
  \<open>set_option\<close> and an assertion, and an assertion fails only for a handshake before the switch, another
  switch, or a server's switch without a complete certificate and parameters. Otherwise the members fit
  together, and every transfer that was called was given to its layer, in order: all of those before the
  switch to the plain socket; of those after it, every handshake, read and write to the TLS stream,
  in the role of the switch, and only connecting to the plain socket.
\<close>

theorem switched_wrapper_is_private:
  "case fold_res (run_call api) (cs @ Switch t ca d # cs') (new_socket_wrapper api a, []) of
     Inl f \<Rightarrow> f = Uncaught_Exception \<or>
       f = Assertion_Failed \<and> (list_ex (\<lambda>c. \<not> allowed None c) cs \<or> list_ex (\<lambda>c. \<not> allowed (Some t) c) cs' \<or>
         t = Ssl_server \<and> (cert_key ca = 0 \<or> cert_x509 ca = 0 \<or> d = 0))
   | Inr (w, l) \<Rightarrow> wrapper_ok w \<and> plain_socket w = Inr (sw_tcp w) \<and> use_ssl w \<and> sw_role w = Some t \<and>
       list_all (allowed None) cs \<and> list_all (allowed (Some t)) cs' \<and>
       l = concat (map (handed None) cs) @ concat (map (handed (Some t)) cs') \<and>
       list_all on_plain (concat (map (handed None) cs)) \<and> list_all moves_no_plain_data (concat (map (handed (Some t)) cs'))"
proof -
  let ?new = "new_socket_wrapper api a"
  have new: "sw_role ?new = None" by (simp add: new_socket_wrapper_def)
  have g: "list_all on_plain (handed None c)" "list_all moves_no_plain_data (handed (Some t) c)" for c by (cases c; simp)+
  show ?thesis
  proof (cases "fold_res (run_call api) cs (?new, [])")
    case (Inl f)
    then show ?thesis using run_calls_result[OF new_wrapper_ok(1)[of api a], where api = api and cs = cs and l = "[]"] new
      by (auto simp: fold_res_append)
  next
    case (Inr r)
    obtain w1 l1 where r: "r = (w1, l1)" by (cases r)
    have 1: "wrapper_ok w1" "sw_role w1 = None \<longrightarrow> list_all (allowed None) cs \<and> l1 = concat (map (handed None) cs)"
      and ra: "sw_role w1 \<noteq> None \<longrightarrow> list_ex (\<lambda>c. \<not> allowed None c) cs"
      using run_calls_result[OF new_wrapper_ok(1)[of api a], where api = api and cs = cs and l = "[]"] Inr r new by auto
    show ?thesis
    proof (cases "wrapper_switch t ca d w1")
      case (Inl f)
      have "list_ex (\<lambda>c. \<not> allowed None c) cs" if "sw_role w1 \<noteq> None" using that ra by simp
      then show ?thesis using wrapper.refused[OF 1(1) Inl] Inl r \<open>fold_res (run_call api) cs (?new, []) = Inr r\<close> by (auto simp: fold_res_append)
    next
      case s: (Inr w2)
      have 2: "sw_role w1 = None" "sw_role w2 = Some t" "wrapper_ok w2" using wrapper.secured[OF 1(1) s] by simp_all
      have "list_all on_plain (concat (map (handed None) cs))" "list_all moves_no_plain_data (concat (map (handed (Some t)) cs'))"
        using g by (auto simp: list_all_iff)
      moreover have "use_ssl v" if "wrapper_ok v" "sw_role v = Some t" for v :: "'a socket_wrapper"
        using that by (simp add: wrapper_ok_def)
      ultimately show ?thesis using run_calls_result[OF 2(3), where api = api and cs = cs' and l = l1] 1(2) 2(1,2) s Inr r
        by (auto simp: fold_res_append plain_socket_ok split: sum.splits)
    qed
  qed
qed
theorem switched_wrapper_is_private_witness:
  "case fold_res (run_call demo_tcp) ([Connect ''h:443''] @ Switch Ssl_client no_certificate 0 # [Handshake, Write ''secret''])
       (new_socket_wrapper demo_tcp 7, []) of
     Inl f \<Rightarrow> False
   | Inr (w, l) \<Rightarrow> sw_role w = Some Ssl_client \<and>
       l = [(Plain, Connect_to ''h:443''), (Tls, Shake Ssl_client), (Tls, Write_full ''secret'')]"
proof -
  have "\<exists>r. fold_res (run_call demo_tcp) ([Connect ''h:443''] @ Switch Ssl_client no_certificate 0 # [Handshake, Write ''secret''])
      (new_socket_wrapper demo_tcp 7, []) = Inr r"
    by (simp add: log_transfer_def async_connect_def wrapper_switch_def shake_hands_def the_stream_def new_socket_wrapper_def
        async_write_def data_layer_def)
  then show ?thesis
    using switched_wrapper_is_private[where api = demo_tcp and cs = "[Connect ''h:443'']" and t = Ssl_client
        and ca = no_certificate and d = 0 and cs' = "[Handshake, Write ''secret'']" and a = 7]
    by (auto simp del: fold_res.simps)
qed

text \<open>
  The connections refine to wrappers. Where a connection of the network model keeps of its socket what
  TLS was set up with, switching the socket to TLS has the same outcome on both, faults included, keeps
  that relation, and a handshake is started by the one exactly when it is by the other, in that role.
\<close>

theorem connection_refines_wrapper:
  assumes "wrapper_ok w" and "w_conns v i = Some c" and "c_ssl c = kept_ssl w"
  shows "(case wrapper_switch t ca d w of
            Inl f \<Rightarrow> switch_to_ssl t ca d i v = Inl f
          | Inr w' \<Rightarrow> wrapper_ok w' \<and>
              switch_to_ssl t ca d i v = Inr (v\<lparr>w_conns := (w_conns v)(i \<mapsto> c\<lparr>c_ssl := kept_ssl w'\<rparr>)\<rparr>)) \<and>
         (case shake_hands w of
            Inl f \<Rightarrow> async_handshake i v = Inl f
          | Inr x \<Rightarrow> async_handshake i v = Inr (initiate (Handshake_op i) v) \<and>
              (\<exists>s. c_ssl c = Some s \<and> x = (Tls, Shake (ssl_type s))))"
proof -
  have u: "c_ssl c = None \<longleftrightarrow> \<not> use_ssl w"
    using assms(1,3) by (auto simp: wrapper_ok_def kept_ssl_def split: option.splits)
  have "case wrapper_switch t ca d w of
      Inl f \<Rightarrow> switch_to_ssl t ca d i v = Inl f
    | Inr w' \<Rightarrow> wrapper_ok w' \<and> switch_to_ssl t ca d i v = Inr (v\<lparr>w_conns := (w_conns v)(i \<mapsto> c\<lparr>c_ssl := kept_ssl w'\<rparr>)\<rparr>)"
    using wrapper_switch_ok[of t ca d w] u
    by (cases t) (auto simp: wrapper_switch_eq switch_to_ssl_eq[OF assms(2)] kept_ssl_def new_ssl_socket_def new_tls_context_def)
  moreover have "sw_role w = map_option ssl_type (c_ssl c)"
    using assms(1,3) by (auto simp: wrapper_ok_def kept_ssl_def split: option.splits)
  ultimately show ?thesis
    using shake_hands_ok[OF assms(1)] assms(2) by (auto simp: async_handshake_def conn_def split: option.splits)
qed

theorem connection_refines_wrapper_witness:
  "\<exists>v. switch_to_ssl Ssl_client no_certificate 0 1 (sample_world (sample_conn Client) (sample_conn Server)) = Inr v \<and>
     map_option ssl_verify_peer (Option.bind (w_conns v 1) c_ssl) = Some True"
proof -
  let ?v = "sample_world (sample_conn Client) (sample_conn Server)" and ?w = "new_socket_wrapper demo_tcp 7"
  have "w_conns ?v 1 = Some (sample_conn Client)" "c_ssl (sample_conn Client) = kept_ssl ?w"
    by (simp_all add: sample_world_def sample_conn_def kept_ssl_def new_socket_wrapper_def)
  from connection_refines_wrapper[OF new_wrapper_ok(1) this, of Ssl_client no_certificate 0] show ?thesis
    by (auto simp: wrapper_switch_eq kept_ssl_def new_socket_wrapper_def)
qed

text \<open>
  Closing. When closing a TCP socket leaves it closed, whether it throws or not, and shutting it down
  does not close it, \<open>close\<close> of the wrapper leaves the socket open exactly when it was open and the
  shutdown threw, as it does when the peer has disconnected: the exception skips the close.
\<close>

theorem close_skipped_after_shutdown_error:
  assumes "\<And>s. \<not> tcp_is_open api (fst (tcp_close api s))" and "\<And>s. tcp_is_open api (fst (tcp_shutdown api s)) = tcp_is_open api s"
  shows "is_open api (close api w) \<longleftrightarrow> is_open api w \<and> snd (tcp_shutdown api (sw_tcp w))"
  using assms(1)[of "fst (tcp_shutdown api (sw_tcp w))"] assms(2)[of "sw_tcp w"]
  by (simp add: close_def is_open_def Let_def split_def)

theorem close_skipped_after_shutdown_error_witness:
  "is_open demo_tcp (close demo_tcp (new_socket_wrapper demo_tcp 1))"
  using close_skipped_after_shutdown_error[of demo_tcp "new_socket_wrapper demo_tcp 1"]
  by (simp add: demo_tcp_def is_open_def new_socket_wrapper_def)

end
