(* ===== verification/Handshakes.thy ===== *)
theory Handshakes
  imports Exchanges
begin

text \<open>
  TLS towards the client: the certificate manager is part of the state of the proxy, its root
  certificate and Diffie-Hellman parameters never change while the event loop runs, and the client of an
  https context is shaken hands with under the certificate made for the host that its server connection
  is for (\<open>on_event\<close> of \<open>src/connection_context.cpp\<close>, \<open>handshake\<close> of \<open>src/client_connection.cpp\<close>,
  \<open>switch_to_ssl\<close> of \<open>include/x/net/socket_wrapper.hpp\<close>).
\<close>

section \<open>The certificate manager while the loop runs\<close>

definition certs_from :: "cert_manager \<Rightarrow> cert_manager \<Rightarrow> bool" where
  "certs_from cm0 cm \<longleftrightarrow> keeps cm0 cm \<and> root cm = root cm0 \<and> dh cm = dh cm0"

lemma certs_from_refl: "manager_ok cm \<Longrightarrow> certs_from cm cm"
  by (simp add: certs_from_def keeps_def)

lemma certs_from_trans: "certs_from cm0 cm1 \<Longrightarrow> certs_from cm1 cm2 \<Longrightarrow> certs_from cm0 cm2"
  by (auto simp: certs_from_def keeps_def intro: map_le_trans)

lemma certs_from_ok: "certs_from cm0 cm \<Longrightarrow> manager_ok cm"
  by (simp add: certs_from_def keeps_def)

lemma get_certificate_from:
  assumes "manager_ok cm" and "get_certificate lib h cm = Inr (c, cm')"
  shows "certs_from cm cm' \<and> (\<exists>n. parse_common_name h = Inr n \<and> (complete c \<longleftrightarrow> certificates cm' n = Some c))"
proof -
  obtain n where n: "parse_common_name h = Inr n" and r: "run_state (certificate_for lib n) cm = (c, cm')"
    using assms(2) by (auto simp: get_certificate_def)
  have "at (dh cm) (root cm) (certificates cm) [] cm" using assms(1) by (simp add: manager_ok_at)
  from hoareD[OF hoare_certificate_for this r] have "dh cm' = dh cm" "root cm' = root cm" by (auto simp: at_def)
  then show ?thesis using certificate_for_keeps[OF assms(1) r] n by (auto simp: certs_from_def)
qed

text \<open>An operation of the network leaves the manager alone, or asks it for a certificate.\<close>

definition trusted :: "cert_manager \<Rightarrow> 'p world result \<Rightarrow> bool" where
  "trusted cm0 m \<longleftrightarrow> whenever m (\<lambda>w. certs_from cm0 (w_certs w))"

lemma trusted_simps [simp]:
  "trusted cm0 (Inr w) = certs_from cm0 (w_certs w)" "trusted cm0 (Inl e)"
  "trusted cm0 (bind_res m f) = whenever m (\<lambda>x. trusted cm0 (f x))"
  by (simp_all add: trusted_def)

lemma certs_updates [simp]:
  "w_certs (modify i f w) = w_certs w" "w_certs (set_context k g w) = w_certs w"
  "w_certs (mgr_add kd i w) = w_certs w" "w_certs (mgr_erase kd i w) = w_certs w"
  "w_certs (initiate p w) = w_certs w" "w_certs (post t w) = w_certs w" "w_certs (cancel_waits i w) = w_certs w"
  "w_certs (halt i notify c w) = w_certs w" "w_certs (detach i w) = w_certs w"
  "w_certs (push_encoded i e b w) = w_certs w" "w_certs (connection_reset i w) = w_certs w"
  "w_certs (reset_codec api i w) = w_certs w" "w_certs (context_reset k w) = w_certs w"
  "w_certs (close_acceptor w) = w_certs w" "w_certs (release w) = w_certs w"
  by (simp_all add: modify_def set_context_def mgr_add_def mgr_erase_def initiate_def post_def cancel_waits_def
      halt_def Let_def detach_def push_encoded_def connection_reset_def reset_codec_def context_reset_def
      close_acceptor_def release_def split: conn_kind.split)

definition faithful :: "'p action \<Rightarrow> bool" where
  "faithful f \<longleftrightarrow> (\<forall>cm0 w. certs_from cm0 (w_certs w) \<longrightarrow> trusted cm0 (f w))"

lemma faithfulI: "(\<And>cm0 w. certs_from cm0 (w_certs w) \<Longrightarrow> trusted cm0 (f w)) \<Longrightarrow> faithful f"
  by (simp add: faithful_def)

lemma faithfulD: "faithful f \<Longrightarrow> certs_from cm0 (w_certs w) \<Longrightarrow> trusted cm0 (f w)"
  by (simp add: faithful_def)

lemma faithful_then:
  "faithful f \<Longrightarrow> certs_from cm0 (w_certs w) \<Longrightarrow> (\<And>w1. certs_from cm0 (w_certs w1) \<Longrightarrow> Q w1) \<Longrightarrow> whenever (f w) Q"
  by (drule (1) faithfulD) (unfold trusted_def, erule whenever_mono, simp)

named_theorems quiet

lemma faithful_timers [quiet]: "faithful (timer_cancel i)" "faithful (timer_start i t n)"
  by (rule faithfulI, simp add: timer_cancel_def timer_start_def)+

lemma faithful_read [quiet]: "faithful (read i)"
  by (rule faithfulI) (simp add: read_def)

lemma faithful_start [quiet]: "faithful (start i)"
  by (rule faithfulI) (auto simp: start_def client_start_def server_start_def server_connect_def Let_def
      split: conn_kind.split intro!: quiet[THEN faithfulD])

lemma faithful_stop [quiet]: "faithful (stop i notify)"
  by (rule faithfulI) (auto simp: stop_def timer_cancel_def)

lemma faithful_on_timer [quiet]: "faithful (on_timer i notify r)"
  by (rule faithfulI) (auto simp: on_timer_def Let_def split: outcome.split intro!: quiet[THEN faithfulD])

lemma faithful_do_write [quiet]: "faithful (do_write i)"
  by (rule faithfulI) (auto simp: do_write_def split: list.split intro!: quiet[THEN faithfulD])

lemma faithful_write_out [quiet]: "faithful (write_out i)"
  by (rule faithfulI) (auto simp: write_out_def timer_cancel_def intro!: quiet[THEN faithfulD])

lemma faithful_write_message [quiet]: "faithful (write_message i m)"
  by (rule faithfulI) (auto simp: write_message_def timer_cancel_def intro!: whenever_any quiet[THEN faithfulD])

lemma faithful_on_write [quiet]: "faithful (on_write i)"
  by (rule faithfulI)
     (auto simp: on_write_def client_on_write_def server_on_write_def split: conn_kind.split intro!: quiet[THEN faithfulD])

lemma faithful_on_written [quiet]: "faithful (on_written i r)"
  by (rule faithfulI)
     (auto simp: on_written_def Let_def split: outcome.split list.split intro!: whenever_any quiet[THEN faithfulD])

lemma faithful_resets [quiet]: "faithful (server_reset api i)" "faithful (client_reset api i)"
  by (rule faithfulI, auto simp: server_reset_def client_reset_def
      intro!: quiet[THEN faithful_then] quiet[THEN faithfulD])+

lemma faithful_handshakes [quiet]: "faithful (client_handshake ca d i)" "faithful (server_handshake i)"
  by (rule faithfulI, simp add: client_handshake_def server_handshake_def switch_to_ssl_def async_handshake_def)+

lemma faithful_decoded [quiet]: "faithful (client_decoded i n d m k)" "faithful (server_decoded i n d m k)"
  by (rule faithfulI, auto simp: client_decoded_def server_decoded_def Let_def intro!: quiet[THEN faithfulD])+

lemma faithful_on_read [quiet]: "faithful (client_on_read api i r)" "faithful (server_on_read api i r)"
  by (rule faithfulI, auto simp: client_on_read_def server_on_read_def timer_cancel_def split: outcome.split
      intro!: whenever_any quiet[THEN faithfulD])+

lemma faithful_other_handlers [quiet]:
  "faithful (client_on_handshake api i r)" "faithful (server_on_handshake i r)" "faithful (server_on_resolve i r)"
  "faithful (server_on_connect i r)" "faithful (client_on_connect i r)"
  by (rule faithfulI, auto simp: client_on_handshake_def server_on_handshake_def server_on_resolve_def
      server_on_connect_def client_on_connect_def split: outcome.split intro!: quiet[THEN faithfulD])+

lemma make_connection_certs: "whenever (make_connection api kd k w) (\<lambda>(i, w'). w_certs w' = w_certs w)"
  by (auto simp: make_connection_def Let_def intro!: whenever_any)

lemma faithful_open_server [quiet]: "faithful (open_server env k m b dest)"
proof (rule faithfulI)
  fix cm0 and w :: "'a world" assume "certs_from cm0 (w_certs w)"
  then show "trusted cm0 (open_server env k m b dest w)"
    unfolding open_server_def Let_def trusted_simps
    by (intro whenever_mono[OF make_connection_certs])
       (auto split: option.split intro!: whenever_any quiet[THEN faithfulD])
qed

lemma faithful_on_client_message [quiet]: "faithful (on_client_message env k m)"
  by (rule faithfulI)
     (auto simp: on_client_message_def Let_def split: option.split intro!: whenever_any quiet[THEN faithfulD])

lemma faithful_on_server_message [quiet]: "faithful (on_server_message env k m)"
  by (rule faithfulI)
     (auto simp: on_server_message_def Let_def conn_keep_alive_def split: option.split
       intro!: quiet[THEN faithful_then] quiet[THEN faithfulD])

text \<open>The only place that uses the manager.\<close>

lemma whenever_certificate:
  assumes "certs_from cm0 cm" and "\<And>c cm'. certs_from cm0 cm' \<Longrightarrow> Q (c, cm')"
  shows "whenever (get_certificate lib h cm) Q"
  using get_certificate_from[OF certs_from_ok[OF assms(1)], of lib h] certs_from_trans[OF assms(1)] assms(2)
  by (cases "get_certificate lib h cm") auto

lemma faithful_on_client_event [quiet]: "faithful (on_client_event env ev i)"
  by (rule faithfulI)
     (auto simp: on_client_event_def Let_def conn_keep_alive_def split: connection_event.split option.split
       intro!: whenever_certificate quiet[THEN faithful_then] quiet[THEN faithfulD])

lemma faithful_on_server_event [quiet]: "faithful (on_server_event env ev i)"
  by (rule faithfulI) (auto simp: on_server_event_def Let_def split: connection_event.split intro!: quiet[THEN faithfulD])

lemma faithful_on_stop [quiet]: "faithful (on_stop k i)"
  by (rule faithfulI) (auto simp: on_stop_def Let_def split: option.split intro!: quiet[THEN faithfulD])

lemma faithful_start_accept [quiet]: "faithful (start_accept env)"
proof (rule faithfulI)
  fix cm0 and w :: "'a world" assume "certs_from cm0 (w_certs w)"
  then show "trusted cm0 (start_accept env w)"
    unfolding start_accept_def Let_def trusted_simps
    by (intro whenever_mono[OF make_connection_certs]) auto
qed

lemma faithful_on_accept [quiet]: "faithful (on_accept env i r)"
  by (rule faithfulI)
     (auto simp: on_accept_def Let_def split: option.split outcome.split
       intro!: quiet[THEN faithful_then] quiet[THEN faithfulD])

lemma faithful_stop_all [quiet]: "faithful (stop_all kd)"
proof (rule faithfulI)
  fix cm0 and w :: "'a world" assume c: "certs_from cm0 (w_certs w)"
  then have "whenever (fold_res stop_one is w) (\<lambda>w1. certs_from cm0 (w_certs w1))" for "is"
    by (rule whenever_fold_res[rotated]) (auto simp: stop_one_def trusted_def[symmetric] intro!: quiet[THEN faithfulD])
  then show "trusted cm0 (stop_all kd w)"
    unfolding stop_all_def trusted_simps
    by (rule whenever_mono) (auto split: conn_kind.split)
qed

lemma faithful_on_signal [quiet]: "faithful on_signal"
  by (rule faithfulI) (auto simp: on_signal_def intro!: quiet[THEN faithful_then])

lemma faithful_run_task [quiet]: "faithful (run_task env t)"
proof (rule faithfulI)
  fix cm0 and w :: "'a world" assume "certs_from cm0 (w_certs w)"
  then show "trusted cm0 (run_task env t w)"
    by (cases "(env, t, w)" rule: run_task.cases) (auto split: conn_kind.split intro!: quiet[THEN faithfulD])
qed

lemma faithful_restart [quiet]: "faithful (restart env)"
  by (rule faithfulI) (auto simp: restart_def intro!: quiet[THEN faithfulD])

lemma certs_from_step:
  assumes "certs_from cm0 (w_certs w)" and "step env w w'"
  shows "certs_from cm0 (w_certs w')"
  using assms(2)
proof (cases rule: step.cases)
  case (Finish p r)
  then show ?thesis using assms(1) by (simp add: finish_def)
next
  case Dispatch
  then obtain t q where q: "w_queue w = t # q" by (cases "w_queue w") (auto simp: dispatch_def)
  let ?run = "bind_res (run_task env t (w\<lparr>w_queue := q, w_pinned := task_refs t\<rparr>)) (\<lambda>w1.
    bind_res (restart env (release w1)) (\<lambda>w2. Inr (release w2)))"
  have "trusted cm0 ?run" using assms(1) by (auto intro!: quiet[THEN faithful_then])
  moreover have "?run = Inr w'" using Dispatch q by (simp add: dispatch_def)
  ultimately show ?thesis by (simp only: trusted_simps)
qed

lemma boot_certs: "whenever (boot env cm) (\<lambda>w. w_certs w = cm \<and> w_accepting w)"
  by (auto simp: boot_def start_accept_def make_connection_def Let_def initial_world_def set_context_def initiate_def
      intro!: whenever_any)

interpretation certs: invariant "\<lambda>w. boot env cm = Inr w \<and> manager_ok cm" "step env" "\<lambda>w. certs_from cm (w_certs w)" for env cm
proof unfold_locales
  fix w assume "boot env cm = Inr w \<and> manager_ok cm"
  then show "certs_from cm (w_certs w)" using boot_certs[of env cm] certs_from_refl by auto
qed (rule certs_from_step)

lemma reachable_certs:
  assumes "manager_ok cm" and "reachable env cm w"
  shows "certs_from cm (w_certs w)"
  using certs.always[of env cm w] assms by (simp add: reachable_def)

section \<open>Properties\<close>

text \<open>
  C19: The certificate manager of a running proxy. In every reachable state it is in order (nothing
  leaked, freed twice or passed as a null pointer, every cached certificate complete), it has the root
  certificate and the Diffie-Hellman parameters that it had when the loop was entered, and no cached
  certificate was dropped or replaced.
\<close>

theorem certificates_stay_in_order:
  assumes "manager_ok cm" and "reachable env cm w"
  shows "manager_ok (w_certs w) \<and> root (w_certs w) = root cm \<and> dh (w_certs w) = dh cm \<and>
         certificates cm \<subseteq>\<^sub>m certificates (w_certs w)"
  using reachable_certs[OF assms] by (simp add: certs_from_def keeps_def)

theorem certificates_stay_in_order_witness:
  "manager_ok (w_certs (first_world sample_setting filled_manager)) \<and>
   certificates (w_certs (first_world sample_setting filled_manager)) ''*.google.com'' = Some \<lparr>cert_key = 5, cert_x509 = 6\<rparr>"
proof -
  have "certificates filled_manager ''*.google.com'' = Some \<lparr>cert_key = 5, cert_x509 = 6\<rparr>" by (simp add: filled_manager_def)
  with certificates_stay_in_order[OF filled_manager_ok first_world_reachable, of sample_setting] show ?thesis
    by (auto simp: map_le_def dom_def)
qed

text \<open>What \<open>handshake\<close> does with the socket.\<close>

lemma client_handshake_result:
  "w_conns w i = Some c \<Longrightarrow> client_handshake ca d i w =
     (if c_ssl c = None \<and> complete ca \<and> d \<noteq> 0
      then Inr (initiate (Handshake_op i) (modify i (\<lambda>c. c\<lparr>c_ssl := Some (new_ssl_socket Ssl_server ca d)\<rparr>) w))
      else Inl Assertion_Failed)"
  by (cases "c_ssl c") (auto simp: client_handshake_def switch_to_ssl_def async_handshake_def conn_def complete_def)

lemma server_handshake_result:
  "w_conns w i = Some c \<Longrightarrow> server_handshake i w =
     (if c_ssl c = None
      then Inr (initiate (Handshake_op i) (modify i (\<lambda>c. c\<lparr>c_ssl := Some (new_ssl_socket Ssl_client no_certificate 0)\<rparr>) w))
      else Inl Assertion_Failed)"
  by (cases "c_ssl c") (auto simp: server_handshake_def switch_to_ssl_def async_handshake_def conn_def)

text \<open>
  C11: The certificate shown to a client. When the reply to CONNECT has been written, the client's socket is
  switched to TLS with the certificate that the manager has for the host of the server connection: it is
  in the cache under the common name of the host afterwards, the socket gets its certificate and key and
  the manager's Diffie-Hellman parameters, and a handshake in the role of the server is started. The
  process ends with a failed assertion exactly when no complete certificate could be obtained, or the
  socket uses TLS already.
\<close>

theorem tls_uses_host_certificate:
  assumes "w_conns w i = Some c" and "https (w_contexts w (c_context c))" and "\<not> ssl_setup (w_contexts w (c_context c))"
    and "lock w (server_conn (w_contexts w (c_context c))) = Some s" and "w_conns w s = Some sc"
    and "parse_common_name (c_host sc) = Inr n" and "manager_ok (w_certs w)" and "dh (w_certs w) \<noteq> 0"
  shows "\<exists>cert mgr. get_certificate (library env) (c_host sc) (w_certs w) = Inr (cert, mgr) \<and>
           (complete cert \<longleftrightarrow> certificates mgr n = Some cert) \<and>
           on_client_event env WRITE i w =
             (if complete cert \<and> c_ssl c = None
              then Inr (initiate (Handshake_op i) (modify i (\<lambda>c. c\<lparr>c_ssl := Some
                \<lparr>ssl_type = Ssl_server, ssl_options = [Default_workarounds, No_sslv2, Single_dh_use],
                 ssl_certificate = cert_x509 cert, ssl_key = cert_key cert, ssl_dh = dh (w_certs w),
                 ssl_verify_peer = False\<rparr>\<rparr>) (w\<lparr>w_certs := mgr\<rparr>)))
              else Inl Assertion_Failed)"
proof -
  obtain cert mgr where g: "get_certificate (library env) (c_host sc) (w_certs w) = Inr (cert, mgr)"
    using assms(6) by (cases "run_state (certificate_for (library env) n) (w_certs w)") (simp add: get_certificate_def)
  have f: "certs_from (w_certs w) mgr" "complete cert \<longleftrightarrow> certificates mgr n = Some cert"
    using get_certificate_from[OF assms(7) g] assms(6) by auto
  then have d: "fst (run_state get_dh_parameters mgr) = dh (w_certs w)"
    by (simp add: certs_from_def get_dh_parameters_def get_state_def)
  have "client_handshake cert (dh (w_certs w)) i (w\<lparr>w_certs := mgr\<rparr>) =
    (if c_ssl c = None \<and> complete cert \<and> dh (w_certs w) \<noteq> 0
     then Inr (initiate (Handshake_op i) (modify i (\<lambda>c. c\<lparr>c_ssl := Some (new_ssl_socket Ssl_server cert (dh (w_certs w)))\<rparr>)
            (w\<lparr>w_certs := mgr\<rparr>)))
     else Inl Assertion_Failed)"
    using assms(1) by (intro client_handshake_result) simp
  then show ?thesis using assms g f(2) d
    by (auto simp: on_client_event_def conn_def new_ssl_socket_def)
qed

definition tls_world :: "(parser_view \<times> callback) list list world" where
  "tls_world = (sample_world (sample_conn Client) ((sample_conn Server)\<lparr>c_host := ''www.google.com''\<rparr>))
     \<lparr>w_contexts := (\<lambda>_. new_context\<lparr>https := True, client_conn := Some 1, server_conn := Some 2\<rparr>),
      w_certs := filled_manager\<lparr>dh := 7\<rparr>\<rparr>"

theorem tls_uses_host_certificate_witness:
  "\<exists>w' c. on_client_event sample_setting WRITE 1 tls_world = Inr w' \<and> w_conns w' 1 = Some c \<and>
     map_option ssl_certificate (c_ssl c) = Some 6 \<and> map_option ssl_key (c_ssl c) = Some 5 \<and>
     map_option ssl_dh (c_ssl c) = Some 7 \<and> Handshake_op 1 \<in> set (w_ops w')"
proof -
  have n: "parse_common_name ''www.google.com'' = Inr ''*.google.com''"
    by (simp add: parse_common_name_eq wildcard_name_def MAX_ALLOC_def)
  have m: "manager_ok (filled_manager\<lparr>dh := 7\<rparr>)"
    using filled_manager_ok by (simp add: manager_ok_def calls_ok_def)
  have g: "get_certificate lib ''www.google.com'' (filled_manager\<lparr>dh := 7\<rparr>) =
      Inr (\<lparr>cert_key = 5, cert_x509 = 6\<rparr>, filled_manager\<lparr>dh := 7\<rparr>)" for lib
    by (simp add: get_certificate_def n certificate_for_cached filled_manager_def)
  from tls_uses_host_certificate[of tls_world 1 "sample_conn Client" 2 "(sample_conn Server)\<lparr>c_host := ''www.google.com''\<rparr>"
      "''*.google.com''" sample_setting] n m g
  show ?thesis
    by (auto simp: tls_world_def sample_world_def sample_conn_def new_context_def lock_def shared_refs_def complete_def
        initiate_def modify_def)
qed

text \<open>
  The first bytes to a server. When the connection to the server is established, an https context starts
  a TLS handshake in the role of the client, which passes the server's certificate to the verification
  callback, and writes nothing; the first queued buffer is written when the handshake is done. In a
  plain context it is written at once.
\<close>

theorem tls_before_first_byte:
  assumes "w_conns w i = Some c" and "c_kind c = Server" and "c_connected c" and "\<not> c_stopped c" and "\<not> c_writing c"
    and "\<not> running (c_timer c)" and "c_buffer_out c = b # bs" and "c_ssl c = None"
  shows "on_server_event env CONNECT i w =
           (if https (w_contexts w (c_context c))
            then Inr (initiate (Handshake_op i) (modify i (\<lambda>c. c\<lparr>c_ssl := Some
              \<lparr>ssl_type = Ssl_client, ssl_options = [], ssl_certificate = 0, ssl_key = 0, ssl_dh = 0,
               ssl_verify_peer = True\<rparr>\<rparr>) w))
            else Inr (initiate (Write_op i (bytes b)) (modify i (\<lambda>c. c\<lparr>c_writing := True\<rparr>) w))) \<and>
         on_server_event env HANDSHAKE i w =
           Inr (initiate (Write_op i (bytes b)) (modify i (\<lambda>c. c\<lparr>c_writing := True\<rparr>) w))"
proof -
  have "write_out i w = Inr (initiate (Write_op i (bytes b)) (modify i (\<lambda>c. c\<lparr>c_writing := True\<rparr>) w))"
    using assms by (simp add: write_out_def do_write_def conn_def)
  then show ?thesis using assms(1,8) server_handshake_result[OF assms(1)]
    by (simp add: on_server_event_def conn_def new_ssl_socket_def)
qed


theorem tls_before_first_byte_witness:
  "\<exists>b w'. on_server_event sample_setting CONNECT 2 (sample_world (sample_conn Client)
       ((sample_conn Server)\<lparr>c_buffer_out := [b]\<rparr>)) = Inr w' \<and> w_ops w' = [Signal_op, Write_op 2 (bytes b)]"
proof -
  define b where "b = projr (new_buffer 0)"
  let ?c = "(sample_conn Server)\<lparr>c_buffer_out := [b]\<rparr>"
  have "c_kind ?c = Server" "c_connected ?c" "\<not> c_stopped ?c" "\<not> c_writing ?c" "\<not> running (c_timer ?c)"
      "c_buffer_out ?c = [b]" "c_ssl ?c = None" "c_context ?c = 0"
    by (simp_all add: sample_conn_def new_timer_def)
  moreover have "w_conns (sample_world (sample_conn Client) ?c) 2 = Some ?c" "w_ops (sample_world (sample_conn Client) ?c) = [Signal_op]"
      "\<not> https (w_contexts (sample_world (sample_conn Client) ?c) 0)"
    by (simp_all add: sample_world_def new_context_def)
  ultimately show ?thesis
    using tls_before_first_byte[of "sample_world (sample_conn Client) ?c" 2 ?c b "[]" sample_setting]
    by (intro exI[of _ b]) (simp add: initiate_def modify_def)
qed

end
