(* ===== verification/Startup.thy ===== *)
theory Startup
  imports Handshakes
begin

text \<open>
  From the start of the process to the event loop: the configuration (\<open>include/x/conf/config.hpp\<close>),
  \<open>server::init\<close> (\<open>include/x/net/server.hpp\<close>, \<open>src/server.cpp\<close>) and \<open>main\<close> (\<open>src/main.cpp\<close>). The property
  tree of boost and the operations of the acceptor are a parameter.
\<close>

section \<open>Configuration\<close>

text \<open>
  \<open>read_ini\<close> is \<open>None\<close> and \<open>get_ushort\<close> is \<open>None\<close> where boost throws the exception that the code catches;
  \<open>acceptor_fails\<close> tells which operations of the acceptor throw.
\<close>

datatype acceptor_op = Acc_open | Acc_reuse_address | Acc_bind nat | Acc_listen

record 'ptree startup_api =
  empty_tree :: 'ptree
  read_ini :: "string \<Rightarrow> 'ptree option"
  get_ushort :: "'ptree \<Rightarrow> string \<Rightarrow> nat option"
  acceptor_fails :: "acceptor_op \<Rightarrow> bool"

record 'ptree config =
  conf_file :: string
  conf_tree :: 'ptree

definition new_config :: "'ptree startup_api \<Rightarrow> 'ptree config" where
  "new_config api = \<lparr>conf_file = ''xproxy.conf'', conf_tree = empty_tree api\<rparr>"

definition load_config :: "'ptree startup_api \<Rightarrow> 'ptree config \<Rightarrow> bool \<times> 'ptree config" where
  "load_config api c = (case read_ini api (conf_file c) of
     None \<Rightarrow> (False, c) | Some t \<Rightarrow> (True, c\<lparr>conf_tree := t\<rparr>))"

text \<open>\<open>get_config<unsigned short>\<close>: whether it succeeded, and the variable's value afterwards.\<close>

definition get_config :: "'ptree startup_api \<Rightarrow> 'ptree config \<Rightarrow> string \<Rightarrow> nat \<Rightarrow> bool \<times> nat" where
  "get_config api c path v0 = (case get_ushort api (conf_tree c) path of
     None \<Rightarrow> (False, v0) | Some v \<Rightarrow> (True, v))"

section \<open>The server before it runs\<close>

record 'ptree server =
  sv_port :: nat
  sv_signals :: "string list"
  sv_acceptor :: "acceptor_op list"
  sv_config :: "'ptree config"
  sv_certs :: cert_manager

definition DEFAULT_SERVER_PORT :: nat where "DEFAULT_SERVER_PORT = 7077"

text \<open>\<open>server::server()\<close>; the uninitialised \<open>port_\<close> is 0.\<close>

definition new_server :: "'ptree startup_api \<Rightarrow> 'ptree server" where
  "new_server api = \<lparr>sv_port = 0, sv_signals = [], sv_acceptor = [], sv_config = new_config api, sv_certs = new_manager\<rparr>"

definition init_signal_handler :: "'ptree server \<Rightarrow> 'ptree server" where
  "init_signal_handler s = s\<lparr>sv_signals := sv_signals s @ [''SIGINT'', ''SIGTERM'']\<rparr>"

definition acceptor_call :: "'ptree startup_api \<Rightarrow> acceptor_op \<Rightarrow> 'ptree server \<Rightarrow> 'ptree server result" where
  "acceptor_call api p s = (if acceptor_fails api p then Inl Uncaught_Exception
     else Inr (s\<lparr>sv_acceptor := sv_acceptor s @ [p]\<rparr>))"

definition init_acceptor :: "'ptree startup_api \<Rightarrow> 'ptree server \<Rightarrow> 'ptree server result" where
  "init_acceptor api s =
     bind_res (acceptor_call api Acc_open s) (\<lambda>s1.
     bind_res (acceptor_call api Acc_reuse_address s1) (\<lambda>s2.
     bind_res (acceptor_call api (Acc_bind (sv_port s)) s2) (\<lambda>s3.
     acceptor_call api Acc_listen s3)))"

definition server_init :: "'ptree startup_api \<Rightarrow> environment \<Rightarrow> 'ptree server \<Rightarrow> (bool \<times> 'ptree server) result" where
  "server_init api lib s =
     (case load_config api (sv_config s) of (loaded, cf) \<Rightarrow>
      let s1 = s\<lparr>sv_config := cf\<rparr> in
      if \<not> loaded then Inr (False, s1)
      else case run_state (init_manager lib) (sv_certs s1) of (certs_ok, cm) \<Rightarrow>
        let s2 = s1\<lparr>sv_certs := cm\<rparr> in
        if \<not> certs_ok then Inr (False, s2)
        else case get_config api cf ''basic.port'' (sv_port s2) of (found, p) \<Rightarrow>
          let s3 = s2\<lparr>sv_port := (if found then p else DEFAULT_SERVER_PORT)\<rparr> in
          bind_res (init_acceptor api (init_signal_handler s3)) (\<lambda>s4. Inr (True, s4)))"

text \<open>
  \<open>main\<close>: \<open>None\<close> for the exit with status -1, otherwise the server and the first state of the event loop.
  \<open>init\<close> is called outside the \<open>try\<close> block, so its exceptions end the process.
\<close>

definition main_program :: "'ptree startup_api \<Rightarrow> 'p setting \<Rightarrow> ('ptree server \<times> 'p world) option result" where
  "main_program api env =
     bind_res (server_init api (library env) (new_server api)) (\<lambda>(ok, s).
     if \<not> ok then Inr None
     else bind_res (boot env (sv_certs s)) (\<lambda>w. Inr (Some (s, w))))"

section \<open>Lemmas\<close>

lemma init_acceptor_result:
  "whenever (init_acceptor api s)
     (\<lambda>s'. s' = s\<lparr>sv_acceptor := sv_acceptor s @ [Acc_open, Acc_reuse_address, Acc_bind (sv_port s), Acc_listen]\<rparr>)"
  by (simp add: init_acceptor_def acceptor_call_def)

lemma init_acceptor_ok:
  "\<forall>p. \<not> acceptor_fails api p \<Longrightarrow> init_acceptor api s =
     Inr (s\<lparr>sv_acceptor := sv_acceptor s @ [Acc_open, Acc_reuse_address, Acc_bind (sv_port s), Acc_listen]\<rparr>)"
  by (simp add: init_acceptor_def acceptor_call_def)

text \<open>What the configured port is.\<close>

definition configured_port :: "'ptree startup_api \<Rightarrow> 'ptree \<Rightarrow> nat" where
  "configured_port api t = (case get_ushort api t ''basic.port'' of None \<Rightarrow> DEFAULT_SERVER_PORT | Some p \<Rightarrow> p)"

lemma server_init_cases:
  assumes "server_init api lib (new_server api) = Inr (ok, s)"
  shows "if ok
         then \<exists>t. read_ini api ''xproxy.conf'' = Some t \<and> run_state (init_manager lib) new_manager = (True, sv_certs s) \<and>
           sv_port s = configured_port api t \<and> sv_signals s = [''SIGINT'', ''SIGTERM''] \<and>
           sv_acceptor s = [Acc_open, Acc_reuse_address, Acc_bind (sv_port s), Acc_listen]
         else read_ini api ''xproxy.conf'' = None \<or> \<not> fst (run_state (init_manager lib) new_manager)"
proof (cases "read_ini api ''xproxy.conf''")
  case None
  then show ?thesis using assms by (auto simp: server_init_def new_server_def load_config_def new_config_def)
next
  case (Some t)
  obtain b cm where i: "run_state (init_manager lib) new_manager = (b, cm)" by fastforce
  show ?thesis
  proof (cases b)
    case False
    then show ?thesis using assms i Some
      by (auto simp: server_init_def new_server_def load_config_def new_config_def)
  next
    case True
    let ?s = "init_signal_handler ((new_server api)\<lparr>sv_config := (new_config api)\<lparr>conf_tree := t\<rparr>, sv_certs := cm,
        sv_port := configured_port api t\<rparr>)"
    have "bind_res (init_acceptor api ?s) (\<lambda>s4. Inr (True, s4)) = Inr (ok, s)"
      using assms i Some True
      by (auto simp: server_init_def new_server_def load_config_def new_config_def get_config_def configured_port_def
          split: option.splits)
    then have "ok \<and> init_acceptor api ?s = Inr s" by auto
    then show ?thesis
      using init_acceptor_result[of api ?s] i True Some by (auto simp: init_signal_handler_def new_server_def)
  qed
qed

text \<open>
  C20: Starting the program. \<open>main\<close> gives up with its exit status only when the configuration cannot be
  read or the certificates cannot be provided. When it reaches the event loop, the acceptor was opened,
  told to reuse addresses, bound and set to listen, in this order, on the configured port or 7077, both
  signals are handled, the certificate manager has a complete root certificate and Diffie-Hellman
  parameters and nothing leaked, and the first state is a start of the runs of the event loop.
\<close>

theorem program_starts_ready:
  assumes "main_program api env = Inr r"
  shows "case r of
      None \<Rightarrow> read_ini api ''xproxy.conf'' = None \<or> \<not> fst (run_state (init_manager (library env)) new_manager)
    | Some (s, w) \<Rightarrow> reachable env (sv_certs s) w \<and> w_certs w = sv_certs s \<and> w_accepting w \<and>
        manager_ok (sv_certs s) \<and> complete (root (sv_certs s)) \<and> dh (sv_certs s) \<noteq> 0 \<and>
        sv_signals s = [''SIGINT'', ''SIGTERM''] \<and>
        sv_acceptor s = [Acc_open, Acc_reuse_address, Acc_bind (sv_port s), Acc_listen] \<and>
        map_option (configured_port api) (read_ini api ''xproxy.conf'') = Some (sv_port s)"
proof -
  obtain ok s where i: "server_init api (library env) (new_server api) = Inr (ok, s)"
    and r: "(if \<not> ok then Inr None else bind_res (boot env (sv_certs s)) (\<lambda>w. Inr (Some (s, w)))) = Inr r"
    using assms by (auto simp: main_program_def)
  show ?thesis
  proof (cases ok)
    case False
    then show ?thesis using server_init_cases[OF i] r by simp
  next
    case True
    then obtain w where w: "boot env (sv_certs s) = Inr w" "r = Some (s, w)" using r by auto
    have "run_state (init_manager (library env)) new_manager = (True, sv_certs s)"
      using server_init_cases[OF i] True by auto
    from init_manager_keeps[OF new_manager_ok this]
    have "manager_ok (sv_certs s) \<and> complete (root (sv_certs s)) \<and> dh (sv_certs s) \<noteq> 0" by (simp add: keeps_def)
    moreover have "reachable env (sv_certs s) w" using w(1) unfolding reachable_def by (rule reach.Start)
    ultimately show ?thesis
      using server_init_cases[OF i] True w boot_certs[of env "sv_certs s"] by auto
  qed
qed

definition sample_startup :: "string startup_api" where
  "sample_startup = \<lparr>empty_tree = [], read_ini = (\<lambda>f. if f = ''xproxy.conf'' then Some ''port=8000'' else None),
     get_ushort = (\<lambda>t p. if p = ''basic.port'' then Some 8000 else None), acceptor_fails = (\<lambda>_. False)\<rparr>"

lemma sample_main: "\<exists>s w. main_program sample_startup sample_setting = Inr (Some (s, w))"
proof -
  obtain cm where cm: "run_state (init_manager no_files) new_manager = (True, cm)"
    using init_no_files by (cases "run_state (init_manager no_files) new_manager") auto
  have "\<exists>s. server_init sample_startup no_files (new_server sample_startup) = Inr (True, s)"
    using cm by (simp add: server_init_def new_server_def load_config_def new_config_def get_config_def sample_startup_def
        init_acceptor_ok Let_def)
  then obtain s where s: "server_init sample_startup no_files (new_server sample_startup) = Inr (True, s)" by blast
  obtain w where "boot sample_setting (sv_certs s) = Inr w" using boot_some[of sample_setting "sv_certs s"] by blast
  moreover have "library sample_setting = no_files" by (simp add: sample_setting_def)
  ultimately show ?thesis using s by (simp add: main_program_def)
qed

theorem program_starts_ready_witness:
  "\<exists>s w. main_program sample_startup sample_setting = Inr (Some (s, w)) \<and> sv_port s = 8000 \<and> dh (sv_certs s) \<noteq> 0 \<and>
     reachable sample_setting (sv_certs s) w"
proof -
  obtain s w where m: "main_program sample_startup sample_setting = Inr (Some (s, w))" using sample_main by blast
  from program_starts_ready[OF this] show ?thesis
    using m by (auto simp: sample_startup_def configured_port_def)
qed

end
