(* ===== verification/ResourceManager.thy ===== *)
theory ResourceManager
  imports Startup "HOL-Library.Sublist"
begin

text \<open>
  The inline code of \<open>include/resource_manager.h\<close>, the resources of an earlier version of the program: its
  configuration with default values, its rules for the hosts that need a proxy, the owners of keys and
  certificates, the names of its certificates, and the instance with its initialisation. The property tree and the functions that the header declares
  without a body are parameters. The lemmas say which hosts a rule is for, and that the names agree with
  those of the certificate manager.
\<close>

section \<open>The configuration\<close>

record 'ptree tree_api =
  ini_read :: "string \<Rightarrow> 'ptree option"
  ptree_ushort :: "'ptree \<Rightarrow> string \<Rightarrow> nat option"
  ptree_int :: "'ptree \<Rightarrow> string \<Rightarrow> int option"
  ptree_string :: "'ptree \<Rightarrow> string \<Rightarrow> string option"

text \<open>The keys are defined outside the header.\<close>

record config_keys =
  kConfPortKey :: string
  kConfThreadCountKey :: string
  kConfLogLevel :: string
  kConfGAEAppIdKey :: string
  kConfGAEDomainKey :: string

record 'ptree server_config =
  conf_file_name :: string
  conf_values :: 'ptree

definition new_server_config :: "'ptree \<Rightarrow> 'ptree server_config" where
  "new_server_config tree = \<lparr>conf_file_name = ''xproxy.conf'', conf_values = tree\<rparr>"

definition LoadConfig :: "'ptree tree_api \<Rightarrow> 'ptree server_config \<Rightarrow> bool \<times> 'ptree server_config" where
  "LoadConfig api c = (case ini_read api (conf_file_name c) of
     None \<Rightarrow> (False, c) | Some t \<Rightarrow> (True, c\<lparr>conf_values := t\<rparr>))"

definition LoadConfig_file :: "'ptree tree_api \<Rightarrow> string \<Rightarrow> 'ptree server_config \<Rightarrow> bool \<times> 'ptree server_config" where
  "LoadConfig_file api file c =
     LoadConfig api (if conf_file_name c \<noteq> file then c\<lparr>conf_file_name := file\<rparr> else c)"

text \<open>\<open>GetConfig\<close> of some type: whether it found a value, and the variable, which may have been uninitialised.\<close>

definition GetConfig :: "('ptree \<Rightarrow> string \<Rightarrow> 'v option) \<Rightarrow> 'ptree server_config \<Rightarrow> string \<Rightarrow> 'v option \<Rightarrow> bool \<times> 'v option" where
  "GetConfig get c path v0 = (case get (conf_values c) path of None \<Rightarrow> (False, v0) | Some v \<Rightarrow> (True, Some v))"

definition found_or :: "bool \<times> 'v option \<Rightarrow> 'v \<Rightarrow> 'v result" where
  "found_or r v = (case r of
     (True, Some x) \<Rightarrow> Inr x | (True, None) \<Rightarrow> Inl Indeterminate_Value | (False, _) \<Rightarrow> Inr v)"

definition GetProxyPort :: "'ptree tree_api \<Rightarrow> config_keys \<Rightarrow> 'ptree server_config \<Rightarrow> nat \<Rightarrow> nat result" where
  "GetProxyPort api ks c d = found_or (GetConfig (ptree_ushort api) c (kConfPortKey ks) None) d"

definition GetThreadCount :: "'ptree tree_api \<Rightarrow> config_keys \<Rightarrow> 'ptree server_config \<Rightarrow> int \<Rightarrow> int result" where
  "GetThreadCount api ks c d = found_or (GetConfig (ptree_int api) c (kConfThreadCountKey ks) None) d"

definition GetLogLevel :: "'ptree tree_api \<Rightarrow> config_keys \<Rightarrow> 'ptree server_config \<Rightarrow> string \<Rightarrow> string result" where
  "GetLogLevel api ks c d = found_or (GetConfig (ptree_string api) c (kConfLogLevel ks) (Some [])) d"

definition GetGAEAppId :: "'ptree tree_api \<Rightarrow> config_keys \<Rightarrow> 'ptree server_config \<Rightarrow> string result" where
  "GetGAEAppId api ks c = found_or (GetConfig (ptree_string api) c (kConfGAEAppIdKey ks) (Some [])) []"

definition GetGAEServerDomain :: "'ptree tree_api \<Rightarrow> config_keys \<Rightarrow> 'ptree server_config \<Rightarrow> string \<Rightarrow> string result" where
  "GetGAEServerDomain api ks c d = found_or (GetConfig (ptree_string api) c (kConfGAEDomainKey ks) (Some [])) d"

section \<open>The rules\<close>

definition new_rule_config :: "string list" where
  "new_rule_config = []"

definition add_domain :: "string \<Rightarrow> string list \<Rightarrow> string list" where
  "add_domain domain domains = domains @ [domain]"

text \<open>\<open>host.compare(pos, len, s) == 0\<close>, which throws when the position is past the end.\<close>

definition compare_equal :: "string \<Rightarrow> nat \<Rightarrow> nat \<Rightarrow> string \<Rightarrow> bool result" where
  "compare_equal host pos len s = (if pos \<le> length host then Inr (take len (drop pos host) = s) else Inl Out_Of_Range)"

fun RequestProxy :: "string list \<Rightarrow> string \<Rightarrow> bool result" where
  "RequestProxy [] host = Inr False"
| "RequestProxy (d # ds) host =
     (if length host < length d then RequestProxy ds host
      else bind_res (compare_equal host (size_sub (length host) (length d)) (length d) d) (\<lambda>eq.
           if eq then Inr True else RequestProxy ds host))"

section \<open>Certificates\<close>

definition GetCommonName :: "string \<Rightarrow> string result" where
  "GetCommonName host =
     (let dot_count = count_list host CHR ''.'' in
      if dot_count < 2 then Inr host
      else let lst = find_last_of CHR ''.'' host npos;
               penult = find_last_of CHR ''.'' host (size_sub lst 1) in
        if size_sub lst penult \<le> 4 then Inr host
        else let first = find_char CHR ''.'' host 0 in
          bind_res (set_char_at host (size_sub first 1) CHR ''*'') (\<lambda>common_name.
          Inr (drop (size_sub first 1) common_name)))"

text \<open>
  The owners of a key with its certificate and of the parameters. A pointer is the number of its object,
  0 if it is null; a destructor is the list of the objects that it frees.
\<close>

record legacy_ca =
  ca_key :: int
  ca_cert :: int

definition new_ca :: legacy_ca where
  "new_ca = \<lparr>ca_key = 0, ca_cert = 0\<rparr>"

definition destroy_ca :: "legacy_ca \<Rightarrow> lib_call list" where
  "destroy_ca ca = (if ca_key ca \<noteq> 0 then [EVP_PKEY_free (ca_key ca)] else []) @
     (if ca_cert ca \<noteq> 0 then [X509_free (ca_cert ca)] else [])"

definition ca_complete :: "legacy_ca \<Rightarrow> bool" where
  "ca_complete ca \<longleftrightarrow> ca_key ca \<noteq> 0 \<and> ca_cert ca \<noteq> 0"

record legacy_dh =
  dh_object :: int

definition new_dh :: legacy_dh where
  "new_dh = \<lparr>dh_object = 0\<rparr>"

definition destroy_dh :: "legacy_dh \<Rightarrow> lib_call list" where
  "destroy_dh d = (if dh_object d \<noteq> 0 then [DH_free (dh_object d)] else [])"

definition dh_present :: "legacy_dh \<Rightarrow> bool" where
  "dh_present d \<longleftrightarrow> dh_object d \<noteq> 0"

text \<open>The manager. Shared pointers are options; nothing in the header depends on who else holds them.\<close>

record legacy_cert_manager =
  mgr_cert_dir :: string
  mgr_root_ca :: "legacy_ca option"
  mgr_dh :: "legacy_dh option"
  mgr_ca_map :: "string \<rightharpoonup> legacy_ca"

definition new_legacy_cert_manager :: legacy_cert_manager where
  "new_legacy_cert_manager = \<lparr>mgr_cert_dir = ''cert/'', mgr_root_ca = None, mgr_dh = None, mgr_ca_map = Map.empty\<rparr>"

definition SetCertificateDirectory :: "string \<Rightarrow> legacy_cert_manager \<Rightarrow> legacy_cert_manager" where
  "SetCertificateDirectory directory m = m\<lparr>mgr_cert_dir := directory\<rparr>"

definition GetCertificateFileName :: "legacy_cert_manager \<Rightarrow> string \<Rightarrow> string" where
  "GetCertificateFileName m common_name =
     mgr_cert_dir m @ (if take 1 common_name = ''*'' then CHR ''^'' # tl common_name else common_name) @ ''.crt''"

definition GetDHParameters :: "legacy_cert_manager \<Rightarrow> legacy_dh option" where
  "GetDHParameters m = (case mgr_dh m of None \<Rightarrow> None | Some d \<Rightarrow> Some d)"

text \<open>The functions on the certificates that the header only declares, on some state \<open>'c\<close>.\<close>

record 'c cert_functions =
  LoadRootCA :: "'c \<Rightarrow> bool \<times> 'c"
  GenerateRootCA :: "'c \<Rightarrow> bool \<times> 'c"
  SaveRootCA :: "'c \<Rightarrow> bool \<times> 'c"
  LoadDHParameters :: "'c \<Rightarrow> bool \<times> 'c"
  GenerateDHParameters :: "'c \<Rightarrow> bool \<times> 'c"
  SaveDHParameters :: "'c \<Rightarrow> bool \<times> 'c"

definition provide :: "('c \<Rightarrow> bool \<times> 'c) \<Rightarrow> ('c \<Rightarrow> bool \<times> 'c) \<Rightarrow> ('c \<Rightarrow> bool \<times> 'c) \<Rightarrow> 'c \<Rightarrow> bool \<times> 'c" where
  "provide load generate save c =
     (case load c of (True, c1) \<Rightarrow> (True, c1)
      | (False, c1) \<Rightarrow> (case generate c1 of (False, c2) \<Rightarrow> (False, c2) | (True, c2) \<Rightarrow> (True, snd (save c2))))"

definition manager_init :: "'ptree tree_api \<Rightarrow> 'c cert_functions \<Rightarrow> 'ptree server_config \<times> 'c \<Rightarrow> bool \<times> 'ptree server_config \<times> 'c" where
  "manager_init api fs r =
     (let (s, conf) = LoadConfig api (fst r);
          (cr, c1) = provide (LoadRootCA fs) (GenerateRootCA fs) (SaveRootCA fs) (snd r);
          (cd, c2) = provide (LoadDHParameters fs) (GenerateDHParameters fs) (SaveDHParameters fs) c1
      in (s \<and> cr \<and> cd, conf, c2))"

text \<open>
  The object of all resources, with its three unique pointers. Its constructor and \<open>instance\<close> have no body
  in the repository, so the object is an argument and its pointers may be null.
\<close>

record ('ptree, 'c) resource_manager =
  res_server_config :: "'ptree server_config option"
  res_rule_config :: "string list option"
  res_cert_manager :: "'c option"

definition pointee :: "'a option \<Rightarrow> 'a result" where
  "pointee p = (case p of None \<Rightarrow> Inl Null_Dereference | Some x \<Rightarrow> Inr x)"

definition GetServerConfig :: "('ptree, 'c) resource_manager \<Rightarrow> 'ptree server_config result" where
  "GetServerConfig r = pointee (res_server_config r)"

definition GetRuleConfig :: "('ptree, 'c) resource_manager \<Rightarrow> string list result" where
  "GetRuleConfig r = pointee (res_rule_config r)"

definition GetCertManager :: "('ptree, 'c) resource_manager \<Rightarrow> 'c result" where
  "GetCertManager r = pointee (res_cert_manager r)"

definition Init :: "'ptree tree_api \<Rightarrow> 'c cert_functions \<Rightarrow> ('ptree, 'c) resource_manager \<Rightarrow>
    (bool \<times> ('ptree, 'c) resource_manager) result" where
  "Init api fs r = bind_res (pointee (res_server_config r)) (\<lambda>conf.
     bind_res (pointee (res_cert_manager r)) (\<lambda>cm.
     let (ok, conf', cm') = manager_init api fs (conf, cm) in
     Inr (ok, r\<lparr>res_server_config := Some conf', res_cert_manager := Some cm'\<rparr>)))"

section \<open>Lemmas\<close>

lemma pointee_eq_Inr [simp]: "pointee p = Inr x \<longleftrightarrow> p = Some x"
  by (simp add: pointee_def split: option.split)

text \<open>The destructor of a complete pair frees both objects, that of a new one frees nothing, and null is never freed.\<close>

lemma destroy_ca_frees:
  "ca_complete ca \<Longrightarrow> destroy_ca ca = [EVP_PKEY_free (ca_key ca), X509_free (ca_cert ca)]"
  "destroy_ca new_ca = []" "\<not> ca_complete new_ca"
  "EVP_PKEY_free 0 \<notin> set (destroy_ca ca)" "X509_free 0 \<notin> set (destroy_ca ca)"
  by (auto simp: destroy_ca_def ca_complete_def new_ca_def)

text \<open>Initialising never loses a resource, leaves the rules alone, and faults only on a null pointer.\<close>

lemma Init_resources:
  "(\<exists>f. Init api fs r = Inl f) \<longleftrightarrow> res_server_config r = None \<or> res_cert_manager r = None"
  "Init api fs r = Inr (ok, r') \<Longrightarrow> GetRuleConfig r' = GetRuleConfig r \<and>
     (\<exists>conf cm. GetServerConfig r' = Inr conf \<and> GetCertManager r' = Inr cm)"
proof -
  show "(\<exists>f. Init api fs r = Inl f) \<longleftrightarrow> res_server_config r = None \<or> res_cert_manager r = None"
    by (cases "res_server_config r"; cases "res_cert_manager r") (simp_all add: Init_def pointee_def split: prod.split)
  show "Init api fs r = Inr (ok, r') \<Longrightarrow> GetRuleConfig r' = GetRuleConfig r \<and>
      (\<exists>conf cm. GetServerConfig r' = Inr conf \<and> GetCertManager r' = Inr cm)"
    by (auto simp: Init_def GetRuleConfig_def GetServerConfig_def GetCertManager_def elim!: bind_res_InrE split: prod.splits)
qed

lemma GetConfig_found_or: "found_or (GetConfig get c path v0) d = Inr (case get (conf_values c) path of None \<Rightarrow> d | Some v \<Rightarrow> v)"
  by (simp add: found_or_def GetConfig_def split: option.split)

lemma compare_suffix: "length d \<le> length host \<Longrightarrow> take (length d) (drop (length host - length d) host) = d \<longleftrightarrow> suffix d host"
  by (auto simp: suffix_def) (metis append_take_drop_id)

section \<open>Properties\<close>

text \<open>
  C38: The hosts that need a proxy. Once domains were added one after another, a host needs a proxy exactly
  when it ends in one of them; no comparison is out of range. The end need not begin at a dot.
\<close>

theorem proxy_rules_match_suffixes:
  "length host \<le> MAX_ALLOC \<Longrightarrow>
   RequestProxy (fold add_domain ds new_rule_config) host = Inr (list_ex (\<lambda>d. suffix d host) ds)"
proof -
  assume h: "length host \<le> MAX_ALLOC"
  have added: "fold add_domain ds xs = xs @ ds" for xs
    by (induction ds arbitrary: xs) (simp_all add: add_domain_def)
  have "RequestProxy ds host = Inr (list_ex (\<lambda>d. suffix d host) ds)"
  proof (induction ds)
    case (Cons d ds)
    have "size_sub (length host) (length d) = length host - length d" if "length d \<le> length host"
      using that h by (simp add: size_sub_def MAX_ALLOC_def SIZE_MOD_def)
    then show ?case using Cons compare_suffix[of d host] suffix_length_le[of d host] by (auto simp: compare_equal_def)
  qed simp
  then show ?thesis by (simp add: added new_rule_config_def)
qed

theorem proxy_rules_match_suffixes_witness:
  "RequestProxy (fold add_domain [''google.com'', ''twitter.com''] new_rule_config) ''www.google.com'' = Inr True \<and>
   RequestProxy (fold add_domain [''google.com''] new_rule_config) ''notgoogle.com'' = Inr True \<and>
   RequestProxy (fold add_domain [''google.com''] new_rule_config) ''google.com.hk'' = Inr False"
  using proxy_rules_match_suffixes[of "''www.google.com''" "[''google.com'', ''twitter.com'']"]
    proxy_rules_match_suffixes[of "''notgoogle.com''" "[''google.com'']"]
    proxy_rules_match_suffixes[of "''google.com.hk''" "[''google.com'']"]
  by (simp add: MAX_ALLOC_def suffix_def)

text \<open>The functions that the present certificate manager has in place of the declared ones.\<close>

definition present_functions :: "environment \<Rightarrow> cert_manager cert_functions" where
  "present_functions env = \<lparr>LoadRootCA = run_state (load_root_ca env ROOT_FILE), GenerateRootCA = run_state (generate_root_ca env),
     SaveRootCA = run_state (save_root_ca env ROOT_FILE), LoadDHParameters = run_state (load_dh_parameters env DH_FILE),
     GenerateDHParameters = run_state (generate_dh_parameters env), SaveDHParameters = run_state (save_dh_parameters env DH_FILE)\<rparr>"

lemma ensure_provides:
  "run_state (ensure_root_ca env) s =
     provide (LoadRootCA (present_functions env)) (GenerateRootCA (present_functions env)) (SaveRootCA (present_functions env)) s"
  "run_state (ensure_dh_parameters env) s =
     provide (LoadDHParameters (present_functions env)) (GenerateDHParameters (present_functions env))
       (SaveDHParameters (present_functions env)) s"
  by (auto simp: ensure_root_ca_def ensure_dh_parameters_def provide_def present_functions_def split: prod.split bool.split)

text \<open>
  The earlier resources agree with the present ones. The names of certificates and of their files are
  the same; and with the present functions for certificates, the earlier initialisation leaves the
  manager as the present one does, with the same answer, when the configuration can be read and there is
  a root certificate; without one it goes on to the Diffie-Hellman parameters, where the present one stops.
\<close>

theorem earlier_resources_agree:
  "GetCommonName host = parse_common_name host \<and> GetCertificateFileName (SetCertificateDirectory dir m) name = get_certificate_filename dir name \<and>
   (case manager_init api (present_functions env) (conf, cm) of (ok, conf', cm') \<Rightarrow>
      case run_state (ensure_root_ca env) cm of (rooted, cm1) \<Rightarrow>
        run_state (init_manager env) cm = (if rooted then (fst (run_state (ensure_dh_parameters env) cm1), cm') else (False, cm1)) \<and>
        (ok \<longleftrightarrow> fst (LoadConfig api conf) \<and> fst (run_state (init_manager env) cm)) \<and> conf' = snd (LoadConfig api conf))"
proof -
  have names: "GetCommonName host = parse_common_name host" "GetCertificateFileName (SetCertificateDirectory dir m) name = get_certificate_filename dir name"
    by (simp add: GetCommonName_def parse_common_name_def)
       (cases name; simp add: GetCertificateFileName_def SetCertificateDirectory_def get_certificate_filename_def)
  show ?thesis
    by (auto simp: names manager_init_def init_manager_def ensure_provides[symmetric] split: prod.splits)
qed

end
