(* ===== verification/LegacySocket.thy ===== *)
theory LegacySocket
  imports SocketWrapper ResourceManager
begin

text \<open>
  The class \<open>Socket\<close> of \<open>include/socket.h\<close> and the error category of \<open>include/error.h\<close>, both of an
  earlier version of the program. Unlike the present wrapper, this socket shakes hands by itself, in the
  first operation that moves data, and it goes on without TLS when it is given no certificate. The
  sockets of \<open>asio\<close> are parameters, as in \<open>SocketWrapper\<close>.
\<close>

section \<open>The socket\<close>

datatype Protocol = kHttp | kHttps
datatype SSLMode = kClient | kServer

text \<open>
  The synchronous handshake of a TLS stream, with its error code, which is 0 for success, and the
  addresses of the two ends, where \<open>asio\<close> throws if there is none.
\<close>

record 's stream_api = "'s tcp_api" +
  tls_handshake :: "handshake_type \<Rightarrow> 's \<Rightarrow> 's \<times> int"
  local_endpoint :: "'s \<Rightarrow> (string \<times> nat) option"
  remote_endpoint :: "'s \<Rightarrow> (string \<times> nat) option"

record 's legacy_socket =
  ls_use_ssl :: bool
  ls_ssl_ready :: bool
  ls_mode :: SSLMode
  ls_tcp :: 's
  ls_context :: "tls_context option"
  ls_stream :: "tls_stream option"

definition Create :: "'s stream_api \<Rightarrow> 's legacy_socket" where
  "Create api = \<lparr>ls_use_ssl = False, ls_ssl_ready = False, ls_mode = kClient, ls_tcp = tcp_new (tcp_api.truncate api),
     ls_context = None, ls_stream = None\<rparr>"

text \<open>The certificate and the parameters are shared pointers; the TLS stream refers to the one socket.\<close>

definition SwitchProtocol :: "Protocol \<Rightarrow> SSLMode \<Rightarrow> legacy_ca option \<Rightarrow> int option \<Rightarrow> 's legacy_socket \<Rightarrow> 's legacy_socket" where
  "SwitchProtocol protocol mode ca d w =
     (if protocol = kHttp then w\<lparr>ls_use_ssl := False\<rparr>
      else
        let w1 = w\<lparr>ls_context := Some new_tls_context\<rparr>;
            set_up = (\<lambda>ctx. w1\<lparr>ls_context := Some ctx,
              ls_stream := Some \<lparr>next_layer = 0, verify_peer = (mode = kClient), verify_callback = (mode = kClient)\<rparr>,
              ls_use_ssl := True, ls_ssl_ready := False, ls_mode := mode\<rparr>)
        in if mode = kServer then
             (case (ca, d) of
                (Some c, Some p) \<Rightarrow> set_up (new_tls_context\<lparr>ctx_options := [Default_workarounds, No_sslv2, Single_dh_use],
                  ctx_certificate := ca_cert c, ctx_key := ca_key c, ctx_dh := p\<rparr>)
              | _ \<Rightarrow> w1\<lparr>ls_use_ssl := False\<rparr>)
           else set_up new_tls_context)"

definition ls_socket :: "'s legacy_socket \<Rightarrow> 's result" where
  "ls_socket w = (if ls_use_ssl w \<and> ls_stream w = None then Inl Null_Dereference else Inr (ls_tcp w))"

definition ls_is_open :: "'s stream_api \<Rightarrow> 's legacy_socket \<Rightarrow> bool result" where
  "ls_is_open api w = bind_res (ls_socket w) (\<lambda>s. Inr (tcp_is_open (tcp_api.truncate api) s))"

definition ls_close :: "'s stream_api \<Rightarrow> 's legacy_socket \<Rightarrow> 's legacy_socket result" where
  "ls_close api w = bind_res (ls_is_open api w) (\<lambda>opened.
     if opened then
       let (s1, raised) = tcp_shutdown (tcp_api.truncate api) (ls_tcp w) in
       if raised then Inr (w\<lparr>ls_tcp := s1\<rparr>)
       else bind_res (ls_socket (w\<lparr>ls_tcp := s1\<rparr>)) (\<lambda>s. Inr (w\<lparr>ls_tcp := fst (tcp_close (tcp_api.truncate api) s)\<rparr>))
     else Inr w)"

definition ls_set_option :: "'s stream_api \<Rightarrow> string \<Rightarrow> 's legacy_socket \<Rightarrow> 's legacy_socket result" where
  "ls_set_option api opt w =
     (let (s1, raised) = tcp_set_option (tcp_api.truncate api) opt (ls_tcp w) in
      if raised then Inl Uncaught_Exception else Inr (w\<lparr>ls_tcp := s1\<rparr>))"

definition VerifyCertificate :: "bool \<Rightarrow> string \<Rightarrow> bool" where
  "VerifyCertificate pre_verified subject = True"

text \<open>\<open>PrepareSSLSocket\<close>: whether the stream is ready, with the error code of the handshake.\<close>

definition PrepareSSLSocket :: "'s stream_api \<Rightarrow> 's legacy_socket \<Rightarrow> (bool \<times> int \<times> 's legacy_socket) result" where
  "PrepareSSLSocket api w =
     (if ls_ssl_ready w then Inr (True, 0, w)
      else if ls_stream w = None then Inl Null_Dereference
      else let (s1, e) = tls_handshake api (if ls_mode w = kClient then Ssl_client else Ssl_server) (ls_tcp w)
           in Inr (e = 0, e, w\<lparr>ls_tcp := s1\<rparr>))"

text \<open>What an operation that moves data comes to: it is given to a layer, or the handler is called with an error.\<close>

datatype started =
    Started layer transfer
  | Handler_called int

definition start_transfer :: "'s stream_api \<Rightarrow> transfer \<Rightarrow> 's legacy_socket \<Rightarrow> ('s legacy_socket \<times> started) result" where
  "start_transfer api x w =
     (if ls_use_ssl w then
        bind_res (PrepareSSLSocket api w) (\<lambda>(ready, e, w1).
        let w2 = w1\<lparr>ls_ssl_ready := ready\<rparr> in
        if \<not> ready then Inr (w2, Handler_called e)
        else if ls_stream w2 = None then Inl Null_Dereference
        else Inr (w2, Started Tls x))
      else Inr (w, Started Plain x))"

definition ls_async_connect :: "string \<Rightarrow> 's legacy_socket \<Rightarrow> ('s legacy_socket \<times> started) result" where
  "ls_async_connect endpoints w = bind_res (ls_socket w) (\<lambda>_. Inr (w, Started Plain (Connect_to endpoints)))"

definition ls_async_read_some :: "'s stream_api \<Rightarrow> nat \<Rightarrow> 's legacy_socket \<Rightarrow> ('s legacy_socket \<times> started) result" where
  "ls_async_read_some api n = start_transfer api (Read_some n)"

definition ls_async_write :: "'s stream_api \<Rightarrow> string \<Rightarrow> 's legacy_socket \<Rightarrow> ('s legacy_socket \<times> started) result" where
  "ls_async_write api x = start_transfer api (Write_full x)"

definition ls_async_write_some :: "'s stream_api \<Rightarrow> string \<Rightarrow> 's legacy_socket \<Rightarrow> ('s legacy_socket \<times> started) result" where
  "ls_async_write_some api x = start_transfer api (Write_some x)"

text \<open>\<open>to_string\<close>: an exception of the remote endpoint leaves the parts for the local one in place.\<close>

definition ls_to_string :: "'s stream_api \<Rightarrow> 's legacy_socket \<Rightarrow> string result" where
  "ls_to_string api w = bind_res (ls_socket w) (\<lambda>s.
     let (la, lp) = (case local_endpoint api s of Some (a, p) \<Rightarrow> (a, to_string_nat p) | None \<Rightarrow> (''unknown'', ''-1''));
         (ra, rp) = (case (local_endpoint api s, remote_endpoint api s) of
            (Some _, Some (a, p)) \<Rightarrow> (a, to_string_nat p) | _ \<Rightarrow> (''unknown'', ''-1''))
     in Inr (''['' @ la @ '':'' @ lp @ '' <=> '' @ ra @ '':'' @ rp @ '']''))"

section \<open>The error category\<close>

definition GENERIC_ERROR :: int where "GENERIC_ERROR = 1"

definition error_category_name :: string where "error_category_name = ''xproxy.error''"

definition error_category_message :: "int \<Rightarrow> string" where
  "error_category_message v = (if v = GENERIC_ERROR then ''Generic error'' else ''xproxy error'')"

text \<open>An error code is a value with the name of its category.\<close>

definition make_error_code :: "int \<Rightarrow> int \<times> string" where
  "make_error_code e = (e, error_category_name)"

section \<open>Lemmas\<close>

definition legacy_ok :: "'s legacy_socket \<Rightarrow> bool" where
  "legacy_ok w \<longleftrightarrow> (ls_use_ssl w \<longrightarrow> ls_stream w \<noteq> None \<and> ls_context w \<noteq> None)"

datatype legacy_call =
    L_switch Protocol SSLMode "legacy_ca option" "int option"
  | L_close
  | L_option string
  | L_transfer transfer

text \<open>One call: connecting uses the lowest layer, the other transfers go through \<open>start_transfer\<close>.\<close>

fun run_legacy :: "'s stream_api \<Rightarrow> legacy_call \<Rightarrow> 's legacy_socket \<Rightarrow> ('s legacy_socket \<times> started list) result" where
  "run_legacy api (L_switch p m ca d) w = Inr (SwitchProtocol p m ca d w, [])"
| "run_legacy api L_close w = bind_res (ls_close api w) (\<lambda>w'. Inr (w', []))"
| "run_legacy api (L_option x) w = bind_res (ls_set_option api x w) (\<lambda>w'. Inr (w', []))"
| "run_legacy api (L_transfer x) w = bind_res
     (case x of Connect_to e \<Rightarrow> ls_async_connect e w | _ \<Rightarrow> start_transfer api x w) (\<lambda>(w', r). Inr (w', [r]))"

lemma Create_ok [simp]: "legacy_ok (Create api)"
  by (simp add: legacy_ok_def Create_def)

lemma SwitchProtocol_ok [simp]: "legacy_ok (SwitchProtocol p m ca d w)"
  by (auto simp: legacy_ok_def SwitchProtocol_def Let_def split: option.split)

lemma ls_socket_ok: "legacy_ok w \<Longrightarrow> ls_socket w = Inr (ls_tcp w)"
  by (auto simp: legacy_ok_def ls_socket_def)

lemma ls_close_eq:
  "legacy_ok w \<Longrightarrow> ls_close api w = Inr (w\<lparr>ls_tcp := sw_tcp (close (tcp_api.truncate api)
     \<lparr>use_ssl = False, sw_role = None, sw_address = 0, sw_tcp = ls_tcp w, sw_context = None, sw_stream = None\<rparr>)\<rparr>)"
  by (auto simp: ls_close_def ls_is_open_def close_def is_open_def ls_socket_def legacy_ok_def Let_def split: prod.split)

lemma start_transfer_ok:
  assumes "legacy_ok w"
  shows "\<exists>w' r. start_transfer api x w = Inr (w', r) \<and> legacy_ok w' \<and> ls_use_ssl w' = ls_use_ssl w \<and>
     (case r of Started l y \<Rightarrow> y = x \<and> (if ls_use_ssl w then l = Tls \<and> ls_ssl_ready w' else l = Plain)
      | Handler_called e \<Rightarrow> ls_use_ssl w \<and> \<not> ls_ssl_ready w' \<and> e \<noteq> 0)"
  using assms by (auto simp: start_transfer_def PrepareSSLSocket_def legacy_ok_def Let_def split: prod.split)

lemma run_legacy_ok:
  assumes "legacy_ok w"
  shows "whenever (run_legacy api c w) (\<lambda>r. legacy_ok (fst r))"
proof (cases c)
  case L_close
  then show ?thesis using ls_close_eq[OF assms, of api] assms by (simp add: legacy_ok_def)
next
  case (L_option x)
  then show ?thesis using assms by (simp add: ls_set_option_def legacy_ok_def Let_def split: prod.split)
next
  case (L_transfer x)
  obtain w' r where "start_transfer api x w = Inr (w', r)" "legacy_ok w'" using start_transfer_ok[OF assms] by blast
  then show ?thesis using assms L_transfer by (cases x) (simp_all add: ls_async_connect_def ls_socket_ok)
qed simp

section \<open>Properties\<close>

text \<open>
  TLS is asked for and not used. A socket that is to take the server's part in TLS but is given no
  certificate, or no parameters, drops TLS without a sign: the next data goes over the plain socket.
  The present wrapper ends the process in the corresponding case.
\<close>

theorem missing_certificate_goes_plain:
  assumes "ca = None \<or> d = None"
  shows "start_transfer api x (SwitchProtocol kHttps kServer ca d w) =
           Inr (SwitchProtocol kHttps kServer ca d w, Started Plain x) \<and>
         wrapper_switch Ssl_server no_certificate 0 v = Inl Assertion_Failed"
  using assms by (auto simp: start_transfer_def SwitchProtocol_def Let_def wrapper_switch_eq no_certificate_def split: option.split)

definition bad_stream :: "nat stream_api" where
  "bad_stream = \<lparr>tcp_new = 0, tcp_is_open = (\<lambda>s. True), tcp_shutdown = (\<lambda>s. (s, False)), tcp_close = (\<lambda>s. (s, False)),
     tcp_set_option = (\<lambda>x s. (s, False)), tls_handshake = (\<lambda>t s. (Suc s, if s = 0 then 335544539 else 0)),
     local_endpoint = (\<lambda>s. Some (''10.0.0.1'', 80)), remote_endpoint = (\<lambda>s. None)\<rparr>"

theorem missing_certificate_goes_plain_witness:
  "\<exists>w. start_transfer bad_stream (Write_some ''secret'') w = Inr (w, Started Plain (Write_some ''secret''))"
  using missing_certificate_goes_plain[of None None bad_stream "Write_some ''secret''" "Create bad_stream"] by blast

text \<open>
  What the calls ask of the socket, noted beside it: the role it has in TLS, if it has one, and whether a
  handshake has succeeded since TLS was set up. The notes rest on the arguments of the calls and on what
  the handshakes of \<open>asio\<close> answer, and on none of the socket's own flags.
\<close>

definition handshake_as :: "'s stream_api \<Rightarrow> SSLMode \<Rightarrow> 's \<Rightarrow> 's \<times> int" where
  "handshake_as api m = tls_handshake api (if m = kClient then Ssl_client else Ssl_server)"

fun note_call :: "'s stream_api \<Rightarrow> legacy_call \<Rightarrow> 's \<Rightarrow> SSLMode option \<times> bool \<Rightarrow> SSLMode option \<times> bool" where
  "note_call api (L_switch kHttp m ca d) s g = (None, False)"
| "note_call api (L_switch kHttps m ca d) s g = (if m = kServer \<and> (ca = None \<or> d = None) then None else Some m, False)"
| "note_call api (L_transfer x) s (Some m, b) =
     (Some m, case x of Connect_to _ \<Rightarrow> b | _ \<Rightarrow> b \<or> snd (handshake_as api m s) = 0)"
| "note_call api _ s g = g"

definition noted_call :: "'s stream_api \<Rightarrow> legacy_call \<Rightarrow> 's legacy_socket \<times> SSLMode option \<times> bool \<Rightarrow>
    ('s legacy_socket \<times> SSLMode option \<times> bool) result" where
  "noted_call api c = (\<lambda>(w, g). bind_res (run_legacy api c w) (\<lambda>r. Inr (fst r, note_call api c (ls_tcp w) g)))"

text \<open>The flags of the socket agree with the notes.\<close>

definition agrees :: "'s legacy_socket \<times> SSLMode option \<times> bool \<Rightarrow> bool" where
  "agrees = (\<lambda>(w, m, b). legacy_ok w \<and> ls_use_ssl w = (m \<noteq> None) \<and>
     (\<forall>r. m = Some r \<longrightarrow> ls_mode w = r \<and> ls_ssl_ready w = b))"

lemma agrees_transfer:
  assumes "agrees (w, m, b)"
  shows "start_transfer api x w = Inr (case m of None \<Rightarrow> (w, Started Plain x)
    | Some r \<Rightarrow> if b then (w, Started Tls x)
       else let (s, e) = handshake_as api r (ls_tcp w) in
         (w\<lparr>ls_tcp := s, ls_ssl_ready := (e = 0)\<rparr>, if e = 0 then Started Tls x else Handler_called e))"
proof (cases m)
  case None
  then show ?thesis using assms by (simp add: agrees_def start_transfer_def)
next
  case (Some r)
  then have w: "ls_use_ssl w" "ls_mode w = r" "ls_ssl_ready w = b" "ls_stream w \<noteq> None"
    using assms by (simp_all add: agrees_def legacy_ok_def)
  obtain s e where h: "handshake_as api r (ls_tcp w) = (s, e)" by fastforce
  have same: "w\<lparr>ls_ssl_ready := True\<rparr> = w" if b using that w(3) by (cases w) simp
  show ?thesis
    using w h same unfolding handshake_as_def
    by (cases b) (auto simp: Some start_transfer_def PrepareSSLSocket_def)
qed

lemma agrees_switch:
  "agrees (SwitchProtocol p m ca d w, note_call api (L_switch p m ca d) s g)"
  by (cases p) (auto simp: agrees_def legacy_ok_def SwitchProtocol_def Let_def split: option.split)

lemma agrees_data:
  assumes "agrees (w, m, b)" and "\<And>e. x \<noteq> Connect_to e"
  shows "succeeds (noted_call api (L_transfer x) (w, m, b)) agrees"
proof -
  have run: "run_legacy api (L_transfer x) w = bind_res (start_transfer api x w) (\<lambda>(w', r). Inr (w', [r]))"
    using assms(2) by (simp split: transfer.split)
  have note_some: "note_call api (L_transfer x) s (Some r, b') = (Some r, b' \<or> snd (handshake_as api r s) = 0)" for s r b'
    using assms(2) by (simp split: transfer.split)
  show ?thesis
  proof (cases m)
    case None
    then show ?thesis using assms(1) agrees_transfer[OF assms(1), of api x] by (simp add: noted_call_def run del: run_legacy.simps)
  next
    case (Some r)
    obtain s e where h: "handshake_as api r (ls_tcp w) = (s, e)" by fastforce
    then show ?thesis
      using assms(1) agrees_transfer[OF assms(1), of api x] Some
      by (cases b) (simp_all add: noted_call_def run note_some agrees_def legacy_ok_def del: run_legacy.simps note_call.simps)
  qed
qed

lemma agrees_call:
  assumes "agrees (w, m, b)"
  shows "whenever (noted_call api c (w, m, b)) agrees"
proof (cases c)
  case (L_switch p sm ca d)
  then show ?thesis using agrees_switch[of p sm ca d w api "ls_tcp w" "(m, b)"] by (simp add: noted_call_def)
next
  case L_close
  then show ?thesis using assms ls_close_eq[of w api] by (simp add: noted_call_def agrees_def legacy_ok_def)
next
  case (L_option x)
  then show ?thesis using assms
    by (simp add: noted_call_def agrees_def ls_set_option_def legacy_ok_def Let_def split: prod.split)
next
  case (L_transfer x)
  show ?thesis
  proof (cases "\<exists>e. x = Connect_to e")
    case True
    then show ?thesis using assms L_transfer
      by (cases m) (auto simp: noted_call_def agrees_def ls_async_connect_def ls_socket_ok)
  next
    case False
    then have "\<And>e. x \<noteq> Connect_to e" by blast
    from agrees_data[OF assms this, of api] show ?thesis using L_transfer by (auto simp: succeeds_iff)
  qed
qed

lemma agrees_calls: "agrees g \<Longrightarrow> whenever (fold_res (noted_call api) cs g) agrees"
proof (induction cs arbitrary: g)
  case (Cons c cs)
  obtain w m b where g: "g = (w, m, b)" by (cases g) auto
  show ?case using agrees_call[of w m b api c] Cons g by (cases "noted_call api c g") auto
qed simp

text \<open>
  C37: Data waits for the handshake. After any calls on a new socket that return, a transfer of data runs
  without a fault. When the calls did not ask for TLS, or could not have it, it goes to the plain socket.
  When TLS was set up and a handshake has succeeded since, it goes to the TLS stream with no further
  handshake. Otherwise a handshake is made now, in the role asked for: if it succeeds the transfer goes
  to the stream, and if it fails its error is given to the handler at once, nothing is moved, and the
  next transfer tries again.
\<close>

theorem data_waits_for_handshake:
  "whenever (fold_res (noted_call api) cs (Create api, None, False))
     (\<lambda>(w, role, shaken). start_transfer api x w = Inr (case role of
          None \<Rightarrow> (w, Started Plain x)
        | Some r \<Rightarrow> if shaken then (w, Started Tls x)
            else let (s, e) = handshake_as api r (ls_tcp w) in
              (w\<lparr>ls_tcp := s, ls_ssl_ready := (e = 0)\<rparr>, if e = 0 then Started Tls x else Handler_called e)))"
proof -
  have "agrees (Create api, None, False)" by (simp add: agrees_def Create_def legacy_ok_def)
  from agrees_calls[OF this] show ?thesis
    by (rule whenever_mono) (use agrees_transfer in \<open>auto split: prod.splits\<close>)
qed

text \<open>A handshake that fails at the first transfer and succeeds at the second; the third needs none.\<close>

theorem data_waits_for_handshake_witness:
  "\<exists>w. fold_res (noted_call bad_stream) [L_switch kHttps kClient None None, L_transfer (Read_some 9)] (Create bad_stream, None, False) =
         Inr (w, Some kClient, False) \<and>
       start_transfer bad_stream (Write_full ''x'') w = Inr (w\<lparr>ls_tcp := 2, ls_ssl_ready := True\<rparr>, Started Tls (Write_full ''x''))"
proof -
  let ?cs = "[L_switch kHttps kClient None None, L_transfer (Read_some 9)]"
  have tcp: "tcp_new (tcp_api.truncate bad_stream) = 0" "tls_handshake bad_stream t s = (Suc s, if s = 0 then 335544539 else 0)" for t s
    by (simp_all add: bad_stream_def tcp_api.truncate_def)
  obtain w where w: "fold_res (noted_call bad_stream) ?cs (Create bad_stream, None, False) = Inr (w, Some kClient, False)"
    "ls_tcp w = 1"
    by (simp add: noted_call_def SwitchProtocol_def start_transfer_def PrepareSSLSocket_def handshake_as_def tcp
        Create_def Let_def)
  then show ?thesis
    using data_waits_for_handshake[of bad_stream ?cs "Write_full ''x''"]
    by (simp add: handshake_as_def tcp)
qed

end
