(* ===== verification/EarlierHeaders.thy ===== *)
theory EarlierHeaders
  imports Handlers
begin

text \<open>
  The inline code of the headers that are left over from earlier versions of the program:
  \<open>include/xproxy/\<close> (connections, plugins, messages, the parser), \<open>include/filter.h\<close> and
  \<open>include/session.h\<close>. What they only declare has no body in the repository. The lemmas say how the
  state agrees with that of the present program, and what the order of plugins comes to.
\<close>

section \<open>Connections\<close>

record earlier_context =
  client_https :: bool
  server_https :: bool
  client_ssl_setup :: bool
  server_ssl_setup :: bool
  proxied :: bool
  message_exchange_completed :: bool
  local_host :: string
  local_port :: string
  remote_host :: string
  remote_port :: string

definition new_earlier_context :: earlier_context where
  "new_earlier_context = \<lparr>client_https = False, server_https = False, client_ssl_setup = False,
     server_ssl_setup = False, proxied = False, message_exchange_completed = False,
     local_host = [], local_port = [], remote_host = [], remote_port = []\<rparr>"

definition earlier_context_reset :: "earlier_context \<Rightarrow> earlier_context" where
  "earlier_context_reset x = x\<lparr>message_exchange_completed := False\<rparr>"

text \<open>The class of the timer is not in the repository any more; what is used of it is a parameter.\<close>

record 't earlier_timer =
  timer_is_running :: "'t \<Rightarrow> bool"
  timer_was_triggered :: "'t \<Rightarrow> bool"
  timer_do_cancel :: "'t \<Rightarrow> 't"

text \<open>
  The members, over the timer, the socket and the adapter. Connections, contexts and managers are
  referred to by number.
\<close>

record ('t, 's, 'a) earlier_connection =
  ec_connected :: bool
  ec_stopped :: bool
  ec_socket :: "'s option"
  ec_adapter :: "'a option"
  ec_context :: nat
  ec_bridge :: "nat option"
  ec_manager :: "nat option"
  ec_timer :: 't
  ec_buffer_in :: "char list"
  ec_buffer_out :: "byte_buffer list"
  ec_writing :: bool

definition connection_socket :: "('s \<Rightarrow> 'r) \<Rightarrow> ('t, 's, 'a) earlier_connection \<Rightarrow> 'r result" where
  "connection_socket socket c = (case ec_socket c of None \<Rightarrow> Inl Null_Dereference | Some s \<Rightarrow> Inr (socket s))"

definition setConnected :: "bool \<Rightarrow> ('t, 's, 'a) earlier_connection \<Rightarrow> ('t, 's, 'a) earlier_connection" where
  "setConnected b c = c\<lparr>ec_connected := b\<rparr>"

definition setBridgeConnection :: "nat option \<Rightarrow> ('t, 's, 'a) earlier_connection \<Rightarrow> ('t, 's, 'a) earlier_connection" where
  "setBridgeConnection i c = c\<lparr>ec_bridge := i\<rparr>"

definition setConnectionManager :: "nat option \<Rightarrow> ('t, 's, 'a) earlier_connection \<Rightarrow> ('t, 's, 'a) earlier_connection" where
  "setConnectionManager m c = c\<lparr>ec_manager := m\<rparr>"

definition cancelTimer :: "'t earlier_timer \<Rightarrow> ('t, 's, 'a) earlier_connection \<Rightarrow> ('t, 's, 'a) earlier_connection" where
  "cancelTimer api c =
     (if timer_is_running api (ec_timer c) then c\<lparr>ec_timer := timer_do_cancel api (ec_timer c)\<rparr> else c)"

definition timerRunning :: "'t earlier_timer \<Rightarrow> ('t, 's, 'a) earlier_connection \<Rightarrow> bool" where
  "timerRunning api c = timer_is_running api (ec_timer c)"

definition timerTriggered :: "'t earlier_timer \<Rightarrow> ('t, 's, 'a) earlier_connection \<Rightarrow> bool" where
  "timerTriggered api c = timer_was_triggered api (ec_timer c)"

definition kDefaultClientTimeout :: nat where
  "kDefaultClientTimeout = 30"

definition kDefaultServerTimeout :: nat where
  "kDefaultServerTimeout = 15"

section \<open>Sessions\<close>

record earlier_session =
  es_server :: nat
  es_manager :: nat
  es_https :: bool
  es_stopped :: bool
  es_is_proxied :: bool
  es_client_connection :: "nat option"
  es_server_connection :: "nat option"

definition new_session_manager :: "nat set" where
  "new_session_manager = {}"

section \<open>Filters\<close>

datatype FilterResult = kContinue | kSkip | kStop
datatype FilterType = kBoth | kRequest | kResponse
datatype filter_priority = Filter_highest | Filter_middle | Filter_lowest

fun filter_priority_value :: "filter_priority \<Rightarrow> int" where
  "filter_priority_value Filter_highest = 999"
| "filter_priority_value Filter_middle = 500"
| "filter_priority_value Filter_lowest = 1"

record filter_members =
  filter_type :: FilterType

definition new_filter :: "FilterType option \<Rightarrow> filter_members" where
  "new_filter t = \<lparr>filter_type = (case t of None \<Rightarrow> kBoth | Some t \<Rightarrow> t)\<rparr>"

definition filter_name :: "filter_members \<Rightarrow> string" where
  "filter_name f = ''Filter''"

section \<open>Plugins\<close>

datatype PluginPriority = kHighest | kMidHi | kMiddle | kLoMid | kLowest

fun plugin_priority_value :: "PluginPriority \<Rightarrow> int" where
  "plugin_priority_value kHighest = 1000"
| "plugin_priority_value kMidHi = 750"
| "plugin_priority_value kMiddle = 500"
| "plugin_priority_value kLoMid = 250"
| "plugin_priority_value kLowest = 1"

text \<open>
  A plugin through a shared pointer, with what its two virtual functions return. A set of the standard
  library relies on these being always the same.
\<close>

record message_plugin =
  plugin_pointer :: nat
  requestPriority :: int
  responsePriority :: int

definition RequestComp :: "message_plugin \<Rightarrow> message_plugin \<Rightarrow> bool" where
  "RequestComp plugin1 plugin2 = (requestPriority plugin1 < requestPriority plugin2)"

definition ResponseComp :: "message_plugin \<Rightarrow> message_plugin \<Rightarrow> bool" where
  "ResponseComp plugin1 plugin2 = (responsePriority plugin1 < responsePriority plugin2)"

text \<open>A \<open>std::set\<close> with a comparison is the list of its elements in the order of iteration.\<close>

record plugin_chain =
  request_plugins :: "message_plugin list"
  response_plugins :: "message_plugin list"

definition new_plugin_chain :: plugin_chain where
  "new_plugin_chain = \<lparr>request_plugins = [], response_plugins = []\<rparr>"

text \<open>\<open>insert\<close> of \<open>std::set\<close>, which leaves the set as it is when it has an equivalent element.\<close>

fun set_insert :: "('x \<Rightarrow> 'x \<Rightarrow> bool) \<Rightarrow> 'x \<Rightarrow> 'x list \<Rightarrow> 'x list" where
  "set_insert lt x [] = [x]"
| "set_insert lt x (y # ys) =
     (if lt x y then x # y # ys else if lt y x then y # set_insert lt x ys else y # ys)"

text \<open>The manager, over the functions \<open>instance\<close> and \<open>create\<close>, which have no body in the repository.\<close>

definition createChain :: "('m \<Rightarrow> 'm) \<Rightarrow> ('m \<Rightarrow> plugin_chain \<times> 'm) \<Rightarrow> 'm \<Rightarrow> plugin_chain \<times> 'm" where
  "createChain instance_of create m = create (instance_of m)"

record proxy_plugin =
  pp_proxied :: bool

definition new_proxy_plugin :: proxy_plugin where
  "new_proxy_plugin = \<lparr>pp_proxied = False\<rparr>"

section \<open>Messages and the parser\<close>

datatype FieldType = kRequestMethod | kRequestUri | kResponseStatus | kResponseMessage

record earlier_message =
  em_major_version :: int
  em_minor_version :: int
  em_headers :: header_map
  em_body :: byte_buffer

definition setMajorVersion :: "int \<Rightarrow> earlier_message \<Rightarrow> earlier_message" where
  "setMajorVersion version m = m\<lparr>em_major_version := version\<rparr>"

definition setMinorVersion :: "int \<Rightarrow> earlier_message \<Rightarrow> earlier_message" where
  "setMinorVersion version m = m\<lparr>em_minor_version := version\<rparr>"

record 'p earlier_parser =
  ep_observer :: "nat option"
  ep_message :: nat
  ep_headers_completed :: bool
  ep_message_completed :: bool
  ep_chunked :: bool
  ep_field :: string
  ep_value :: string
  ep_parser :: 'p

definition new_earlier_parser :: "'p parser_api \<Rightarrow> nat \<Rightarrow> parser_type \<Rightarrow> nat option \<Rightarrow> 'p earlier_parser" where
  "new_earlier_parser api m t observer = \<lparr>ep_observer = observer, ep_message = m, ep_headers_completed = False,
     ep_message_completed = False, ep_chunked = False, ep_field = [], ep_value = [], ep_parser = api_init api t\<rparr>"

text \<open>The error number of a parser and its description belong to the parser.\<close>

definition errorMessage :: "('p \<Rightarrow> int) \<Rightarrow> (int \<Rightarrow> string) \<Rightarrow> 'p earlier_parser \<Rightarrow> string" where
  "errorMessage errno describe p = describe (errno (ep_parser p))"

section \<open>Agreement with the present program\<close>

text \<open>What the present context keeps of the earlier one, which told the two sides apart.\<close>

definition present_context :: "earlier_context \<Rightarrow> nat option \<Rightarrow> nat option \<Rightarrow> connection_context" where
  "present_context x c s = \<lparr>https = client_https x, ssl_setup = client_ssl_setup x,
     exchange_completed = message_exchange_completed x, client_conn = c, server_conn = s\<rparr>"

text \<open>Constructing and resetting a context commute with this view, and so does constructing a parser.\<close>

theorem earlier_state_agrees:
  "present_context new_earlier_context None None = new_context"
  "w_contexts w k = present_context x c s \<Longrightarrow>
     w_contexts (context_reset k w) k = present_context (earlier_context_reset x) c s"
  "(dec_headers_done d, dec_message_done d, dec_chunked d, current_field d, current_value d, dec_parser d) =
     (let p = new_earlier_parser api m t observer in
      (ep_headers_completed p, ep_message_completed p, ep_chunked p, ep_field p, ep_value p, ep_parser p))"
  if "d = new_decoder api t"
  using that
  by (simp_all add: present_context_def new_earlier_context_def new_context_def context_reset_def
      set_context_def earlier_context_reset_def new_decoder_def new_earlier_parser_def Let_def)

text \<open>Cancelling twice is cancelling once, as soon as a cancelled timer does not run.\<close>

lemma cancelTimer_idem:
  assumes "\<And>t. \<not> timer_is_running api (timer_do_cancel api t)"
  shows "\<not> timerRunning api (cancelTimer api c)" and "cancelTimer api (cancelTimer api c) = cancelTimer api c"
  using assms by (simp_all add: timerRunning_def cancelTimer_def)

section \<open>The order of plugins\<close>

text \<open>Sets that are ordered by a number, which \<open>f\<close> gives.\<close>

lemma set_insert_sorted:
  "sorted_wrt (\<lambda>x y. f x < f y) ys \<Longrightarrow> sorted_wrt (\<lambda>x y. f x < f y) (set_insert (\<lambda>x y. f x < (f y :: int)) x ys)"
proof (induction ys)
  case (Cons y ys)
  have "set (set_insert (\<lambda>x y. f x < f y) x ys) \<subseteq> insert x (set ys)" for x
    by (induction ys) auto
  then show ?case using Cons by (fastforce dest: less_trans)
qed simp

lemma find_append: "find P (xs @ ys) = (case find P xs of None \<Rightarrow> find P ys | Some x \<Rightarrow> Some x)"
  by (induction xs) simp_all

lemma set_insert_find:
  "sorted_wrt (\<lambda>x y. f x < f y) ys \<Longrightarrow>
   find (\<lambda>y. f y = k) (set_insert (\<lambda>x y. f x < (f y :: int)) x ys) = find (\<lambda>y. f y = k) (ys @ [x])"
proof (induction ys)
  case (Cons y ys)
  have "find (\<lambda>z. f z = f x) ys = None" if "f x < f y"
    using that Cons.prems by (fastforce simp: find_None_iff)
  then show ?case using Cons by (auto simp: find_append split: option.split)
qed simp

lemma set_insert_all:
  "sorted_wrt (\<lambda>x y. f x < f y) ys \<Longrightarrow>
   sorted_wrt (\<lambda>x y. f x < f y) (fold (set_insert (\<lambda>x y. f x < (f y :: int))) xs ys) \<and>
   find (\<lambda>y. f y = k) (fold (set_insert (\<lambda>x y. f x < (f y :: int))) xs ys) = find (\<lambda>y. f y = k) (ys @ xs)"
proof (induction xs arbitrary: ys)
  case (Cons x xs)
  then show ?case
    using Cons.IH[OF set_insert_sorted[OF Cons.prems, of x]] set_insert_find[OF Cons.prems, of k x]
    by (auto simp: find_append split: option.splits)
qed simp

text \<open>
  The plugins of a chain. However plugins are inserted, the requests meet them in the order of their
  priorities, the smallest number first, and there is one for each priority, the first that was
  inserted: any later one of the same priority is dropped. The same holds for responses.
\<close>

theorem one_plugin_for_each_priority:
  "sorted_wrt RequestComp (fold (set_insert RequestComp) ps (request_plugins new_plugin_chain)) \<and>
   find (\<lambda>p. requestPriority p = k) (fold (set_insert RequestComp) ps (request_plugins new_plugin_chain)) =
     find (\<lambda>p. requestPriority p = k) ps"
  "sorted_wrt ResponseComp (fold (set_insert ResponseComp) ps (response_plugins new_plugin_chain)) \<and>
   find (\<lambda>p. responsePriority p = k) (fold (set_insert ResponseComp) ps (response_plugins new_plugin_chain)) =
     find (\<lambda>p. responsePriority p = k) ps"
  using set_insert_all[of requestPriority "[]" ps k] set_insert_all[of responsePriority "[]" ps k]
  by (simp_all add: RequestComp_def[abs_def] ResponseComp_def[abs_def] new_plugin_chain_def)

end
