(* ===== verification/Singleton.thy ===== *)
theory Singleton
  imports Prelude Transitions
begin

text \<open>
  The template \<open>Singleton\<close> of \<open>include/xproxy/util/singleton.hpp\<close>, whose \<open>get\<close> may be called by many
  threads: it reads the pointer without the lock and takes the lock only when it is null. A step of the
  model is one access to shared memory by one thread, in any order of the threads. The lemmas show that
  one object is made and that no thread waits for ever, if memory is sequentially consistent; the
  standard does not grant this, because the first read is not synchronised.
\<close>

section \<open>Threads\<close>

text \<open>Where a thread is in \<open>get\<close>; \<open>Publish x\<close> is between the allocation of the object \<open>x\<close> and the store.\<close>

datatype point =
    First_check
  | Acquire
  | Second_check
  | Allocate
  | Publish nat
  | Leave
  | Use
  | Returned nat
  | Crashed

record singleton =
  handle :: "nat option"
  objects :: nat
  owner :: "nat option"
  point_of :: "nat \<Rightarrow> point"

definition new_singleton :: singleton where
  "new_singleton = \<lparr>handle = None, objects = 0, owner = None, point_of = (\<lambda>_. First_check)\<rparr>"

definition goto :: "nat \<Rightarrow> point \<Rightarrow> singleton \<Rightarrow> singleton" where
  "goto t p s = s\<lparr>point_of := (point_of s)(t := p)\<rparr>"

text \<open>One step of a thread; \<open>None\<close> when it waits for the lock or has left \<open>get\<close>.\<close>

definition thread_step :: "nat \<Rightarrow> singleton \<Rightarrow> singleton option" where
  "thread_step t s = (case point_of s t of
     First_check \<Rightarrow> Some (goto t (if handle s = None then Acquire else Use) s)
   | Acquire \<Rightarrow> (case owner s of None \<Rightarrow> Some (goto t Second_check (s\<lparr>owner := Some t\<rparr>)) | Some _ \<Rightarrow> None)
   | Second_check \<Rightarrow> Some (goto t (if handle s = None then Allocate else Leave) s)
   | Allocate \<Rightarrow> Some (goto t (Publish (objects s)) (s\<lparr>objects := Suc (objects s)\<rparr>))
   | Publish x \<Rightarrow> Some (goto t Leave (s\<lparr>handle := Some x\<rparr>))
   | Leave \<Rightarrow> Some (goto t Use (s\<lparr>owner := None\<rparr>))
   | Use \<Rightarrow> Some (goto t (case handle s of None \<Rightarrow> Crashed | Some x \<Rightarrow> Returned x) s)
   | Returned x \<Rightarrow> None
   | Crashed \<Rightarrow> None)"

inductive thread_steps :: "singleton \<Rightarrow> singleton \<Rightarrow> bool" where
  "thread_step t s = Some s' \<Longrightarrow> thread_steps s s'"

definition get_reachable :: "singleton \<Rightarrow> bool" where
  "get_reachable = reach (\<lambda>s. s = new_singleton) thread_steps"

text \<open>A schedule names the thread that runs next; one that cannot run is passed over.\<close>

definition run_thread :: "nat \<Rightarrow> singleton \<Rightarrow> singleton" where
  "run_thread t s = (case thread_step t s of None \<Rightarrow> s | Some s' \<Rightarrow> s')"

definition run_schedule :: "nat list \<Rightarrow> singleton" where
  "run_schedule ts = fold run_thread ts new_singleton"

section \<open>The invariant\<close>

fun holds_lock :: "point \<Rightarrow> bool" where
  "holds_lock Second_check = True"
| "holds_lock Allocate = True"
| "holds_lock (Publish x) = True"
| "holds_lock Leave = True"
| "holds_lock _ = False"

fun point_ok :: "nat option \<Rightarrow> nat \<Rightarrow> point \<Rightarrow> bool" where
  "point_ok h n Allocate = (h = None \<and> n = 0)"
| "point_ok h n (Publish x) = (h = None \<and> x = 0 \<and> n = 1)"
| "point_ok h n Leave = (h = Some 0)"
| "point_ok h n Use = (h = Some 0)"
| "point_ok h n (Returned x) = (h = Some 0 \<and> x = 0)"
| "point_ok h n Crashed = False"
| "point_ok h n _ = True"

text \<open>No object; or one that a thread is about to store; or one that is stored.\<close>

definition singleton_ok :: "singleton \<Rightarrow> bool" where
  "singleton_ok s \<longleftrightarrow>
     (\<forall>t. holds_lock (point_of s t) \<longleftrightarrow> owner s = Some t) \<and>
     (\<forall>t. point_ok (handle s) (objects s) (point_of s t)) \<and>
     (handle s = None \<and> objects s = 0 \<or>
      handle s = None \<and> objects s = 1 \<and> (\<exists>t. point_of s t = Publish 0) \<or>
      handle s = Some 0 \<and> objects s = 1)"

lemma singleton_okD:
  assumes "singleton_ok s"
  shows "holds_lock (point_of s t) \<longleftrightarrow> owner s = Some t" "point_ok (handle s) (objects s) (point_of s t)"
  using assms by (simp_all add: singleton_ok_def)

lemma point_ok_unlocked:
  "point_ok h n p \<Longrightarrow> \<not> holds_lock p \<Longrightarrow> (h = Some 0 \<Longrightarrow> h' = Some 0) \<Longrightarrow> point_ok h' n' p"
  by (cases p) simp_all

text \<open>What a step has to do: the points of the other threads stay, and fit what the step changed.\<close>

lemma singleton_okI:
  assumes ok: "singleton_ok s"
    and point: "point_of s' = (point_of s)(t := p)"
    and lock: "owner s' = (if holds_lock p then Some t else if holds_lock (point_of s t) then None else owner s)"
      "holds_lock p \<Longrightarrow> owner s = None \<or> owner s = Some t"
    and here: "point_ok (handle s') (objects s') p"
    and same: "\<not> holds_lock (point_of s t) \<Longrightarrow> handle s' = handle s \<and> objects s' = objects s"
      "handle s = Some 0 \<Longrightarrow> handle s' = Some 0"
    and made: "holds_lock (point_of s t) \<Longrightarrow> handle s' = None \<and> objects s' = 0 \<or>
      handle s' = None \<and> objects s' = 1 \<and> p = Publish 0 \<or> handle s' = Some 0 \<and> objects s' = 1"
  shows "singleton_ok s'"
  unfolding singleton_ok_def
proof (intro conjI allI)
  fix u
  note d = singleton_okD[OF ok]
  show "holds_lock (point_of s' u) \<longleftrightarrow> owner s' = Some u"
    using d(1)[of u] d(1)[of t] lock by (cases "u = t") (auto simp: point split: if_splits)
  show "point_ok (handle s') (objects s') (point_of s' u)"
  proof (cases "u = t")
    case False
    show ?thesis
    proof (cases "holds_lock (point_of s u)")
      case True
      then have "\<not> holds_lock (point_of s t)" using d(1)[of u] d(1)[of t] False by simp
      then show ?thesis using same(1) d(2)[of u] False by (simp add: point)
    next
      case n: False
      show ?thesis using point_ok_unlocked[OF d(2) n same(2)] False by (simp add: point)
    qed
  qed (simp add: point here)
next
  show "handle s' = None \<and> objects s' = 0 \<or> handle s' = None \<and> objects s' = 1 \<and> (\<exists>u. point_of s' u = Publish 0) \<or>
      handle s' = Some 0 \<and> objects s' = 1"
  proof (cases "holds_lock (point_of s t)")
    case True
    have "\<exists>u. point_of s' u = Publish 0" if "p = Publish 0" using that by (intro exI[of _ t]) (simp add: point)
    then show ?thesis using made[OF True] by blast
  next
    case False
    have "\<exists>u. point_of s' u = Publish 0" if u: "point_of s u = Publish 0" for u
      using False u by (intro exI[of _ u]) (auto simp: point)
    then show ?thesis using ok same(1)[OF False] by (auto simp: singleton_ok_def)
  qed
qed

lemma thread_step_ok:
  assumes ok: "singleton_ok s" and st: "thread_step t s = Some s'"
  shows "singleton_ok s'"
proof -
  note d = singleton_okD[OF ok, of t]
  have s': "point_of s' = (point_of s)(t := point_of s' t)"
    using st by (auto simp: thread_step_def goto_def fun_eq_iff split: point.splits option.splits)
  have none: "objects s = 0" if "point_of s t = Second_check" "handle s = None"
  proof -
    have "point_of s u \<noteq> Publish 0" for u
      using singleton_okD(1)[OF ok, of u] d(1) that(1) by (cases "u = t") auto
    then show ?thesis using ok that(2) by (auto simp: singleton_ok_def)
  qed
  have one: "x = 0 \<and> objects s = 1" if "handle s = Some x" for x using ok that by (auto simp: singleton_ok_def)
  show ?thesis
    by (rule singleton_okI[OF ok s'])
       (use st d none one in \<open>auto simp: thread_step_def goto_def split: point.splits option.splits if_splits\<close>)
qed

interpretation singleton_get: invariant "\<lambda>s. s = new_singleton" thread_steps singleton_ok
proof
  show "singleton_ok s" if "s = new_singleton" for s
    using that by (simp add: singleton_ok_def new_singleton_def)
  show "singleton_ok s'" if "singleton_ok s" and "thread_steps s s'" for s s'
    using that(2,1) by (cases rule: thread_steps.cases) (rule thread_step_ok)
qed

lemma run_schedule_reachable: "get_reachable (run_schedule ts)"
proof -
  have "get_reachable s \<Longrightarrow> get_reachable (fold run_thread ts s)" for s
  proof (induction ts arbitrary: s)
    case (Cons t ts)
    have "get_reachable (run_thread t s)"
      using Cons.prems by (auto simp: get_reachable_def run_thread_def split: option.split intro: reach.Next thread_steps.intros)
    then show ?case using Cons.IH by simp
  qed simp
  moreover have "get_reachable new_singleton" by (simp add: get_reachable_def reach.Start)
  ultimately show ?thesis by (simp add: run_schedule_def)
qed

section \<open>Properties\<close>

text \<open>
  C36: One object for all threads. Whatever the order in which any number of threads run, at most one
  object is made, every call that has returned has returned it, no thread follows a null pointer, and
  as long as some call has not returned, some thread can run: no thread waits for the lock for ever.
\<close>

theorem one_object_for_all_threads:
  assumes "get_reachable s"
  shows "objects s \<le> 1 \<and>
    (case point_of s t of
       Returned x \<Rightarrow> handle s = Some x \<and> objects s = 1
     | Crashed \<Rightarrow> False
     | _ \<Rightarrow> \<exists>u. thread_step u s \<noteq> None)"
proof -
  have ok: "singleton_ok s" using singleton_get.always assms unfolding get_reachable_def .
  have run: "thread_step u s \<noteq> None" if "holds_lock (point_of s u)" for u
    using that by (cases "point_of s u") (simp_all add: thread_step_def)
  have wait: "\<exists>u. thread_step u s \<noteq> None" if "point_of s t = Acquire"
  proof (cases "owner s")
    case None
    then have "thread_step t s \<noteq> None" using that by (simp add: thread_step_def)
    then show ?thesis by blast
  next
    case (Some u)
    then have "holds_lock (point_of s u)" using singleton_okD(1)[OF ok] by simp
    then show ?thesis using run by blast
  qed
  have free: "\<exists>u. thread_step u s \<noteq> None" if "point_of s t = First_check \<or> point_of s t = Use"
    using that by (intro exI[of _ t]) (auto simp: thread_step_def)
  have "objects s \<le> 1" using ok by (auto simp: singleton_ok_def)
  moreover have "objects s = 1" if "handle s = Some 0" using ok that by (auto simp: singleton_ok_def)
  ultimately show ?thesis
    using singleton_okD(2)[OF ok, of t] wait free run[of t] by (cases "point_of s t") auto
qed

theorem one_object_for_all_threads_witness:
  "point_of (run_schedule [0, 1, 0, 0, 1, 0, 0, 0, 1, 1, 1, 0, 1]) 1 = Returned 0 \<and>
   objects (run_schedule [0, 1, 0, 0, 1, 0, 0, 0, 1, 1, 1, 0, 1]) \<le> 1"
  using one_object_for_all_threads[OF run_schedule_reachable[of "[0, 1, 0, 0, 1, 0, 0, 0, 1, 1, 1, 0, 1]"], of 1]
  by (simp add: run_schedule_def run_thread_def thread_step_def new_singleton_def goto_def)

text \<open>
  The unsynchronised read. A state is reached in which one thread is about to store the pointer, under
  the lock, and another to read it without the lock: by the C++ standard these two accesses race, which
  makes the behaviour of the program undefined.
\<close>

theorem first_check_races:
  "\<exists>s. get_reachable s \<and> point_of s 0 = Publish 0 \<and> point_of s 1 = First_check \<and> owner s \<noteq> Some 1"
  by (rule exI[of _ "run_schedule [0, 0, 0, 0]"], intro conjI run_schedule_reachable)
     (simp_all add: run_schedule_def run_thread_def thread_step_def new_singleton_def goto_def)

end
