(* ===== verification/Spec2Isabelle.thy ===== *)
theory Spec2Isabelle
  imports Session Shutdown Lifetimes Chunks Growth LegacySocket EarlierHeaders Singleton
begin

text \<open>
  A verification library of xproxy, an HTTP and HTTPS forwarding proxy in C++ on \<open>boost::asio\<close>,
  OpenSSL and \<open>http_parser\<close>.

  \<^bold>\<open>The program.\<close> \<open>main\<close> makes a server, initialises it (configuration, certificates, signals, acceptor)
  and runs one \<open>io_service\<close> in one thread. An accepted client connection reads a request through its
  decoder; when the request is complete an event takes it to the connection context, which makes a
  server connection for its destination and writes the request there through that connection's encoder.
  The response travels back piece by piece. A CONNECT request is acknowledged and the client is then
  shaken hands with under a certificate that the certificate manager makes for the host. Timers bound
  the waiting, the two connection managers hold the connections, and a signal stops everything.

  \<^bold>\<open>The theories, in the order of the code.\<close>

  \<^item> \<open>Prelude\<close>: faults, results and their two readings (\<open>succeeds\<close>: a value is returned and satisfies
    something; \<open>whenever\<close>: if one is returned), 64-bit sizes, and the string functions of the standard
    library. The program is built with assertions, so a failed \<open>assert\<close> is a fault like undefined behaviour.
  \<^item> \<open>ByteBuffer\<close>, \<open>Growth\<close>: \<open>include/x/memory/byte_buffer.hpp\<close>. Memory is a list of cells that may be
    indeterminate; every allocation, copy and overlap is written out. The buffer refines a string
    (locale \<open>byte_sink\<close>, interpreted by the string and the memory appends), and its reallocations are
    logarithmic in its content.
  \<^item> \<open>HttpMessage\<close>: \<open>include/x/message/http/\<close>. The header map is an ordered association list.
  \<^item> \<open>HttpEncoder\<close>: \<open>src/http_encoder.cpp\<close>. Encoding a growing message writes its serialisation once.
  \<^item> \<open>HttpDecoder\<close>, \<open>Chunks\<close>: \<open>src/http_decoder.cpp\<close>. The callbacks and the driver, over a parser that is a
    parameter; the re-framed body is read back by a reference reader of chunks.
  \<^item> \<open>CertNames\<close>, \<open>CertificateManager\<close>: \<open>src/certificate_manager.cpp\<close>. The operations run in a state monad
    whose state has the members and the history of the library calls; a Hoare calculus on it shows that
    every raw object is released or handed over exactly once.
  \<^item> \<open>Network\<close>, \<open>Connection\<close>, \<open>Handlers\<close>, \<open>EventLoop\<close>: \<open>include/x/net/\<close>, \<open>src/connection.cpp\<close>,
    \<open>src/client_connection.cpp\<close>, \<open>src/server_connection.cpp\<close>, \<open>src/connection_context.cpp\<close>, \<open>src/server.cpp\<close>,
    \<open>include/x/util/\<close>. One record is the state of the whole process: connections by id, contexts, pending
    operations, queued handlers, managers, acceptor, certificates. Each function of the code is a function
    on it; a step completes a pending operation with some outcome or runs the next handler.
  \<^item> \<open>Transitions\<close>: reachable states and the locale \<open>invariant\<close>, interpreted five times on the steps of
    the proxy: \<open>NetworkInvariants\<close> (existence of what is pointed to, timers, states of connections),
    \<open>Typing\<close> (objects fit the class of their connection), \<open>Handshakes\<close> (the certificate manager),
    \<open>Privacy\<close> with \<open>Activities\<close> (at most one activity in a context, and no request to the server of an
    https context before its socket uses TLS; with the run of a whole https exchange) and \<open>Ownership\<close>
    (whatever is still mentioned is stopped, or held by a manager or the acceptor).
  \<^item> \<open>Shutdown\<close>: no connection is leaked, and after a signal the program winds down and ends.
  \<^item> \<open>SocketWrapper\<close>: \<open>include/x/net/socket_wrapper.hpp\<close>. The wrapper with its TCP socket, TLS context and
    TLS stream, in any sequence of calls. What a connection of \<open>Network\<close> keeps of its socket is an
    abstraction of it; the locale \<open>transport\<close> says what both promise and is interpreted on both.
  \<^item> \<open>NetworkProperties\<close>, \<open>Exchanges\<close>, \<open>Handshakes\<close>, \<open>Quiescence\<close>: stopping,
    the routing of requests and responses, TLS, and the termination of the event loop between completions.
  \<^item> \<open>Relay\<close>: a response from the bytes that are read to the bytes queued for the client, through every
    handler that the event loop runs on the way; the counterpart of the request in this theory.
  \<^item> \<open>Failures\<close>: runs from the start of the program to a fault, or to a request sent to the wrong host, as
    scripts that the kernel executes.
  \<^item> \<open>Lifetimes\<close>: a destroyed connection is used exactly by an event or an accept that refers to one without
    holding it. The operations are gone through once more, each for the connections that it looks at.
  \<^item> \<open>Traffic\<close>, \<open>Halves\<close>, \<open>RequestLeg\<close>, \<open>ResponseLeg\<close>, \<open>Session\<close>: the composition of all of it over time. The
    environment is a list of events (data from a peer, bytes that a socket takes), after each of which the event loop
    runs until its queue is empty; four predicates on the world (\<open>asking\<close>, \<open>sending\<close>, \<open>answering\<close>,
    \<open>flushing\<close>) carry an exchange from \<open>at_rest\<close> back to \<open>at_rest\<close>, and exchanges are put one after the other.
    Timers do not expire, nothing is stopped and no completion overtakes a queued event in these runs; the
    invariants cover all others. \<open>Traffic\<close> also shows that the bytes of a queue leave through the pending writes
    in order.
  \<^item> \<open>Startup\<close>: \<open>src/main.cpp\<close>, \<open>server::init\<close> and \<open>include/x/conf/config.hpp\<close>.
  \<^item> \<open>LegacySocket\<close>, \<open>ResourceManager\<close>, \<open>Singleton\<close>, \<open>EarlierHeaders\<close>: the code that stands in the headers of
    earlier versions, \<open>include/socket.h\<close> with \<open>include/error.h\<close>, \<open>include/resource_manager.h\<close>,
    \<open>include/xproxy/util/singleton.hpp\<close>, and the members and inline functions of the rest, each next to what
    replaced it. The singleton is the only code for many threads; a step of its model is one access of one thread, and \<open>invariant\<close> is interpreted on these steps.
  \<^item> This theory: a request from the bytes that are read to the bytes that are sent.

  \<^bold>\<open>Parameters.\<close> What is not in the repository is an argument: the parser (\<open>parser_api\<close>: any function from
  a state and data to callbacks and a consumed length), OpenSSL with the C file functions and the clock
  (\<open>environment\<close>: any answer to any call, depending on all calls before), \<open>boost::lexical_cast\<close>, the
  property tree and the acceptor (\<open>startup_api\<close>), the TCP sockets (\<open>tcp_api\<close>, \<open>stream_api\<close>), the property tree
  and the functions without a body of the earlier resources (\<open>tree_api\<close>, \<open>cert_functions\<close>), the earlier timer
  (\<open>earlier_timer\<close>). No theorem assumes more of them than its hypotheses say.

  \<^bold>\<open>Bounds.\<close> Contents of buffers are bounded by \<open>SINK_LIMIT\<close> (2^60) where an append must not fail, since
  capacities stay below 3 N + 1024 and an allocation may fail above 2^63 - 1. Comparing buffers is claimed
  below 2^31 bytes, where the counter of the loop overflows. Ids are unbounded numbers: 2^64 connections
  are not reached. \<open>drain\<close> runs the queue with fuel; \<open>energy\<close> is enough fuel, as \<open>handlers_run_out\<close> proves.
  Functions on strings terminate structurally or by a measure. After a clean signal \<open>work\<close> counts the steps
  to the end exactly.

  \<^bold>\<open>Choices.\<close> Any pending operation may complete at any time with any outcome of its kind, which covers
  the orders and errors that asio allows, and more (a closed socket may still deliver data). A timer
  whose wait ends without an error has expired: its deadline cannot be moved while the handler is
  outstanding. The managers are iterated in the order of insertion, where the code has the order of
  addresses. A resolved host is connected to by one operation. A destroyed connection is one that no
  shared pointer holds; using it is the fault \<open>Use_After_Free\<close>, and the event tasks, which capture a bare
  \<open>this\<close>, hold nothing.

  \<^bold>\<open>Not modelled.\<close> Logging; what the network transports, and that a stopped connection closes its
  socket (the state of connections has no TCP socket, closing is modelled in the wrapper); what the
  smart pointers of the certificate manager free when it is destroyed; getters that only return a member;
  \<open>include/x/handler/message_handler.hpp\<close>, which nothing implements; of the headers \<open>include/*.h\<close> and
  \<open>include/xproxy/\<close>, which are left over from earlier versions and included by no source file, the functions
  that are only declared, whose bodies are not in the repository; and the tests.
\<close>

section \<open>From the bytes of a request to the bytes sent to the server\<close>

lemma serialize_complete:
  "complete_message v (Request_part (pv_method v) (rewrite_uri (pv_is_connect v) u)) (decoded_headers hs)
     (decoded_body v ps) m \<Longrightarrow> serialize m = forwarded_text v u hs ps"
  by (simp add: complete_message_def serialize_def start_line_def header_block_def forwarded_text_def)

text \<open>
  C2: A request passes through the proxy. Let the parser, over any number of reads, make the callbacks
  of one request that is not CONNECT, with its headers in any fragments, naming by its first \<open>Host\<close>
  header a host and possibly a port. Then the decoder makes a message of them without a fault, and when
  it is handed to a plain context with a living client and no server connection, a new server
  connection for that host and port holds exactly: the method, the rewritten target, the version, the
  headers, each once and in the order of their names, and the body, chunked again if it was chunked;
  and the host is being looked up.
\<close>

theorem request_is_forwarded:
  assumes "reads \<noteq> []" and "consumes_all (parser env) (api_init (parser env) HTTP_REQUEST) reads"
    and "feed (parser env) (api_init (parser env) HTTP_REQUEST) reads = (p', request_calls v u hs ps)"
    and "hs \<noteq> []" and "list_all fragments_ok hs"
    and "msg_ok SINK_LIMIT m" and "headers m = []" and "body_text m = []" and "derived m = Request_part a b"
    and "length (forwarded_text v u hs ps) \<le> SINK_LIMIT"
    and "\<not> is_connect (pv_method v)" and "map_of (map joined hs) ''Host'' = Some host" and "length host \<le> MAX_ALLOC"
    and "split_authority (lexical_cast env) 80 host = Some (h, p)" and "h \<noteq> []" and "p \<noteq> 0"
    and "lock w (server_conn (w_contexts w k)) = None" and "lock w (client_conn (w_contexts w k)) = Some i"
    and "\<not> https (w_contexts w k)"
  shows "\<exists>d' m' w' c s. decode_reads (parser env) reads (new_decoder (parser env) HTTP_REQUEST) m = Inr (d', m', True) \<and>
           on_client_message env k m' w = Inr w' \<and> s = Suc (w_counter w) \<and> w_conns w' = (w_conns w)(s \<mapsto> c) \<and>
           c_kind c = Server \<and> c_host c = h \<and> c_port c = p \<and> unsent c = forwarded_text v u hs ps \<and>
           w_ops w' = w_ops w @ [Resolve_op s]"
proof -
  let ?p = "Request_part (pv_method v) (rewrite_uri (pv_is_connect v) u)"
  have "length (decoded_body v ps) \<le> SINK_LIMIT" using assms(10) by (simp add: forwarded_text_def)
  from request_decoded[OF assms(1-9) this] obtain d' m' where
    dec: "decode_reads (parser env) reads (new_decoder (parser env) HTTP_REQUEST) m = Inr (d', m', True)"
    and m': "complete_message v ?p (decoded_headers hs) (decoded_body v ps) m'" "msg_ok SINK_LIMIT m'"
    by blast
  have d: "derived m' = ?p" "completed m'" "headers_done m'" "find_header m' ''Host'' = Some host"
    using m'(1) assms(12) by (simp_all add: complete_message_def completed_def find_header_def decoded_headers_lookup)
  have s: "serialize m' = forwarded_text v u hs ps" using m'(1) by (rule serialize_complete)
  have send: "sendable (new_encoder HTTP_REQUEST) m'"
    using d m'(2) s assms(10) by (simp add: sendable_def enc_ok_def)
  have a: "authority (pv_method v) (rewrite_uri (pv_is_connect v) u) m' = Some host"
    using d(4) assms(11) by (simp add: authority_def)
  obtain c where "c_kind c = Server" "c_host c = h" "c_port c = p" "\<not> c_connected c" "\<not> c_stopped c"
    "\<not> c_writing c" "\<not> running (c_timer c)" "c_buffer_out c = []" "c_context c = k" "c_encoder c = new_encoder HTTP_REQUEST"
    and on: "on_client_message env k m' w = write_message (Suc (w_counter w)) m' (with_server k False c w)"
    using on_client_message_opens[OF d(1) a assms(13) _ d(2) assms(17,18), of env h p] assms(11,14,19) by (auto simp: Let_def)
  then show ?thesis
    using write_message_starts_server[of "with_server k False c w" "Suc (w_counter w)" c m'] send assms(15,16) dec s
    by (auto simp: initiate_def)
qed

definition post_calls :: "(parser_view \<times> callback) list" where
  "post_calls = request_calls (sample_view False) ''http://h.com/x'' [([''Ho'', ''st''], [''h.'', ''com''])] [''hi'']"

definition post_setting :: "(parser_view \<times> callback) list list setting" where
  "post_setting = sample_setting\<lparr>parser := scripted [take 3 post_calls, drop 3 post_calls]\<rparr>"

theorem request_is_forwarded_witness:
  "\<exists>d' m' w' c. decode_reads (parser post_setting) [''r1'', ''r2''] (new_decoder (parser post_setting) HTTP_REQUEST)
       sample_request = Inr (d', m', True) \<and>
     on_client_message post_setting 0 m' (client_world False) = Inr w' \<and> w_conns w' 3 = Some c \<and>
     c_host c = ''h.com'' \<and> c_port c = 80 \<and>
     unsent c = ''POST /x HTTP/1.1'' @ CRLF @ ''Host: h.com'' @ CRLF @ CRLF @ ''hi''"
proof -
  let ?hs = "[([''Ho'', ''st''], [''h.'', ''com''])] :: fragments list"
  have written: "forwarded_text (sample_view False) ''http://h.com/x'' ?hs [''hi''] =
      ''POST /x HTTP/1.1'' @ CRLF @ ''Host: h.com'' @ CRLF @ CRLF @ ''hi''"
    using rewrite_uri_absolute(1)[of "''h.com''" "''x''"]
    by (simp add: forwarded_text_def sample_view_def decoded_headers_def joined_def header_line_def decoded_body_def
        framed_def closing_def to_string_int_def to_string_nat_def digits_in.simps digit_char_def MAX_ALLOC_def)
  have ok: "msg_ok SINK_LIMIT sample_request"
    by (simp add: sample_request_def msg_ok_def headers_ok_def fits_def)
  have reads: "consumes_all (parser post_setting) (api_init (parser post_setting) HTTP_REQUEST) [''r1'', ''r2'']"
    "feed (parser post_setting) (api_init (parser post_setting) HTTP_REQUEST) [''r1'', ''r2''] =
       ([], request_calls (sample_view False) ''http://h.com/x'' ?hs [''hi''])"
    by (simp_all add: post_setting_def scripted_def post_calls_def)
  have req: "headers sample_request = []" "body_text sample_request = []" "derived sample_request = Request_part [] []"
    by (simp_all add: sample_request_def body_text_def)
  have "length (forwarded_text (sample_view False) ''http://h.com/x'' ?hs [''hi'']) \<le> SINK_LIMIT"
    by (simp add: written CRLF_def SINK_LIMIT_def)
  from request_is_forwarded[OF _ reads _ _ ok req this, where host = "''h.com''" and h = "''h.com''" and p = 80 and w = "client_world False" and k = 0 and i = 1] show ?thesis
    by (simp add: fragments_ok_def is_connect_def sample_view_def joined_def MAX_ALLOC_def new_context_def written[unfolded sample_view_def])
       (elim exE conjE, intro exI conjI, assumption+, simp_all)
qed

end
